(* ===== verification/C_Prelude.thy ===== *)
theory C_Prelude
  imports Main "HOL-Library.Word" "HOL-Library.Sublist"
begin

unbundle bit_operations_syntax

text \<open>
  What every other theory shares: the C integer types of the x86-64 (LP64, little endian)
  target the programs are built for, the few functions of the C library they call that
  compute a value (\<open>atoi\<close>, \<open>htons\<close>, \<open>htonl\<close>), and generic facts about lists, prefixes and words.
  Integers keep their width: \<open>int\<close> is a 32 bit word and \<open>long\<close> a 64 bit word, read as two's
  complement where the code compares them as signed values.
\<close>

section \<open>C integers\<close>

type_synonym cint = "32 word"
type_synonym clong = "64 word"
type_synonym cushort = "16 word"
type_synonym bytes = "8 word list"

abbreviation negative :: "cint \<Rightarrow> bool" where
  "negative x \<equiv> sint x < 0"

abbreviation to_long :: "cint \<Rightarrow> clong" where
  "to_long \<equiv> scast"

abbreviation to_int :: "clong \<Rightarrow> cint" where
  "to_int \<equiv> ucast"

section \<open>The C library functions that compute values\<close>

definition is_space :: "char \<Rightarrow> bool" where
  "is_space x = (of_char x = (32::nat) \<or> (9 \<le> (of_char x :: nat) \<and> of_char x \<le> (13::nat)))"

definition digit_of :: "char \<Rightarrow> int option" where
  "digit_of x = (let n = of_char x :: int in if 48 \<le> n \<and> n \<le> 57 then Some (n - 48) else None)"

primrec read_digits :: "int \<Rightarrow> string \<Rightarrow> int" where
  "read_digits acc [] = acc"
| "read_digits acc (x # xs) =
     (case digit_of x of None \<Rightarrow> acc | Some d \<Rightarrow> read_digits (10 * acc + d) xs)"

definition clamp_long :: "int \<Rightarrow> int" where
  "clamp_long v = max (- (2 ^ 63)) (min (2 ^ 63 - 1) v)"

definition atoi :: "string \<Rightarrow> cint" where
  "atoi str =
     (case dropWhile is_space str of
        [] \<Rightarrow> 0
      | x # xs \<Rightarrow>
          word_of_int (clamp_long
            (if x = CHR ''-'' then - read_digits 0 xs
             else if x = CHR ''+'' then read_digits 0 xs
             else read_digits 0 (x # xs))))"

lemmas atoi_eval = atoi_def is_space_def digit_of_def clamp_long_def

definition htons :: "cushort \<Rightarrow> cushort" where
  "htons x = push_bit 8 x OR drop_bit 8 x"

definition htonl :: "32 word \<Rightarrow> 32 word" where
  "htonl x = push_bit 24 x OR (push_bit 8 x AND 0xFF0000) OR (drop_bit 8 x AND 0xFF00) OR drop_bit 24 x"

lemma htons_involutive [simp]: "htons (htons x) = x"
  by (rule bit_word_eqI) (auto simp: htons_def bit_simps)

text \<open>The low half of a \<open>long\<close>.\<close>

lemma take_bit_low:
  "take_bit 32 (take_bit 64 x + take_bit 64 y) = take_bit 32 (x + y :: int)"
proof -
  have "take_bit 32 (take_bit 64 x + take_bit 64 y) =
      take_bit 32 (take_bit 32 (take_bit 64 x) + take_bit 32 (take_bit 64 y))"
    by (simp only: take_bit_add)
  also have "\<dots> = take_bit 32 (take_bit 32 x + take_bit 32 y)" by simp
  finally show ?thesis by (simp only: take_bit_add)
qed

lemma to_int_add: "to_int (x + y) = to_int x + to_int y"
  by transfer (simp add: take_bit_low)

text \<open>How a 16 bit value lies in memory on a little endian machine.\<close>

definition le16 :: "cushort \<Rightarrow> bytes" where
  "le16 x = [ucast x, ucast (drop_bit 8 x)]"

definition le32 :: "32 word \<Rightarrow> bytes" where
  "le32 x = [ucast x, ucast (drop_bit 8 x), ucast (drop_bit 16 x), ucast (drop_bit 24 x)]"

section \<open>Generic facts\<close>

lemma prefix_append_left: "prefix xs ys \<Longrightarrow> prefix (zs @ xs) (zs @ ys)"
  by simp

lemma prefix_append_right: "prefix xs ys \<Longrightarrow> prefix xs (ys @ zs)"
  by simp

lemma foldl_snoc: "foldl f a (xs @ [x]) = f (foldl f a xs) x"
  by simp

lemma concat_replicate_single [simp]: "concat (replicate n [x]) = replicate n x"
  by (induction n) auto

lemma sum_list_replicate_word: "sum_list (replicate n (x::'a::len word)) = of_nat n * x"
  by (induction n) (auto simp: algebra_simps)

lemma sint_small [simp]: "n < 2 ^ 31 \<Longrightarrow> sint (of_nat n :: cint) = int n"
  by (simp add: sint_uint uint_nat unat_of_nat signed_take_bit_int_eq_self)

lemma unat_small [simp]: "n < 2 ^ 31 \<Longrightarrow> unat (of_nat n :: cint) = n"
  by (simp add: unat_of_nat)

lemma unat_nonneg:
  assumes "0 \<le> sint (x :: cint)"
  shows "unat x = nat (sint x)"
proof -
  have "\<not> bit x 31" using assms bit_last_iff [of x] by simp
  then have "sint x = take_bit 32 (uint x)"
    by (simp add: sint_uint signed_take_bit_eq_take_bit_minus bit_uint_iff)
  also have "\<dots> = uint x"
    by (rule take_bit_int_eq_self) (use uint_lt2p [of x] in simp_all)
  finally show ?thesis by simp
qed

lemma replicate_snoc: "replicate n x @ [x] = replicate (Suc n) x"
  by (simp add: replicate_append_same)

lemma less_7_cases:
  "(n::nat) < 7 \<Longrightarrow> n = 6 \<or> n = 5 \<or> n = 4 \<or> n = 3 \<or> n = 2 \<or> n = 1 \<or> n = 0"
  by arith

lemma of_nat_small_iff:
  "n < 2 ^ 64 \<Longrightarrow> j < 2 ^ 64 \<Longrightarrow> (of_nat n :: clong) = of_nat j \<longleftrightarrow> n = j"
  by (simp add: word_of_nat_eq_iff take_bit_nat_eq_self)

lemma of_nat_mult_inject:
  fixes V :: clong
  assumes "of_nat k * V = of_nat N * V" and "0 < unat V"
    and "k * unat V < 2 ^ 64" and "N * unat V < 2 ^ 64"
  shows "k = N"
proof -
  have "unat (of_nat j * V) = j * unat V" if "j * unat V < 2 ^ 64" for j
  proof -
    have "of_nat j * V = of_nat (j * unat V)" by simp
    then show ?thesis using that by (simp only: unat_of_nat) simp
  qed
  with assms show ?thesis by (metis mult_right_cancel not_less_zero)
qed

lemma concat_replicate_replicate: "concat (replicate n (replicate m x)) = replicate (n * m) x"
  by (induction n) (simp_all add: replicate_add)

text \<open>The sums of the non-empty prefixes of a list hold a value.\<close>

definition hits :: "'a::monoid_add \<Rightarrow> 'a list \<Rightarrow> bool" where
  "hits x ls \<longleftrightarrow> (\<exists>q. q \<noteq> [] \<and> prefix q ls \<and> sum_list q = x)"

lemma hits_Nil [simp]: "\<not> hits x []"
  by (simp add: hits_def)

lemma hits_snoc: "hits x (ls @ [l]) \<longleftrightarrow> hits x ls \<or> sum_list ls + l = x"
  unfolding hits_def by (auto simp: prefix_snoc)

lemma hits_replicate:
  "hits x (replicate m v) \<longleftrightarrow> (\<exists>k. 0 < k \<and> k \<le> m \<and> of_nat k * v = (x :: 'a::len word))"
proof -
  have key: "prefix q (replicate m v) \<longleftrightarrow> (\<exists>k \<le> m. q = replicate k v)" for q
  proof
    assume "prefix q (replicate m v)"
    then obtain r where "replicate m v = q @ r"
      by (auto elim: prefixE)
    then have "q = take (length q) (replicate m v)"
      by simp
    then have "q = replicate (min (length q) m) v"
      by (simp add: take_replicate)
    then show "\<exists>k \<le> m. q = replicate k v"
      by (metis min.cobounded2)
  next
    assume "\<exists>k \<le> m. q = replicate k v"
    then obtain k where "k \<le> m" "q = replicate k v" by blast
    then show "prefix q (replicate m v)"
      using replicate_add [of k "m - k" v] by auto
  qed
  have "hits x (replicate m v) \<longleftrightarrow>
     (\<exists>k. k \<le> m \<and> replicate k v \<noteq> [] \<and> sum_list (replicate k v) = x)"
    unfolding hits_def key by blast
  also have "\<dots> \<longleftrightarrow> (\<exists>k. k \<le> m \<and> k \<noteq> 0 \<and> of_nat k * v = x)"
    unfolding sum_list_replicate_word replicate_empty ..
  finally show ?thesis by auto
qed

section \<open>Strings\<close>

text \<open>The fields of a string between separators.\<close>

fun split_by :: "char \<Rightarrow> string \<Rightarrow> string list" where
  "split_by sep [] = [[]]"
| "split_by sep (x # xs) =
     (case split_by sep xs of
        [] \<Rightarrow> []
      | f # fs \<Rightarrow> if x = sep then [] # f # fs else (x # f) # fs)"

lemma split_by_not_Nil: "split_by sep xs \<noteq> []"
  by (induction xs) (auto split: list.split)

lemma split_by_append: "sep \<notin> set xs \<Longrightarrow> split_by sep (xs @ sep # ys) = xs # split_by sep ys"
  using split_by_not_Nil [of sep ys] by (induction xs) (auto split: list.split)

lemma split_by_none: "sep \<notin> set xs \<Longrightarrow> split_by sep xs = [xs]"
  by (induction xs) auto

end
