(* ===== verification/Driver.thy ===== *)
theory Driver
  imports C_Prelude
begin

text \<open>
  The test driver, the shell script \<open>sctp-tests\<close> with \<open>libst/logging.sh\<close>: how it finds the cases of a plan, loads
  the script and the topology of each, runs their functions and logs. The state is what such a shell has: variables,
  functions (each with the file that defined it), the directory and the stack of \<open>pushd\<close>. Files are sourced
  statement by statement; of their statements those are kept that the driver depends on. What the functions of
  the test scripts and topologies do is a parameter: from the file and the name to the calls of \<open>st_log\<close> they
  make, \<open>None\<close> when they do not come back; they are taken to leave the driver's own variables alone.
\<close>

section \<open>Files\<close>

text \<open>An absolute path, as the names from the root on. \<open>..\<close> goes up.\<close>

type_synonym path = "string list"

definition enter :: "string \<Rightarrow> path \<Rightarrow> path" where
  "enter c p = (if c = '''' \<or> c = ''.'' then p else if c = ''..'' then butlast p else p @ [c])"

definition below :: "path \<Rightarrow> string \<Rightarrow> path" where
  "below p w = fold enter (split_by CHR ''/'' w) p"

definition absolute :: "string \<Rightarrow> bool" where
  "absolute w \<longleftrightarrow> w \<noteq> [] \<and> hd w = CHR ''/''"

definition resolve :: "path \<Rightarrow> string \<Rightarrow> path" where
  "resolve dir w = below (if absolute w then [] else dir) w"

text \<open>\<open>dirname\<close>, resolved: without the last name of the word.\<close>

definition dirname :: "path \<Rightarrow> string \<Rightarrow> path" where
  "dirname dir w =
     fold enter (butlast (rev (dropWhile ((=) '''') (rev (split_by CHR ''/'' w))))) (if absolute w then [] else dir)"

definition path_name :: "path \<Rightarrow> string" where
  "path_name p = concat (map (Cons CHR ''/'') p)"

text \<open>What the driver depends on in a file: \<open>x=v\<close>, \<open>source w\<close>, \<open>f() {\<dots>}\<close>; and its words, when it is a list.\<close>

datatype stmt = Assign string string | Source string | Function string

record script =
  stmts :: "stmt list"
  listed :: "string list"

record disk =
  files :: "path \<Rightarrow> script option"
  is_dir :: "path \<Rightarrow> bool"
  is_exec :: "path \<Rightarrow> bool"
  sh_files :: "path \<Rightarrow> string list" \<comment> \<open>what \<open>*.sh\<close> stands for\<close>
  root_dir :: "path"

section \<open>The shell\<close>

datatype level = DBG | INFO | WARN | ERR

datatype 'm remark = Says string | Of_test 'm

datatype 'm event = Ran string path | Logged level "'m remark" | Echoed "'m remark"

record 'm shell =
  vars :: "string \<Rightarrow> string" \<comment> \<open>empty when not set\<close>
  funs :: "string \<Rightarrow> path option"
  cwd :: "path"
  dirstack :: "path list"
  events :: "'m event list"

type_synonym 'm bodies = "path \<Rightarrow> string \<Rightarrow> (level \<times> 'm) list option"

text \<open>
  Sourcing a file that sources others: their statements, with the file each stands in. The directory does not change
  meanwhile. A file that is not there is an error message and the next statement; files that source each other
  without end give \<open>None\<close>.
\<close>

partial_function (option) flatten :: "disk \<Rightarrow> path \<Rightarrow> (path \<times> stmt) list \<Rightarrow> (path \<times> stmt) list option" where
  "flatten D dir todo =
     (case todo of
        [] \<Rightarrow> Some []
      | (p, c) # rest \<Rightarrow>
          (case c of
             Source w \<Rightarrow>
               (case files D (resolve dir w) of
                  None \<Rightarrow> flatten D dir rest
                | Some f \<Rightarrow> flatten D dir (map (Pair (resolve dir w)) (stmts f) @ rest))
           | _ \<Rightarrow> Option.bind (flatten D dir rest) (\<lambda>es. Some ((p, c) # es))))"

fun perform :: "path \<times> stmt \<Rightarrow> 'm shell \<Rightarrow> 'm shell" where
  "perform (p, Assign x v) sh = sh\<lparr>vars := (vars sh)(x := v)\<rparr>"
| "perform (p, Function f) sh = sh\<lparr>funs := (funs sh)(f := Some p)\<rparr>"
| "perform (p, Source w) sh = sh"

definition source_file :: "disk \<Rightarrow> path \<Rightarrow> 'm shell \<Rightarrow> 'm shell option" where
  "source_file D p sh =
     (case files D p of
        None \<Rightarrow> Some sh
      | Some f \<Rightarrow> map_option (\<lambda>es. fold perform es sh) (flatten D (cwd sh) (map (Pair p) (stmts f))))"

section \<open>Logging\<close>

text \<open>\<open>declare -A st_logs\<close>, and the order of the levels. A level that is no key has the empty string, below all.\<close>

fun rank :: "level \<Rightarrow> nat" where
  "rank DBG = 1"
| "rank INFO = 2"
| "rank WARN = 3"
| "rank ERR = 4"

instantiation level :: linorder
begin

definition less_eq_level :: "level \<Rightarrow> level \<Rightarrow> bool" where "l \<le> m \<longleftrightarrow> rank l \<le> rank m"

definition less_level :: "level \<Rightarrow> level \<Rightarrow> bool" where "l < m \<longleftrightarrow> rank l < rank m"

instance
proof
  fix l m :: level
  show "l \<le> m \<Longrightarrow> m \<le> l \<Longrightarrow> l = m"
    by (cases l; cases m) (simp_all add: less_eq_level_def)
qed (auto simp: less_eq_level_def less_level_def)

end

definition st_logs :: "string \<Rightarrow> level option" where
  "st_logs = map_of [(''DBG'', DBG), (''INFO'', INFO), (''WARN'', WARN), (''ERR'', ERR)]"

definition st_log_check :: "level \<Rightarrow> 'm shell \<Rightarrow> bool" where
  "st_log_check l sh = (case st_logs (vars sh ''LogLevel'') of None \<Rightarrow> True | Some m \<Rightarrow> \<not> l < m)"

definition st_log :: "level \<Rightarrow> 'm remark \<Rightarrow> 'm shell \<Rightarrow> 'm shell" where
  "st_log l m sh =
     (if vars sh ''LogLevel'' = '''' then sh\<lparr>events := events sh @ [Echoed m]\<rparr>
      else if st_log_check l sh then sh\<lparr>events := events sh @ [Logged l m]\<rparr>
      else sh)"

section \<open>Finding the cases\<close>

definition st_env_pushd :: "disk \<Rightarrow> string \<Rightarrow> 'm shell \<Rightarrow> 'm shell" where
  "st_env_pushd D name sh =
     (let d = (if is_dir D (resolve (cwd sh) name) then resolve (cwd sh) name else dirname (cwd sh) name)
      in if is_dir D d then sh\<lparr>cwd := d, dirstack := cwd sh # dirstack sh\<rparr> else sh)"

text \<open>With the status of \<open>popd\<close>.\<close>

definition st_env_popd :: "'m shell \<Rightarrow> nat \<times> 'm shell" where
  "st_env_popd sh =
     (case dirstack sh of [] \<Rightarrow> (1, sh) | d # ds \<Rightarrow> (0, sh\<lparr>cwd := d, dirstack := ds\<rparr>))"

definition st_topo_validate :: "disk \<Rightarrow> 'm shell \<Rightarrow> (bool \<times> 'm shell) option" where
  "st_topo_validate D sh =
     (let name = vars sh ''Topo''; topo = below (root_dir D @ [''topos'']) (name @ ''.sh'')
      in if name = '''' then Some (True, sh)
         else if files D topo = None then Some (False, st_log ERR (Says (name @ '' doesn't exist !'')) sh)
         else map_option (\<lambda>sh. (True, st_log DBG (Says (vars sh ''Topo'' @ '' load done '' @ path_name topo @ '' !'')) sh)) (source_file D topo sh))"

text \<open>The case is a word of the plan, or the empty string for the script \<open>test.sh\<close> of the directory.\<close>

definition case_file :: "disk \<Rightarrow> string \<Rightarrow> path \<Rightarrow> path" where
  "case_file D c dir = (if c = '''' then dir @ [''test.sh''] else resolve (root_dir D) c)"

definition st_case_validate :: "disk \<Rightarrow> string \<Rightarrow> 'm shell \<Rightarrow> (bool \<times> 'm shell) option" where
  "st_case_validate D c sh =
     (let p = case_file D c (cwd sh)
      in if files D p = None then Some (False, st_log ERR (Says (path_name p @ '' doesn't exist !'')) sh)
         else Option.bind (source_file D p (sh\<lparr>vars := (vars sh)(''Name'' := '''')\<rparr>)) (\<lambda>sh.
           Option.bind (st_topo_validate D
               (if vars sh ''Name'' = '''' then st_log WARN (Says (path_name p @ '' has no name !'')) sh else sh)) (\<lambda>(ok, sh).
             Some (if ok then (True, st_log DBG (Says (vars sh ''Name'' @ '' load done '' @ path_name p @ '' !'')) sh) else (False, sh)))))"

text \<open>The words of the plan: of a directory its \<open>test.sh\<close> when that can be executed, or its scripts but the libraries.\<close>

definition st_parse_testcase :: "disk \<Rightarrow> 'm shell \<Rightarrow> string list" where
  "st_parse_testcase D sh =
     (let path = vars sh ''TestCase''; p = resolve (cwd sh) path
      in if path \<noteq> '''' \<and> is_dir D p then
           (if is_exec D (p @ [''test.sh'']) then [path @ ''/test.sh'']
            else map (\<lambda>t. path @ ''/'' @ t)
              (filter (\<lambda>t. take 3 t \<noteq> ''lib'') (if sh_files D p = [] then [''*.sh''] else sh_files D p)))
         else if 4 \<le> length path \<and> drop (length path - 4) path = ''list'' then
           (case files D p of None \<Rightarrow> [] | Some f \<Rightarrow> listed f)
         else if path = '''' then [] else [path])"

section \<open>Running a case\<close>

text \<open>A function that is not defined is nothing to do: \<open>st_func_chkdo\<close> looks, and elsewhere it is an error message.\<close>

definition st_func_chkdo :: "'m bodies \<Rightarrow> string \<Rightarrow> 'm shell \<Rightarrow> 'm shell option" where
  "st_func_chkdo B f sh =
     (case funs sh f of
        None \<Rightarrow> Some sh
      | Some p \<Rightarrow>
          map_option (\<lambda>ls. fold (\<lambda>(l, m). st_log l (Of_test m)) ls (sh\<lparr>events := events sh @ [Ran f p]\<rparr>)) (B p f))"

definition st_do_setup :: "'m bodies \<Rightarrow> 'm shell \<Rightarrow> 'm shell option" where
  "st_do_setup B sh =
     Option.bind (st_func_chkdo B ''st_topo_setup'' sh) (\<lambda>sh.
     Option.bind (st_func_chkdo B ''do_setup'' sh) (\<lambda>sh.
     Some (st_log DBG (Says (vars sh ''Name'' @ '' setup done'')) sh)))"

text \<open>The test before it, \<open>[ -n do_test ]\<close>, is of a word and always true.\<close>

definition st_do_test :: "'m bodies \<Rightarrow> 'm shell \<Rightarrow> 'm shell option" where
  "st_do_test B sh =
     Option.bind (st_func_chkdo B ''do_test'' sh) (\<lambda>sh.
     Some (st_log DBG (Says (vars sh ''Name'' @ '' test done'')) sh))"

definition st_do_clean :: "'m bodies \<Rightarrow> 'm shell \<Rightarrow> 'm shell option" where
  "st_do_clean B sh =
     Option.bind (st_func_chkdo B ''do_clean'' sh) (\<lambda>sh.
     Option.bind (st_func_chkdo B ''st_topo_clean'' sh) (\<lambda>sh.
     let sh = sh\<lparr>vars := (vars sh)(''Topo'' := '''', ''Topo_opt'' := ''''),
       funs := (funs sh)(''do_test'' := None, ''do_setup'' := None, ''do_clean'' := None)\<rparr>
     in Some (st_log DBG (Says (vars sh ''Name'' @ '' clean done'')) sh)))"

definition st_case_run :: "'m bodies \<Rightarrow> 'm shell \<Rightarrow> 'm shell option" where
  "st_case_run B sh =
     Option.bind (st_do_setup B sh) (\<lambda>sh. Option.bind (st_do_test B sh) (\<lambda>sh. st_do_clean B sh))"

text \<open>The loop over the words, with the status: of the last command, the \<open>popd\<close> of the last case, or 1.\<close>

fun each_case :: "disk \<Rightarrow> 'm bodies \<Rightarrow> string list \<Rightarrow> nat \<times> 'm shell \<Rightarrow> (nat \<times> 'm shell) option" where
  "each_case D B [] (status, sh) = Some (status, sh)"
| "each_case D B (c # cs) (status, sh) =
     Option.bind (st_case_validate D c (st_env_pushd D c sh)) (\<lambda>(ok, sh).
       if \<not> ok then Some (1, sh)
       else
         Option.bind (st_case_run B (st_log INFO (Says (''=== '' @ vars sh ''Name'' @ '' === start'')) sh)) (\<lambda>sh.
         each_case D B cs (st_env_popd (st_log INFO (Says (''--- '' @ vars sh ''Name'' @ '' --- done'')) sh))))"

definition st_case_schedule :: "disk \<Rightarrow> 'm bodies \<Rightarrow> 'm shell \<Rightarrow> (nat \<times> 'm shell) option" where
  "st_case_schedule D B sh =
     (let cs = st_parse_testcase D sh
      in each_case D B cs (0, st_log DBG (Says (''get case list done '' @ concat (map (\<lambda>c. c @ '' '') cs) @ ''!'')) sh))"

section \<open>The command line\<close>

text \<open>The options as \<open>getopt\<close> gives them; the argument of \<open>-T\<close> is code.\<close>

datatype opt = Opt_o string | Opt_O string | Opt_L string | Opt_e string | Opt_l string | Opt_T "stmt list" | Opt_f string

definition st_cfg_load :: "disk \<Rightarrow> string \<Rightarrow> 'm shell \<Rightarrow> 'm shell option" where
  "st_cfg_load D cfg sh =
     (let p = resolve (root_dir D) cfg
      in if files D p = None then Some (st_log ERR (Says (path_name p @ '' doesn't exist !'')) sh)
         else source_file D p sh)"

fun load_option :: "disk \<Rightarrow> opt \<Rightarrow> 'm shell \<Rightarrow> 'm shell option" where
  "load_option D (Opt_o v) sh = Some (sh\<lparr>vars := (vars sh)(''O'' := v)\<rparr>)"
| "load_option D (Opt_O v) sh = Some (sh\<lparr>vars := (vars sh)(''Output'' := v)\<rparr>)"
| "load_option D (Opt_L v) sh = Some (sh\<lparr>vars := (vars sh)(''LogFile'' := v)\<rparr>)"
| "load_option D (Opt_e v) sh = Some (sh\<lparr>vars := (vars sh)(''TestCase'' := v)\<rparr>)"
| "load_option D (Opt_l v) sh = Some (sh\<lparr>vars := (vars sh)(''LogLevel'' := v)\<rparr>)"
| "load_option D (Opt_T cs) sh = map_option (\<lambda>es. fold perform es sh) (flatten D (cwd sh) (map (Pair []) cs))"
| "load_option D (Opt_f v) sh = st_cfg_load D v sh"

fun load_options :: "disk \<Rightarrow> opt list \<Rightarrow> 'm shell \<Rightarrow> 'm shell option" where
  "load_options D [] sh = Some sh"
| "load_options D (x # xs) sh = Option.bind (load_option D x sh) (load_options D xs)"

definition st_init_param :: "disk \<Rightarrow> opt list \<Rightarrow> 'm shell \<Rightarrow> 'm shell option" where
  "st_init_param D opts sh =
     Option.bind (st_cfg_load D ''st.cfg'' sh) (\<lambda>sh.
     Option.bind (load_options D opts sh) (\<lambda>sh.
     Some (st_log DBG (Says (''init param done '' @ vars sh ''TestCase'' @ '' '' @ vars sh ''LogLevel'' @ '' !'')) sh)))"

definition st_load_libst :: "disk \<Rightarrow> string \<Rightarrow> 'm shell \<Rightarrow> (bool \<times> 'm shell) option" where
  "st_load_libst D name sh =
     (let p = below (root_dir D @ [''libst'']) (name @ ''.sh'')
      in if name = '''' then Some (True, sh)
         else if files D p = None then Some (False, st_log ERR (Says (path_name p @ '' doesn't exist !'')) sh)
         else map_option (Pair True) (source_file D p sh))"

text \<open>\<open>pack\<close> is the status of \<open>st_package_setup\<close>: whether libtool is there.\<close>

definition st_check_pack :: "disk \<Rightarrow> bool \<Rightarrow> 'm shell \<Rightarrow> (bool \<times> 'm shell) option" where
  "st_check_pack D pack sh =
     Option.bind (st_load_libst D ''system'' sh) (\<lambda>(ok, sh).
       Some (if ok \<and> pack then (True, st_log DBG (Says ''check and install package done !'') sh) else (False, sh)))"

text \<open>Removing the old log files has no effect here.\<close>

definition st_do_init :: "disk \<Rightarrow> bool \<Rightarrow> opt list \<Rightarrow> 'm shell \<Rightarrow> (bool \<times> 'm shell) option" where
  "st_do_init D pack opts sh = Option.bind (st_init_param D opts sh) (st_check_pack D pack)"

text \<open>\<open>root\<close>: whether the user is. The commands that only start or explain an interactive shell do nothing here.\<close>

definition sctp_tests ::
    "disk \<Rightarrow> 'm bodies \<Rightarrow> bool \<Rightarrow> bool \<Rightarrow> opt list \<Rightarrow> string \<Rightarrow> 'm shell \<Rightarrow> (nat \<times> 'm shell) option" where
  "sctp_tests D B root pack opts cmd sh =
     (let validated = (\<lambda>act. Option.bind (st_case_validate D '''' sh) (\<lambda>(ok, sh).
        if ok then map_option (Pair 0) (act B sh) else Some (1, sh)))
      in if \<not> root then Some (1, st_log ERR (Says ''no permission, pls change to root !'') sh)
         else if cmd = ''init'' then map_option (\<lambda>(ok, sh). (if ok then 0 else 1, sh)) (st_do_init D pack opts sh)
         else if cmd = ''setup'' then validated st_do_setup
         else if cmd = ''test'' then validated st_do_test
         else if cmd = ''clean'' then validated st_do_clean
         else if cmd = ''run'' then
           Option.bind (st_do_init D pack opts sh) (\<lambda>(ok, sh). if ok then st_case_schedule D B sh else Some (1, sh))
         else Some (0, sh))"

end
