(* ===== verification/Driver_Props.thy ===== *)
theory Driver_Props
  imports Driver
begin

text \<open>
  What a run of the driver over a plan does: each case as if it were loaded into a fresh shell, as long as no case
  without functions of a topology comes after one with them; the functions of a topology are never
  removed, so that the plan of the repository sets topologies up for cases that ask for none.
\<close>

section \<open>Sourcing\<close>

lemma flatten_Nil [simp]: "flatten D dir [] = Some []"
  by (subst flatten.simps) simp

lemma flatten_Assign [simp]:
  "flatten D dir ((p, Assign x v) # rest) = map_option (Cons (p, Assign x v)) (flatten D dir rest)"
  by (subst flatten.simps) (simp add: map_conv_bind_option comp_def)

lemma flatten_Function [simp]:
  "flatten D dir ((p, Function f) # rest) = map_option (Cons (p, Function f)) (flatten D dir rest)"
  by (subst flatten.simps) (simp add: map_conv_bind_option comp_def)

lemma flatten_Source [simp]:
  "flatten D dir ((p, Source w) # rest) =
     (case files D (resolve dir w) of
        None \<Rightarrow> flatten D dir rest
      | Some f \<Rightarrow> flatten D dir (map (Pair (resolve dir w)) (stmts f) @ rest))"
  by (subst flatten.simps) simp

lemmas flatten_code [code] = flatten_Nil flatten_Assign flatten_Function flatten_Source

section \<open>The functions that run\<close>

definition ran_of :: "'m event list \<Rightarrow> (string \<times> path) list" where
  "ran_of es = concat (map (\<lambda>e. case e of Ran f p \<Rightarrow> [(f, p)] | _ \<Rightarrow> []) es)"

lemma ran_simps [simp]: "ran_of [] = []" "ran_of (es @ es') = ran_of es @ ran_of es'" "ran_of (Ran f p # es) = (f, p) # ran_of es"
  "ran_of (Logged l m # es) = ran_of es" "ran_of (Echoed m # es) = ran_of es"
  by (simp_all add: ran_of_def)

lemma st_log_simps [simp]: "vars (st_log l m sh) = vars sh" "funs (st_log l m sh) = funs sh" "cwd (st_log l m sh) = cwd sh"
  "dirstack (st_log l m sh) = dirstack sh" "ran_of (events (st_log l m sh)) = ran_of (events sh)"
  by (simp_all add: st_log_def)

lemma fold_st_log_simps [simp]:
  "vars (fold (\<lambda>(l, m). st_log l (Of_test m)) ls sh) = vars sh"
  "funs (fold (\<lambda>(l, m). st_log l (Of_test m)) ls sh) = funs sh"
  "cwd (fold (\<lambda>(l, m). st_log l (Of_test m)) ls sh) = cwd sh"
  "dirstack (fold (\<lambda>(l, m). st_log l (Of_test m)) ls sh) = dirstack sh"
  "ran_of (events (fold (\<lambda>(l, m). st_log l (Of_test m)) ls sh)) = ran_of (events sh)"
  by (induction ls arbitrary: sh) (simp_all add: case_prod_unfold)

definition of_fun :: "(string \<Rightarrow> path option) \<Rightarrow> string \<Rightarrow> (string \<times> path) list" where
  "of_fun F f = (case F f of None \<Rightarrow> [] | Some p \<Rightarrow> [(f, p)])"

text \<open>From one shell to another by running functions: nothing changes but the log.\<close>

definition called :: "'m shell \<Rightarrow> (string \<times> path) list \<Rightarrow> 'm shell \<Rightarrow> bool" where
  "called sh rs sh' \<longleftrightarrow> vars sh' = vars sh \<and> funs sh' = funs sh \<and> cwd sh' = cwd sh \<and> dirstack sh' = dirstack sh \<and>
     ran_of (events sh') = ran_of (events sh) @ rs"

lemma called_refl: "called sh [] sh"
  by (simp add: called_def)

lemma called_trans: "called sh rs sh1 \<Longrightarrow> called sh1 rs' sh2 \<Longrightarrow> called sh (rs @ rs') sh2"
  by (simp add: called_def)

lemma called_st_log: "called sh rs sh1 \<Longrightarrow> called sh rs (st_log l m sh1)"
  by (simp add: called_def)

lemma calls_function:
  assumes "\<And>p f. B p f \<noteq> None" and "called sh rs sh1"
  obtains sh2 where "st_func_chkdo B f sh1 = Some sh2" and "called sh (rs @ of_fun (funs sh) f) sh2"
proof (cases "funs sh1 f")
  case None
  then have "st_func_chkdo B f sh1 = Some sh1" "of_fun (funs sh) f = []"
    using assms(2) by (simp_all add: st_func_chkdo_def of_fun_def called_def)
  with assms(2) that show ?thesis by simp
next
  case (Some p)
  obtain ls where "B p f = Some ls" using assms(1) by blast
  with Some assms(2) that show ?thesis
    by (auto simp: st_func_chkdo_def of_fun_def called_def)
qed

text \<open>A shell in which a case has been loaded, and what is left of it when it has been run.\<close>

definition cleaned :: "'m shell \<Rightarrow> 'm shell \<Rightarrow> bool" where
  "cleaned sh sh' \<longleftrightarrow> cwd sh' = cwd sh \<and> dirstack sh' = dirstack sh \<and> vars sh' ''Topo'' = '''' \<and>
     funs sh' = (funs sh)(''do_test'' := None, ''do_setup'' := None, ''do_clean'' := None)"

definition in_order :: "string list" where
  "in_order = [''st_topo_setup'', ''do_setup'', ''do_test'', ''do_clean'', ''st_topo_clean'']"

lemma st_case_run_runs:
  assumes "\<And>p f. B p f \<noteq> None"
  obtains sh' where "st_case_run B sh = Some sh'" and "cleaned sh sh'"
    and "ran_of (events sh') = ran_of (events sh) @ concat (map (of_fun (funs sh)) in_order)"
proof -
  note call = calls_function [of B, OF assms]
  obtain s1 where 1: "st_func_chkdo B ''st_topo_setup'' sh = Some s1" "called sh ([] @ of_fun (funs sh) ''st_topo_setup'') s1"
    by (rule call [OF called_refl])
  obtain s2 where 2: "st_func_chkdo B ''do_setup'' s1 = Some s2"
    "called sh (([] @ of_fun (funs sh) ''st_topo_setup'') @ of_fun (funs sh) ''do_setup'') s2"
    by (rule call [OF 1(2)])
  obtain s3 where 3: "st_func_chkdo B ''do_test'' (st_log DBG (Says (vars s2 ''Name'' @ '' setup done'')) s2) = Some s3"
    "called sh ((([] @ of_fun (funs sh) ''st_topo_setup'') @ of_fun (funs sh) ''do_setup'') @ of_fun (funs sh) ''do_test'') s3"
    by (rule call [OF called_st_log [OF 2(2)]])
  obtain s4 where 4: "st_func_chkdo B ''do_clean'' (st_log DBG (Says (vars s3 ''Name'' @ '' test done'')) s3) = Some s4"
    "called sh (((([] @ of_fun (funs sh) ''st_topo_setup'') @ of_fun (funs sh) ''do_setup'') @ of_fun (funs sh) ''do_test'') @
      of_fun (funs sh) ''do_clean'') s4"
    by (rule call [OF called_st_log [OF 3(2)]])
  obtain s5 where 5: "st_func_chkdo B ''st_topo_clean'' s4 = Some s5"
    "called sh ((((([] @ of_fun (funs sh) ''st_topo_setup'') @ of_fun (funs sh) ''do_setup'') @ of_fun (funs sh) ''do_test'') @
      of_fun (funs sh) ''do_clean'') @ of_fun (funs sh) ''st_topo_clean'') s5"
    by (rule call [OF 4(2)])
  define s6 where "s6 = st_log DBG (Says (vars s5 ''Name'' @ '' clean done''))
    (s5\<lparr>vars := (vars s5)(''Topo'' := [], ''Topo_opt'' := []),
      funs := (funs s5)(''do_test'' := None, ''do_setup'' := None, ''do_clean'' := None)\<rparr>)"
  show ?thesis
  proof (rule that)
    show "st_case_run B sh = Some s6"
      using 1(1) 2(1) 3(1) 4(1) 5(1)
      by (simp add: st_case_run_def st_do_setup_def st_do_test_def st_do_clean_def Let_def s6_def)
    show "cleaned sh s6" "ran_of (events s6) = ran_of (events sh) @ concat (map (of_fun (funs sh)) in_order)"
      using 5(2) by (simp_all add: called_def cleaned_def s6_def in_order_def)
  qed
qed

section \<open>Loading does not depend on what ran before\<close>

definition fresh :: "path \<Rightarrow> unit shell" where
  "fresh dir = \<lparr>vars = \<lambda>_. '''', funs = \<lambda>_. None, cwd = dir, dirstack = [], events = []\<rparr>"

text \<open>
  The shell \<open>s\<close> of a run that was \<open>sh\<close> before a case was loaded, and a fresh one that has loaded the same files:
  what was defined before is still there when it was not defined anew.
\<close>

definition follows :: "'m shell \<Rightarrow> 'm shell \<Rightarrow> unit shell \<Rightarrow> bool" where
  "follows sh s t \<longleftrightarrow> vars s ''Topo'' = vars t ''Topo'' \<and> cwd s = cwd t \<and> dirstack s = dirstack t \<and>
     funs s = funs sh ++ funs t \<and> ran_of (events s) = ran_of (events sh)"

lemma follows_st_log [simp]: "follows sh (st_log l m s) t = follows sh s t" "follows sh s (st_log l m' t) = follows sh s t"
  by (simp_all add: follows_def)

lemma follows_perform: "follows sh s t \<Longrightarrow> follows sh (perform e s) (perform e t)"
  by (cases e; cases "snd e") (auto simp: follows_def)

lemma follows_fold: "follows sh s t \<Longrightarrow> follows sh (fold perform es s) (fold perform es t)"
  by (induction es arbitrary: s t) (simp_all add: follows_perform)

lemma follows_name: "follows sh s t \<Longrightarrow>
    follows sh (s\<lparr>vars := (vars s)(''Name'' := n)\<rparr>) (t\<lparr>vars := (vars t)(''Name'' := n)\<rparr>)"
  by (simp add: follows_def)

lemma source_file_follows:
  assumes "follows sh s t" and "source_file D p t = Some t'"
  obtains s' where "source_file D p s = Some s'" and "follows sh s' t'"
  using assms follows_fold [OF assms(1)]
  by (auto simp: source_file_def follows_def split: option.splits)

lemma st_env_pushd_follows: "follows sh s t \<Longrightarrow> follows sh (st_env_pushd D c s) (st_env_pushd D c t)"
  by (simp add: follows_def st_env_pushd_def Let_def)

lemma st_topo_validate_follows:
  assumes "follows sh s t" and "st_topo_validate D t = Some (ok, t')"
  obtains s' where "st_topo_validate D s = Some (ok, s')" and "follows sh s' t'"
proof -
  have topo: "vars s ''Topo'' = vars t ''Topo''" using assms(1) by (simp add: follows_def)
  let ?f = "below (root_dir D @ [''topos'']) (vars t ''Topo'' @ ''.sh'')"
  show ?thesis
  proof (cases "vars t ''Topo'' = '''' \<or> files D ?f = None")
    case True
    with assms that topo show ?thesis
      by (auto simp: st_topo_validate_def Let_def split: if_splits)
  next
    case False
    with assms(2) obtain t1 where t1: "source_file D ?f t = Some t1"
      and t': "ok" "t' = st_log DBG (Says (vars t1 ''Topo'' @ '' load done '' @ path_name ?f @ '' !'')) t1"
      by (auto simp: st_topo_validate_def Let_def)
    obtain s1 where "source_file D ?f s = Some s1" "follows sh s1 t1"
      by (rule source_file_follows [OF assms(1) t1])
    with False topo t' that show ?thesis
      by (simp add: st_topo_validate_def Let_def)
  qed
qed

lemma st_case_validate_follows:
  assumes "follows sh s t" and "st_case_validate D c t = Some (ok, t')"
  obtains s' where "st_case_validate D c s = Some (ok, s')" and "follows sh s' t'"
proof -
  have p: "case_file D c (cwd s) = case_file D c (cwd t)" (is "_ = ?p") using assms(1) by (simp add: follows_def)
  show ?thesis
  proof (cases "files D ?p = None")
    case True
    with assms that p show ?thesis by (auto simp: st_case_validate_def)
  next
    case False
    let ?n = "\<lambda>t. t\<lparr>vars := (vars t)(''Name'' := '''')\<rparr>"
    let ?w = "\<lambda>t. if vars t ''Name'' = '''' then st_log WARN (Says (path_name ?p @ '' has no name !'')) t else t"
    let ?l = "\<lambda>(ok, t). if ok then (True, st_log DBG (Says (vars t ''Name'' @ '' load done '' @ path_name ?p @ '' !'')) t) else (False, t)"
    from False assms(2) obtain t1 r where t1: "source_file D ?p (?n t) = Some t1"
      and r: "st_topo_validate D (?w t1) = Some r" "?l r = (ok, t')"
      by (auto simp: st_case_validate_def Let_def Option.bind_eq_Some_conv case_prod_unfold)
    then obtain t2 where t2: "st_topo_validate D (?w t1) = Some (ok, t2)" and t': "?l (ok, t2) = (ok, t')"
      by (cases r) (auto split: if_splits)
    obtain s1 where s1: "source_file D ?p (?n s) = Some s1" "follows sh s1 t1"
      by (rule source_file_follows [OF follows_name [OF assms(1)] t1])
    then have "follows sh (?w s1) (?w t1)" by simp
    then obtain s2 where "st_topo_validate D (?w s1) = Some (ok, s2)" "follows sh s2 t2"
      by (rule st_topo_validate_follows [OF _ t2])
    then have "follows sh (snd (?l (ok, s2))) t'"
      using t' by (cases ok) auto
    moreover from \<open>st_topo_validate D (?w s1) = Some (ok, s2)\<close> False p s1
    have "st_case_validate D c s = Some (?l (ok, s2))"
      by (auto simp: st_case_validate_def Let_def)
    then have "st_case_validate D c s = Some (ok, snd (?l (ok, s2)))" by (cases ok) simp_all
    ultimately show ?thesis by (rule that [rotated])
  qed
qed

section \<open>A plan\<close>

definition loaded :: "disk \<Rightarrow> path \<Rightarrow> string \<Rightarrow> (bool \<times> unit shell) option" where
  "loaded D dir c = st_case_validate D c (st_env_pushd D c (fresh dir))"

definition valid :: "disk \<Rightarrow> path \<Rightarrow> string \<Rightarrow> bool" where
  "valid D dir c \<longleftrightarrow> map_option fst (loaded D dir c) = Some True"

text \<open>The functions that a case defines when it is loaded, itself or its topology, each with its file.\<close>

definition own :: "disk \<Rightarrow> path \<Rightarrow> string \<Rightarrow> string \<Rightarrow> path option" where
  "own D dir c = (case loaded D dir c of None \<Rightarrow> (\<lambda>_. None) | Some (ok, t) \<Rightarrow> funs t)"

definition case_funs :: "string list" where
  "case_funs = [''do_test'', ''do_setup'', ''do_clean'']"

definition calls :: "(string \<Rightarrow> path option) \<Rightarrow> (string \<times> path) list" where
  "calls F = concat (map (of_fun F) in_order)"

text \<open>
  What runs, as a function of the files alone: of each case its functions in order, among them those that are left
  from the cases before, up to the first case that is not valid. The functions named \<open>do_\<dots>\<close> are never left.
\<close>

fun plan_calls :: "disk \<Rightarrow> path \<Rightarrow> (string \<Rightarrow> path option) \<Rightarrow> string list \<Rightarrow> (string \<times> path) list" where
  "plan_calls D dir left [] = []"
| "plan_calls D dir left (c # cs) =
     (if valid D dir c then
        calls (left ++ own D dir c) @
        plan_calls D dir (\<lambda>f. if f \<in> set case_funs then None else (left ++ own D dir c) f) cs
      else [])"

text \<open>A shell between two cases.\<close>

definition idle :: "path \<Rightarrow> 'm shell \<Rightarrow> bool" where
  "idle dir sh \<longleftrightarrow> vars sh ''Topo'' = [] \<and> cwd sh = dir \<and> dirstack sh = []"

lemma idle_follows: "idle dir sh \<Longrightarrow> follows sh sh (fresh dir)"
  by (auto simp: idle_def follows_def fresh_def map_add_def)

lemma fold_perform_dirs [simp]: "cwd (fold perform es sh) = cwd sh" "dirstack (fold perform es sh) = dirstack sh"
proof -
  have "cwd (perform e s) = cwd s \<and> dirstack (perform e s) = dirstack s" for e and s :: "'a shell"
    by (cases e; cases "snd e") auto
  then show "cwd (fold perform es sh) = cwd sh" "dirstack (fold perform es sh) = dirstack sh"
    by (induction es arbitrary: sh) simp_all
qed

lemma source_file_dirs: "source_file D p sh = Some sh' \<Longrightarrow> cwd sh' = cwd sh \<and> dirstack sh' = dirstack sh"
  by (auto simp: source_file_def split: option.splits)

lemma st_topo_validate_dirs:
  "st_topo_validate D sh = Some (ok, sh') \<Longrightarrow> cwd sh' = cwd sh \<and> dirstack sh' = dirstack sh"
  by (auto simp: st_topo_validate_def Let_def dest: source_file_dirs split: if_splits)

lemma st_case_validate_dirs:
  assumes "st_case_validate D c sh = Some (ok, sh')"
  shows "cwd sh' = cwd sh \<and> dirstack sh' = dirstack sh"
  using assms
  by (auto simp: st_case_validate_def Let_def Option.bind_eq_Some_conv
      dest!: source_file_dirs st_topo_validate_dirs split: if_splits)

definition placed :: "disk \<Rightarrow> path \<Rightarrow> string \<Rightarrow> bool" where
  "placed D dir c \<longleftrightarrow> dirstack (st_env_pushd D c (fresh dir)) \<noteq> []"

lemma loaded_dirs:
  assumes "loaded D dir c = Some (ok, t)"
  shows "if placed D dir c then dirstack t = [dir] else dirstack t = [] \<and> cwd t = dir"
  using st_case_validate_dirs [OF assms [unfolded loaded_def]]
  by (auto simp: placed_def st_env_pushd_def fresh_def Let_def split: if_splits)

lemma popd_idle:
  assumes "cleaned s s'" and "if b then dirstack s = [dir] else dirstack s = [] \<and> cwd s = dir"
  shows "idle dir (snd (st_env_popd s'))" and "fst (st_env_popd s') = (if b then 0 else 1)"
    and "events (snd (st_env_popd s')) = events s'" and "funs (snd (st_env_popd s')) = funs s'"
  using assms by (auto simp: cleaned_def idle_def st_env_popd_def split: if_splits)

lemma cleaned_funs: "cleaned s s' \<Longrightarrow> funs s' = (\<lambda>f. if f \<in> set case_funs then None else funs s f)"
  by (auto simp: cleaned_def case_funs_def)

text \<open>The status of the loop: 1 when a case is not valid or the directory of the last one is not there.\<close>

definition status_after :: "disk \<Rightarrow> path \<Rightarrow> nat \<Rightarrow> string list \<Rightarrow> nat" where
  "status_after D dir st cs =
     (if \<not> list_all (valid D dir) cs then 1 else if cs = [] then st else if placed D dir (last cs) then 0 else 1)"

lemma each_case_runs:
  assumes "\<And>p f. B p f \<noteq> None" and "idle dir sh" and "\<And>c. c \<in> set cs \<Longrightarrow> loaded D dir c \<noteq> None"
  shows "\<exists>sh'. each_case D B cs (st, sh) = Some (status_after D dir st cs, sh') \<and>
    ran_of (events sh') = ran_of (events sh) @ plan_calls D dir (funs sh) cs \<and>
    (list_all (valid D dir) cs \<longrightarrow> idle dir sh')"
  using assms(2,3)
proof (induction cs arbitrary: st sh)
  case Nil
  then show ?case by (simp add: status_after_def)
next
  case (Cons c cs)
  obtain ok t where t: "loaded D dir c = Some (ok, t)"
    using Cons.prems(2) [of c] by auto
  obtain s where s: "st_case_validate D c (st_env_pushd D c sh) = Some (ok, s)" and f: "follows sh s t"
    by (rule st_case_validate_follows [OF st_env_pushd_follows [OF idle_follows [OF Cons.prems(1)]]
          t [unfolded loaded_def]])
  then have own: "funs s = funs sh ++ own D dir c" and dirs: "cwd s = cwd t" "dirstack s = dirstack t"
    and ran: "ran_of (events s) = ran_of (events sh)"
    using t by (simp_all add: follows_def own_def)
  show ?case
  proof (cases ok)
    case False
    with s ran t show ?thesis by (simp add: valid_def status_after_def)
  next
    case True
    then have valid: "valid D dir c" using t by (simp add: valid_def)
    let ?s = "st_log INFO (Says (''=== '' @ vars s ''Name'' @ '' === start'')) s"
    obtain s1 where s1: "st_case_run B ?s = Some s1" "cleaned ?s s1"
      "ran_of (events s1) = ran_of (events ?s) @ concat (map (of_fun (funs ?s)) in_order)"
      by (rule st_case_run_runs [OF assms(1)])
    let ?s2 = "st_log INFO (Says (''--- '' @ vars s1 ''Name'' @ '' --- done'')) s1"
    have "cleaned s ?s2" using s1(2) by (simp add: cleaned_def)
    have home: "if placed D dir c then dirstack s = [dir] else dirstack s = [] \<and> cwd s = dir"
      using loaded_dirs [OF t] dirs by simp
    note popd = popd_idle [OF \<open>cleaned s ?s2\<close> home]
    have p: "ran_of (events (snd (st_env_popd ?s2))) = ran_of (events sh) @ calls (funs sh ++ own D dir c)"
      "funs (snd (st_env_popd ?s2)) = (\<lambda>f. if f \<in> set case_funs then None else (funs sh ++ own D dir c) f)"
      unfolding popd(3,4) cleaned_funs [OF \<open>cleaned s ?s2\<close>] own [symmetric]
      using s1(3) ran by (simp_all add: calls_def own)
    have "\<exists>sh'. each_case D B cs (fst (st_env_popd ?s2), snd (st_env_popd ?s2)) =
        Some (status_after D dir (fst (st_env_popd ?s2)) cs, sh') \<and>
      ran_of (events sh') = ran_of (events (snd (st_env_popd ?s2))) @
        plan_calls D dir (funs (snd (st_env_popd ?s2))) cs \<and>
      (list_all (valid D dir) cs \<longrightarrow> idle dir sh')"
      by (rule Cons.IH [OF popd(1)]) (use Cons.prems in auto)
    moreover have "each_case D B (c # cs) (st, sh) = each_case D B cs (fst (st_env_popd ?s2), snd (st_env_popd ?s2))"
      using True s s1(1) by simp
    moreover have "status_after D dir (fst (st_env_popd ?s2)) cs = status_after D dir st (c # cs)"
      using valid popd(2) by (simp add: status_after_def)
    ultimately show ?thesis
      using valid p by auto
  qed
qed

lemma st_case_schedule_runs:
  assumes "\<And>p f. B p f \<noteq> None" and "idle dir sh"
    and "\<And>c. c \<in> set (st_parse_testcase D sh) \<Longrightarrow> loaded D dir c \<noteq> None"
  shows "\<exists>sh'. st_case_schedule D B sh = Some (status_after D dir 0 (st_parse_testcase D sh), sh') \<and>
    ran_of (events sh') = ran_of (events sh) @ plan_calls D dir (funs sh) (st_parse_testcase D sh) \<and>
    (list_all (valid D dir) (st_parse_testcase D sh) \<longrightarrow> idle dir sh')"
proof -
  let ?sh = "st_log DBG (Says (''get case list done '' @ concat (map (\<lambda>c. c @ '' '') (st_parse_testcase D sh)) @ ''!'')) sh"
  have "idle dir ?sh" using assms(2) by (simp add: idle_def)
  then have "\<exists>sh'. each_case D B (st_parse_testcase D sh) (0, ?sh) =
      Some (status_after D dir 0 (st_parse_testcase D sh), sh') \<and>
    ran_of (events sh') = ran_of (events ?sh) @ plan_calls D dir (funs ?sh) (st_parse_testcase D sh) \<and>
    (list_all (valid D dir) (st_parse_testcase D sh) \<longrightarrow> idle dir sh')"
    by (intro each_case_runs [of B, OF assms(1)]) (simp_all add: assms(3))
  then show ?thesis by (simp add: st_case_schedule_def Let_def)
qed

section \<open>Cases on their own\<close>

text \<open>The functions of a topology, in order of their use, and whether all a case has left is overridden by the next.\<close>

definition topo_funs :: "disk \<Rightarrow> path \<Rightarrow> string \<Rightarrow> string list" where
  "topo_funs D dir c = filter (\<lambda>f. own D dir c f \<noteq> None) [''st_topo_setup'', ''st_topo_clean'']"

lemma set_topo_funs:
  "f \<in> set (topo_funs D dir c) \<longleftrightarrow> f \<in> {''st_topo_setup'', ''st_topo_clean''} \<and> own D dir c f \<noteq> None"
  unfolding topo_funs_def set_filter by auto

lemma plan_calls_alone:
  assumes "sorted_wrt (\<lambda>c c'. set (topo_funs D dir c) \<subseteq> set (topo_funs D dir c')) cs"
    and "\<And>c f. c \<in> set cs \<Longrightarrow> f \<in> set in_order \<Longrightarrow> own D dir c f = None \<Longrightarrow> left f = None"
  shows "plan_calls D dir left cs = concat (map (\<lambda>c. calls (own D dir c)) (takeWhile (valid D dir) cs))"
  using assms
proof (induction cs arbitrary: left)
  case Nil
  then show ?case by simp
next
  case (Cons c cs)
  let ?left = "\<lambda>f. if f \<in> set case_funs then None else (left ++ own D dir c) f"
  have same: "(left ++ own D dir c) f = own D dir c f" if "f \<in> set in_order" for f
    using Cons.prems(2) [of c f] that by (cases "own D dir c f") (simp_all add: map_add_def)
  then have "calls (left ++ own D dir c) = calls (own D dir c)"
    unfolding calls_def by (intro arg_cong [of _ _ concat] map_cong) (simp_all add: of_fun_def)
  moreover have "plan_calls D dir ?left cs = concat (map (\<lambda>c. calls (own D dir c)) (takeWhile (valid D dir) cs))"
  proof (rule Cons.IH)
    show "sorted_wrt (\<lambda>c c'. set (topo_funs D dir c) \<subseteq> set (topo_funs D dir c')) cs"
      using Cons.prems(1) by simp
    fix c' f assume c': "c' \<in> set cs" and f: "f \<in> set in_order" and none: "own D dir c' f = None"
    show "?left f = None"
    proof (cases "f \<in> set case_funs")
      case False
      with f have "f \<in> {''st_topo_setup'', ''st_topo_clean''}" by (auto simp: in_order_def case_funs_def)
      moreover have "set (topo_funs D dir c) \<subseteq> set (topo_funs D dir c')" using Cons.prems(1) c' by simp
      ultimately have "own D dir c f = None" using none set_topo_funs by blast
      with same [OF f] show ?thesis by simp
    qed simp
  qed
  ultimately show ?case by simp
qed

text \<open>
  C20: a run over a plan, in a shell that has run nothing, when the functions of the scripts come back and sourcing a script
  ends: what runs of each case is what would run of it in a shell of its own, in order, up to the first case whose
  script or topology does not exist; there the run ends with status 1. This is for plans in which no case
  without functions of a topology comes after one with them.
\<close>

theorem plan_runs_each_case_alone:
  assumes "\<And>p f. B p f \<noteq> None" and "idle dir sh" and "funs sh = (\<lambda>_. None)"
    and "\<And>c. c \<in> set (st_parse_testcase D sh) \<Longrightarrow> loaded D dir c \<noteq> None"
    and "sorted_wrt (\<lambda>c c'. set (topo_funs D dir c) \<subseteq> set (topo_funs D dir c')) (st_parse_testcase D sh)"
  shows "\<exists>sh'. st_case_schedule D B sh = Some (status_after D dir 0 (st_parse_testcase D sh), sh') \<and>
    ran_of (events sh') = ran_of (events sh) @
      concat (map (\<lambda>c. calls (own D dir c)) (takeWhile (valid D dir) (st_parse_testcase D sh)))"
  using st_case_schedule_runs [of B, OF assms(1,2,4)] plan_calls_alone [OF assms(5)] assms(3) by fastforce

end
