(* ===== verification/Upstream_Plan.thy ===== *)
theory Upstream_Plan
  imports Driver_Props
begin

text \<open>
  The plan \<open>testplan/upstream.list\<close>, which the driver runs when no other is asked for, and the files it loads, as far as
  the driver depends on them: \<open>Name\<close> and \<open>Topo\<close>, the files sourced, the functions defined. The suite stands in
  \<open>/sctp-tests\<close>. Then what a run of it does: which topology is set up for which test.
\<close>

section \<open>The files\<close>

definition netns_sh :: "stmt list" where
  "netns_sh =
    map Function [''st_netns_is_host'', ''st_netns_run_create'', ''st_netns_veth_assign'',
    ''st_netns_ns_create'', ''st_netns_veth_create'', ''st_netns_addr_assign'', ''st_netns_ns_destroy'',
    ''st_netns_team_create'', ''st_netns_team_destroy'', ''st_netns_ipsec_getopt'',
    ''st_netns_ipsec_create'', ''st_netns_ipsec_destroy'', ''st_netns_route_fwd'',
    ''st_netns_route_add'', ''st_netns_tnl_create'', ''st_netns_dev_destroy'', ''st_netns_vlans_create'',
    ''st_netns_vlans_destroy'', ''st_netns_bridges_create'', ''st_netns_bridges_destroy'',
    ''st_netns_bridge_add_veths'', ''st_netns_bridge_del_veths'']"

definition netns_cs_sh :: "stmt list" where
  "netns_cs_sh =
    [Source ''/sctp-tests/topos/netns.sh'', Function ''st_topo_setup'', Function ''st_topo_clean'']"

definition netns_crs_sh :: "stmt list" where
  "netns_crs_sh =
    [Source ''/sctp-tests/topos/netns.sh'', Function ''st_topo_setup'', Function ''st_topo_clean'']"

definition netns_ipsec_cs_sh :: "stmt list" where
  "netns_ipsec_cs_sh =
    [Source ''/sctp-tests/topos/netns.sh'', Function ''st_topo_setup'', Function ''st_topo_clean'']"

definition netns_sit_cs_sh :: "stmt list" where
  "netns_sit_cs_sh =
    [Source ''/sctp-tests/topos/netns.sh'', Function ''st_topo_setup'', Function ''st_topo_clean'']"

definition netns_team_cs_sh :: "stmt list" where
  "netns_team_cs_sh =
    [Source ''/sctp-tests/topos/netns.sh'', Function ''st_topo_setup'', Function ''st_topo_clean'']"

definition librpt_sh :: "stmt list" where
  "librpt_sh =
    map Function [''rpt_env_netperf'', ''rpt_env_datamash'', ''rpt_env_init'', ''rpt_snmp_log'',
    ''rpt_dmsg_log'', ''rpt_summ_log'', ''rpt_snmp_var'', ''rpt_snmp_diff'', ''rpt_rs_log'',
    ''rpt_perf_run'', ''rpt_tc_netem'', ''rpt_test'']"

definition lksctptools_sh :: "stmt list" where
  "lksctptools_sh =
    [Assign ''Name'' ''lksctptools'', Function ''do_setup'', Function ''do_clean'', Function ''do_test'']"

definition sctp_rr_sh :: "stmt list" where
  "sctp_rr_sh =
    [Assign ''Name'' ''sctp repeatability - sctp-rr'', Assign ''Topo'' ''netns_cs'',
    Source ''./librpt.sh'', Function ''do_setup'', Function ''do_clean'', Function ''do_test'']"

definition sctp_stream_sh :: "stmt list" where
  "sctp_stream_sh =
    [Assign ''Name'' ''sctp repeatability - sctp-stream'', Assign ''Topo'' ''netns_cs'',
    Source ''./librpt.sh'', Function ''do_setup'', Function ''do_clean'', Function ''do_test'']"

definition sctp_rr_on_ipsec_sh :: "stmt list" where
  "sctp_rr_on_ipsec_sh =
    [Source ''./sctp_rr.sh'', Assign ''Name'' ''sctp repeatability - sctp-rr on ipsec'',
    Assign ''Topo'' ''netns_ipsec_cs'']"

definition sctp_stream_on_ipsec_sh :: "stmt list" where
  "sctp_stream_on_ipsec_sh =
    [Source ''./sctp_stream.sh'', Assign ''Name'' ''sctp repeatability - sctp-steam on ipsec'',
    Assign ''Topo'' ''netns_ipsec_cs'']"

definition sctp_stream_on_sit_sh :: "stmt list" where
  "sctp_stream_on_sit_sh =
    [Source ''./sctp_stream.sh'', Assign ''Name'' ''sctp repeatability - sctp-steam on sit'',
    Assign ''Topo'' ''netns_sit_cs'']"

definition procdumps_sh :: "stmt list" where
  "procdumps_sh =
    [Assign ''Name'' ''procdumps''] @ map Function [''pd_send'', ''pd_dump'', ''do_setup'', ''do_clean'',
    ''do_test'']"

definition sctpdiag_sh :: "stmt list" where
  "sctpdiag_sh =
    [Assign ''Name'' ''sctpdiag''] @ map Function [''sctpdiag_send'', ''sctpdiag_ss'', ''do_setup'',
    ''do_clean'', ''do_test'']"

definition gsomtuchange_sh :: "stmt list" where
  "gsomtuchange_sh =
    [Assign ''Name'' ''gsomtuchange'', Assign ''Topo'' ''netns_crs'', Function ''do_setup'',
    Function ''do_clean'', Function ''do_test'']"

definition peeloffbusy_sh :: "stmt list" where
  "peeloffbusy_sh =
    [Assign ''Name'' ''peeloffbusy'', Function ''do_setup'', Function ''do_clean'', Function ''do_test'']"

definition extoverflow_sh :: "stmt list" where
  "extoverflow_sh =
    [Assign ''Name'' ''extoverflow'', Function ''do_setup'', Function ''do_clean'', Function ''do_test'']"

definition sctphashtable_on_netns_sh :: "stmt list" where
  "sctphashtable_on_netns_sh =
    [Assign ''Name'' ''sctphashtable'', Assign ''Topo'' ''netns_cs''] @ map Function [''sht_ip4_setup'',
    ''sht_ip6_setup'', ''sht_sysctl_setup'', ''do_clean'', ''do_setup'', ''do_test'']"

definition sctphashtable_on_team_sh :: "stmt list" where
  "sctphashtable_on_team_sh =
    [Source ''./test~on_netns.sh'', Assign ''Name'' ''sctphashtable -- on team'',
    Assign ''Topo'' ''netns_team_cs'']"

definition ndatasched_sh :: "stmt list" where
  "ndatasched_sh =
    [Assign ''Name'' ''ndatasched'', Assign ''Topo'' ''netns_cs'', Function ''do_setup'',
    Function ''do_clean'', Function ''do_test'']"

definition strreset_sh :: "stmt list" where
  "strreset_sh =
    [Assign ''Name'' ''ndatasched'', Assign ''Topo'' ''netns_cs'', Function ''do_setup'',
    Function ''do_clean'', Function ''do_test'']"

definition prsctp_sh :: "stmt list" where
  "prsctp_sh =
    [Assign ''Name'' ''ndatasched'', Assign ''Topo'' ''netns_cs'', Function ''do_setup'',
    Function ''do_clean'', Function ''do_test'']"

definition system_sh :: "stmt list" where
  "system_sh = map Function [''st_lksctp_setup'', ''st_libtool_setup'', ''st_package_setup'']"

definition st_cfg :: "stmt list" where
  "st_cfg =
    [Assign ''LogFile'' ''/sctp-tests/sctp-tests.log'', Assign ''Output'' ''/tmp/output.log'',
     Assign ''LogLevel'' ''DBG'', Assign ''TestCase'' ''testplan/upstream.list'', Assign ''O'' ''st'']"

definition upstream_list :: "string list" where
  "upstream_list =
    [''testcase/testsuit/lksctptools/test.sh'',
     ''testcase/performance/repeatability/sctp_rr.sh'',
     ''testcase/performance/repeatability/sctp_stream.sh'',
     ''testcase/performance/repeatability/sctp_rr~on_ipsec.sh'',
     ''testcase/performance/repeatability/sctp_stream~on_ipsec.sh'',
     ''testcase/performance/repeatability/sctp_stream~on_sit.sh'',
     ''testcase/stress/procdumps/test.sh'',
     ''testcase/stress/sctpdiag/test.sh'',
     ''testcase/regression/gsomtuchange/test.sh'',
     ''testcase/regression/peeloffbusy/test.sh'',
     ''testcase/regression/extoverflow/test.sh'',
     ''testcase/performance/sctphashtable/test~on_netns.sh'',
     ''testcase/performance/sctphashtable/test~on_team.sh'',
     ''testcase/conformance/ndatasched/test.sh'',
     ''testcase/conformance/strreset/test.sh'',
     ''testcase/conformance/prsctp/test.sh'']"

definition suite_files :: "(path \<times> script) list" where
  "suite_files =
    ([''sctp-tests'', ''testplan'', ''upstream.list''], \<lparr>stmts = [], listed = upstream_list\<rparr>) #
    map (\<lambda>(w, cs). (below [''sctp-tests''] w, \<lparr>stmts = cs, listed = []\<rparr>))
    [(''st.cfg'', st_cfg),
     (''libst/system.sh'', system_sh),
     (''topos/netns.sh'', netns_sh),
     (''topos/netns_cs.sh'', netns_cs_sh),
     (''topos/netns_crs.sh'', netns_crs_sh),
     (''topos/netns_ipsec_cs.sh'', netns_ipsec_cs_sh),
     (''topos/netns_sit_cs.sh'', netns_sit_cs_sh),
     (''topos/netns_team_cs.sh'', netns_team_cs_sh),
     (''testcase/performance/repeatability/librpt.sh'', librpt_sh),
     (''testcase/testsuit/lksctptools/test.sh'', lksctptools_sh),
     (''testcase/performance/repeatability/sctp_rr.sh'', sctp_rr_sh),
     (''testcase/performance/repeatability/sctp_stream.sh'', sctp_stream_sh),
     (''testcase/performance/repeatability/sctp_rr~on_ipsec.sh'', sctp_rr_on_ipsec_sh),
     (''testcase/performance/repeatability/sctp_stream~on_ipsec.sh'', sctp_stream_on_ipsec_sh),
     (''testcase/performance/repeatability/sctp_stream~on_sit.sh'', sctp_stream_on_sit_sh),
     (''testcase/stress/procdumps/test.sh'', procdumps_sh),
     (''testcase/stress/sctpdiag/test.sh'', sctpdiag_sh),
     (''testcase/regression/gsomtuchange/test.sh'', gsomtuchange_sh),
     (''testcase/regression/peeloffbusy/test.sh'', peeloffbusy_sh),
     (''testcase/regression/extoverflow/test.sh'', extoverflow_sh),
     (''testcase/performance/sctphashtable/test~on_netns.sh'', sctphashtable_on_netns_sh),
     (''testcase/performance/sctphashtable/test~on_team.sh'', sctphashtable_on_team_sh),
     (''testcase/conformance/ndatasched/test.sh'', ndatasched_sh),
     (''testcase/conformance/strreset/test.sh'', strreset_sh),
     (''testcase/conformance/prsctp/test.sh'', prsctp_sh)]"

text \<open>With the paths taken apart, for evaluation.\<close>

lemma suite_files_code [code]:
  "suite_files =
    [([''sctp-tests'', ''testplan'', ''upstream.list''], \<lparr>stmts = [], listed = upstream_list\<rparr>),
     ([''sctp-tests'', ''st.cfg''], \<lparr>stmts = st_cfg, listed = []\<rparr>),
     ([''sctp-tests'', ''libst'', ''system.sh''], \<lparr>stmts = system_sh, listed = []\<rparr>),
     ([''sctp-tests'', ''topos'', ''netns.sh''], \<lparr>stmts = netns_sh, listed = []\<rparr>),
     ([''sctp-tests'', ''topos'', ''netns_cs.sh''], \<lparr>stmts = netns_cs_sh, listed = []\<rparr>),
     ([''sctp-tests'', ''topos'', ''netns_crs.sh''], \<lparr>stmts = netns_crs_sh, listed = []\<rparr>),
     ([''sctp-tests'', ''topos'', ''netns_ipsec_cs.sh''], \<lparr>stmts = netns_ipsec_cs_sh, listed = []\<rparr>),
     ([''sctp-tests'', ''topos'', ''netns_sit_cs.sh''], \<lparr>stmts = netns_sit_cs_sh, listed = []\<rparr>),
     ([''sctp-tests'', ''topos'', ''netns_team_cs.sh''], \<lparr>stmts = netns_team_cs_sh, listed = []\<rparr>),
     ([''sctp-tests'', ''testcase'', ''performance'', ''repeatability'', ''librpt.sh''], \<lparr>stmts = librpt_sh, listed = []\<rparr>),
     ([''sctp-tests'', ''testcase'', ''testsuit'', ''lksctptools'', ''test.sh''], \<lparr>stmts = lksctptools_sh, listed = []\<rparr>),
     ([''sctp-tests'', ''testcase'', ''performance'', ''repeatability'', ''sctp_rr.sh''], \<lparr>stmts = sctp_rr_sh, listed = []\<rparr>),
     ([''sctp-tests'', ''testcase'', ''performance'', ''repeatability'', ''sctp_stream.sh''], \<lparr>stmts = sctp_stream_sh, listed = []\<rparr>),
     ([''sctp-tests'', ''testcase'', ''performance'', ''repeatability'', ''sctp_rr~on_ipsec.sh''], \<lparr>stmts = sctp_rr_on_ipsec_sh, listed = []\<rparr>),
     ([''sctp-tests'', ''testcase'', ''performance'', ''repeatability'', ''sctp_stream~on_ipsec.sh''], \<lparr>stmts = sctp_stream_on_ipsec_sh, listed = []\<rparr>),
     ([''sctp-tests'', ''testcase'', ''performance'', ''repeatability'', ''sctp_stream~on_sit.sh''], \<lparr>stmts = sctp_stream_on_sit_sh, listed = []\<rparr>),
     ([''sctp-tests'', ''testcase'', ''stress'', ''procdumps'', ''test.sh''], \<lparr>stmts = procdumps_sh, listed = []\<rparr>),
     ([''sctp-tests'', ''testcase'', ''stress'', ''sctpdiag'', ''test.sh''], \<lparr>stmts = sctpdiag_sh, listed = []\<rparr>),
     ([''sctp-tests'', ''testcase'', ''regression'', ''gsomtuchange'', ''test.sh''], \<lparr>stmts = gsomtuchange_sh, listed = []\<rparr>),
     ([''sctp-tests'', ''testcase'', ''regression'', ''peeloffbusy'', ''test.sh''], \<lparr>stmts = peeloffbusy_sh, listed = []\<rparr>),
     ([''sctp-tests'', ''testcase'', ''regression'', ''extoverflow'', ''test.sh''], \<lparr>stmts = extoverflow_sh, listed = []\<rparr>),
     ([''sctp-tests'', ''testcase'', ''performance'', ''sctphashtable'', ''test~on_netns.sh''], \<lparr>stmts = sctphashtable_on_netns_sh, listed = []\<rparr>),
     ([''sctp-tests'', ''testcase'', ''performance'', ''sctphashtable'', ''test~on_team.sh''], \<lparr>stmts = sctphashtable_on_team_sh, listed = []\<rparr>),
     ([''sctp-tests'', ''testcase'', ''conformance'', ''ndatasched'', ''test.sh''], \<lparr>stmts = ndatasched_sh, listed = []\<rparr>),
     ([''sctp-tests'', ''testcase'', ''conformance'', ''strreset'', ''test.sh''], \<lparr>stmts = strreset_sh, listed = []\<rparr>),
     ([''sctp-tests'', ''testcase'', ''conformance'', ''prsctp'', ''test.sh''], \<lparr>stmts = prsctp_sh, listed = []\<rparr>)]"
  unfolding suite_files_def list.map prod.case by (simp add: below_def enter_def)

definition suite :: disk where
  "suite =
    \<lparr>files = map_of suite_files,
     is_dir = (\<lambda>d. list_ex (\<lambda>(p, f). strict_prefix d p) suite_files),
     is_exec = (\<lambda>p. last p = ''test.sh'' \<and> butlast p \<in>
       (\<lambda>d. [''sctp-tests'', ''testcase''] @ d) ` {[''regression'', ''extoverflow''], [''regression'', ''peeloffbusy''],
         [''conformance'', ''strreset''], [''conformance'', ''ndatasched''], [''conformance'', ''prsctp'']}),
     sh_files = (\<lambda>d. map last (filter (\<lambda>p. butlast p = d \<and> drop (length (last p) - 3) (last p) = ''.sh'')
       (map fst suite_files))),
     root_dir = [''sctp-tests'']\<rparr>"

section \<open>What a case brings\<close>

abbreviation suite_root :: path where
  "suite_root \<equiv> [''sctp-tests'']"

text \<open>Whether it is valid, whether its directory is there, and the functions it defines, in the order of their use.\<close>

definition brings :: "string \<Rightarrow> bool \<times> bool \<times> path option list" where
  "brings c = (valid suite suite_root c, placed suite suite_root c, map (own suite suite_root c) in_order)"

lemma brings_code [code]:
  "brings c =
     (case loaded suite suite_root c of
        None \<Rightarrow> (False, placed suite suite_root c, map (\<lambda>_. None) in_order)
      | Some (ok, t) \<Rightarrow> (ok, placed suite suite_root c, map (funs t) in_order))"
  by (auto simp: brings_def valid_def own_def split: option.split)

lemma brings_1: "brings ''testcase/testsuit/lksctptools/test.sh'' =
    (True, True,
     [None,
      Some [''sctp-tests'', ''testcase'', ''testsuit'', ''lksctptools'', ''test.sh''],
      Some [''sctp-tests'', ''testcase'', ''testsuit'', ''lksctptools'', ''test.sh''],
      Some [''sctp-tests'', ''testcase'', ''testsuit'', ''lksctptools'', ''test.sh''],
      None])"
  by code_simp

lemma brings_2: "brings ''testcase/performance/repeatability/sctp_rr.sh'' =
    (True, True,
     [Some [''sctp-tests'', ''topos'', ''netns_cs.sh''],
      Some [''sctp-tests'', ''testcase'', ''performance'', ''repeatability'', ''sctp_rr.sh''],
      Some [''sctp-tests'', ''testcase'', ''performance'', ''repeatability'', ''sctp_rr.sh''],
      Some [''sctp-tests'', ''testcase'', ''performance'', ''repeatability'', ''sctp_rr.sh''],
      Some [''sctp-tests'', ''topos'', ''netns_cs.sh'']])"
  by code_simp

lemma brings_3: "brings ''testcase/performance/repeatability/sctp_stream.sh'' =
    (True, True,
     [Some [''sctp-tests'', ''topos'', ''netns_cs.sh''],
      Some [''sctp-tests'', ''testcase'', ''performance'', ''repeatability'', ''sctp_stream.sh''],
      Some [''sctp-tests'', ''testcase'', ''performance'', ''repeatability'', ''sctp_stream.sh''],
      Some [''sctp-tests'', ''testcase'', ''performance'', ''repeatability'', ''sctp_stream.sh''],
      Some [''sctp-tests'', ''topos'', ''netns_cs.sh'']])"
  by code_simp

lemma brings_4: "brings ''testcase/performance/repeatability/sctp_rr~on_ipsec.sh'' =
    (True, True,
     [Some [''sctp-tests'', ''topos'', ''netns_ipsec_cs.sh''],
      Some [''sctp-tests'', ''testcase'', ''performance'', ''repeatability'', ''sctp_rr.sh''],
      Some [''sctp-tests'', ''testcase'', ''performance'', ''repeatability'', ''sctp_rr.sh''],
      Some [''sctp-tests'', ''testcase'', ''performance'', ''repeatability'', ''sctp_rr.sh''],
      Some [''sctp-tests'', ''topos'', ''netns_ipsec_cs.sh'']])"
  by code_simp

lemma brings_5: "brings ''testcase/performance/repeatability/sctp_stream~on_ipsec.sh'' =
    (True, True,
     [Some [''sctp-tests'', ''topos'', ''netns_ipsec_cs.sh''],
      Some [''sctp-tests'', ''testcase'', ''performance'', ''repeatability'', ''sctp_stream.sh''],
      Some [''sctp-tests'', ''testcase'', ''performance'', ''repeatability'', ''sctp_stream.sh''],
      Some [''sctp-tests'', ''testcase'', ''performance'', ''repeatability'', ''sctp_stream.sh''],
      Some [''sctp-tests'', ''topos'', ''netns_ipsec_cs.sh'']])"
  by code_simp

lemma brings_6: "brings ''testcase/performance/repeatability/sctp_stream~on_sit.sh'' =
    (True, True,
     [Some [''sctp-tests'', ''topos'', ''netns_sit_cs.sh''],
      Some [''sctp-tests'', ''testcase'', ''performance'', ''repeatability'', ''sctp_stream.sh''],
      Some [''sctp-tests'', ''testcase'', ''performance'', ''repeatability'', ''sctp_stream.sh''],
      Some [''sctp-tests'', ''testcase'', ''performance'', ''repeatability'', ''sctp_stream.sh''],
      Some [''sctp-tests'', ''topos'', ''netns_sit_cs.sh'']])"
  by code_simp

lemma brings_7: "brings ''testcase/stress/procdumps/test.sh'' =
    (True, True,
     [None,
      Some [''sctp-tests'', ''testcase'', ''stress'', ''procdumps'', ''test.sh''],
      Some [''sctp-tests'', ''testcase'', ''stress'', ''procdumps'', ''test.sh''],
      Some [''sctp-tests'', ''testcase'', ''stress'', ''procdumps'', ''test.sh''],
      None])"
  by code_simp

lemma brings_8: "brings ''testcase/stress/sctpdiag/test.sh'' =
    (True, True,
     [None,
      Some [''sctp-tests'', ''testcase'', ''stress'', ''sctpdiag'', ''test.sh''],
      Some [''sctp-tests'', ''testcase'', ''stress'', ''sctpdiag'', ''test.sh''],
      Some [''sctp-tests'', ''testcase'', ''stress'', ''sctpdiag'', ''test.sh''],
      None])"
  by code_simp

lemma brings_9: "brings ''testcase/regression/gsomtuchange/test.sh'' =
    (True, True,
     [Some [''sctp-tests'', ''topos'', ''netns_crs.sh''],
      Some [''sctp-tests'', ''testcase'', ''regression'', ''gsomtuchange'', ''test.sh''],
      Some [''sctp-tests'', ''testcase'', ''regression'', ''gsomtuchange'', ''test.sh''],
      Some [''sctp-tests'', ''testcase'', ''regression'', ''gsomtuchange'', ''test.sh''],
      Some [''sctp-tests'', ''topos'', ''netns_crs.sh'']])"
  by code_simp

lemma brings_10: "brings ''testcase/regression/peeloffbusy/test.sh'' =
    (True, True,
     [None,
      Some [''sctp-tests'', ''testcase'', ''regression'', ''peeloffbusy'', ''test.sh''],
      Some [''sctp-tests'', ''testcase'', ''regression'', ''peeloffbusy'', ''test.sh''],
      Some [''sctp-tests'', ''testcase'', ''regression'', ''peeloffbusy'', ''test.sh''],
      None])"
  by code_simp

lemma brings_11: "brings ''testcase/regression/extoverflow/test.sh'' =
    (True, True,
     [None,
      Some [''sctp-tests'', ''testcase'', ''regression'', ''extoverflow'', ''test.sh''],
      Some [''sctp-tests'', ''testcase'', ''regression'', ''extoverflow'', ''test.sh''],
      Some [''sctp-tests'', ''testcase'', ''regression'', ''extoverflow'', ''test.sh''],
      None])"
  by code_simp

lemma brings_12: "brings ''testcase/performance/sctphashtable/test~on_netns.sh'' =
    (True, True,
     [Some [''sctp-tests'', ''topos'', ''netns_cs.sh''],
      Some [''sctp-tests'', ''testcase'', ''performance'', ''sctphashtable'', ''test~on_netns.sh''],
      Some [''sctp-tests'', ''testcase'', ''performance'', ''sctphashtable'', ''test~on_netns.sh''],
      Some [''sctp-tests'', ''testcase'', ''performance'', ''sctphashtable'', ''test~on_netns.sh''],
      Some [''sctp-tests'', ''topos'', ''netns_cs.sh'']])"
  by code_simp

lemma brings_13: "brings ''testcase/performance/sctphashtable/test~on_team.sh'' =
    (True, True,
     [Some [''sctp-tests'', ''topos'', ''netns_team_cs.sh''],
      Some [''sctp-tests'', ''testcase'', ''performance'', ''sctphashtable'', ''test~on_netns.sh''],
      Some [''sctp-tests'', ''testcase'', ''performance'', ''sctphashtable'', ''test~on_netns.sh''],
      Some [''sctp-tests'', ''testcase'', ''performance'', ''sctphashtable'', ''test~on_netns.sh''],
      Some [''sctp-tests'', ''topos'', ''netns_team_cs.sh'']])"
  by code_simp

lemma brings_14: "brings ''testcase/conformance/ndatasched/test.sh'' =
    (True, True,
     [Some [''sctp-tests'', ''topos'', ''netns_cs.sh''],
      Some [''sctp-tests'', ''testcase'', ''conformance'', ''ndatasched'', ''test.sh''],
      Some [''sctp-tests'', ''testcase'', ''conformance'', ''ndatasched'', ''test.sh''],
      Some [''sctp-tests'', ''testcase'', ''conformance'', ''ndatasched'', ''test.sh''],
      Some [''sctp-tests'', ''topos'', ''netns_cs.sh'']])"
  by code_simp

lemma brings_15: "brings ''testcase/conformance/strreset/test.sh'' =
    (True, True,
     [Some [''sctp-tests'', ''topos'', ''netns_cs.sh''],
      Some [''sctp-tests'', ''testcase'', ''conformance'', ''strreset'', ''test.sh''],
      Some [''sctp-tests'', ''testcase'', ''conformance'', ''strreset'', ''test.sh''],
      Some [''sctp-tests'', ''testcase'', ''conformance'', ''strreset'', ''test.sh''],
      Some [''sctp-tests'', ''topos'', ''netns_cs.sh'']])"
  by code_simp

lemma brings_16: "brings ''testcase/conformance/prsctp/test.sh'' =
    (True, True,
     [Some [''sctp-tests'', ''topos'', ''netns_cs.sh''],
      Some [''sctp-tests'', ''testcase'', ''conformance'', ''prsctp'', ''test.sh''],
      Some [''sctp-tests'', ''testcase'', ''conformance'', ''prsctp'', ''test.sh''],
      Some [''sctp-tests'', ''testcase'', ''conformance'', ''prsctp'', ''test.sh''],
      Some [''sctp-tests'', ''topos'', ''netns_cs.sh'']])"
  by code_simp

lemmas brings_all = brings_1 brings_2 brings_3 brings_4 brings_5 brings_6 brings_7 brings_8 brings_9 brings_10 brings_11 brings_12 brings_13 brings_14 brings_15 brings_16

section \<open>What is left of a topology\<close>

lemma plan_calls_cong:
  assumes "\<And>f. f \<in> set in_order \<Longrightarrow> left f = left' f"
  shows "plan_calls D dir left cs = plan_calls D dir left' cs"
  using assms
proof (induction cs arbitrary: left left')
  case Nil
  then show ?case by simp
next
  case (Cons c cs)
  then have "(left ++ own D dir c) f = (left' ++ own D dir c) f" if "f \<in> set in_order" for f
    using that Cons.prems by (simp add: map_add_def split: option.split)
  then show ?case
    using Cons.IH [of "\<lambda>f. if f \<in> set case_funs then None else (left ++ own D dir c) f"
        "\<lambda>f. if f \<in> set case_funs then None else (left' ++ own D dir c) f"]
    by (simp add: calls_def of_fun_def cong: map_cong)
qed

text \<open>Only the functions of a topology are left.\<close>

definition left_over :: "path option \<Rightarrow> path option \<Rightarrow> string \<Rightarrow> path option" where
  "left_over su cl f = (if f = ''st_topo_setup'' then su else if f = ''st_topo_clean'' then cl else None)"

definition renew :: "path option \<Rightarrow> path option \<Rightarrow> path option" where
  "renew old new = (if new = None then old else new)"

definition pick :: "string \<Rightarrow> path option \<Rightarrow> (string \<times> path) list" where
  "pick f x = (case x of None \<Rightarrow> [] | Some p \<Rightarrow> [(f, p)])"

lemma plan_calls_brings:
  assumes "brings c = (True, pl, [su', s, t, cl, tc'])"
  shows "plan_calls suite suite_root (left_over su tc) (c # cs) =
    pick ''st_topo_setup'' (renew su su') @ pick ''do_setup'' s @ pick ''do_test'' t @ pick ''do_clean'' cl @
    pick ''st_topo_clean'' (renew tc tc') @
    plan_calls suite suite_root (left_over (renew su su') (renew tc tc')) cs"
proof -
  let ?F = "left_over su tc ++ own suite suite_root c"
  have F: "?F ''st_topo_setup'' = renew su su'" "?F ''do_setup'' = s" "?F ''do_test'' = t" "?F ''do_clean'' = cl"
    "?F ''st_topo_clean'' = renew tc tc'"
    using assms by (auto simp: brings_def in_order_def map_add_def left_over_def renew_def split: option.splits)
  have "plan_calls suite suite_root (\<lambda>f. if f \<in> set case_funs then None else ?F f) cs =
      plan_calls suite suite_root (left_over (renew su su') (renew tc tc')) cs"
    by (rule plan_calls_cong) (auto simp: in_order_def case_funs_def left_over_def F)
  moreover have "calls ?F = pick ''st_topo_setup'' (renew su su') @ pick ''do_setup'' s @ pick ''do_test'' t @
      pick ''do_clean'' cl @ pick ''st_topo_clean'' (renew tc tc')"
    unfolding calls_def in_order_def by (simp add: of_fun_def pick_def F)
  ultimately show ?thesis
    using assms by (simp add: brings_def)
qed

text \<open>From the calls of a run: the file of each test with the topology set up last for it.\<close>

fun set_up :: "path \<Rightarrow> (string \<times> path) list \<Rightarrow> (path \<times> path) list" where
  "set_up topo [] = []"
| "set_up topo ((f, p) # rs) =
     (if f = ''st_topo_setup'' then set_up p rs
      else if f = ''do_test'' then (p, topo) # set_up [] rs
      else set_up topo rs)"

section \<open>A run of the plan\<close>

definition started :: "path \<Rightarrow> 'm shell" where
  "started dir = \<lparr>vars = \<lambda>_. [], funs = \<lambda>_. None, cwd = dir, dirstack = [], events = []\<rparr>"

lemma suite_config:
  "files suite (resolve suite_root ''st.cfg'') = Some \<lparr>stmts = st_cfg, listed = []\<rparr>"
  "files suite (below [''sctp-tests'', ''libst''] ''system.sh'') = Some \<lparr>stmts = system_sh, listed = []\<rparr>"
  by code_simp+

text \<open>The shell after the options of a run without any, in the directory of the suite.\<close>

lemma st_do_init_suite:
  "\<exists>sh. st_do_init suite True [] (started suite_root) = Some (True, sh) \<and> idle suite_root sh \<and>
     vars sh ''TestCase'' = ''testplan/upstream.list'' \<and> ran_of (events sh) = [] \<and>
     (\<forall>f \<in> set in_order. funs sh f = None)"
proof -
  have root: "root_dir suite = suite_root" by (simp add: suite_def)
  show ?thesis
    by (simp add: st_do_init_def st_init_param_def st_cfg_load_def st_check_pack_def st_load_libst_def root suite_config
        source_file_def st_cfg_def system_sh_def started_def idle_def in_order_def Let_def)
qed

lemma upstream_parsed:
  assumes "vars sh ''TestCase'' = ''testplan/upstream.list''" and "cwd sh = suite_root"
  shows "st_parse_testcase suite sh = upstream_list"
proof -
  have "resolve suite_root ''testplan/upstream.list'' = [''sctp-tests'', ''testplan'', ''upstream.list'']"
    by code_simp
  moreover have "files suite [''sctp-tests'', ''testplan'', ''upstream.list''] = Some \<lparr>stmts = [], listed = upstream_list\<rparr>"
    by (simp add: suite_def suite_files_def)
  moreover have "\<not> is_dir suite [''sctp-tests'', ''testplan'', ''upstream.list'']"
    by code_simp
  ultimately show ?thesis
    using assms by (simp add: st_parse_testcase_def Let_def)
qed

lemma upstream_all:
  "list_all (valid suite suite_root) upstream_list" "list_all (placed suite suite_root) upstream_list"
  using brings_all by (simp_all add: upstream_list_def brings_def)

lemma set_up_case:
  "set_up old (pick ''st_topo_setup'' su @ pick ''do_setup'' s @ pick ''do_test'' (Some t) @ pick ''do_clean'' cl @
     pick ''st_topo_clean'' tc @ rs) = (t, case su of None \<Rightarrow> old | Some p \<Rightarrow> p) # set_up [] rs"
  by (cases su; cases s; cases cl; cases tc) (simp_all add: pick_def)

lemma set_up_brings:
  assumes "brings c = (True, pl, [su', s, Some t, cl, tc'])"
  shows "set_up [] (plan_calls suite suite_root (left_over su tc) (c # cs)) =
    (t, case renew su su' of None \<Rightarrow> [] | Some p \<Rightarrow> p) #
    set_up [] (plan_calls suite suite_root (left_over (renew su su') (renew tc tc')) cs)"
  unfolding plan_calls_brings [OF assms] set_up_case ..

lemma renew_simps: "renew old None = old" "renew old (Some p) = Some p"
  by (simp_all add: renew_def)

lemma upstream_set_up:
  "set_up [] (plan_calls suite suite_root (left_over None None) upstream_list) =
     [([''sctp-tests'', ''testcase'', ''testsuit'', ''lksctptools'', ''test.sh''], []),
      ([''sctp-tests'', ''testcase'', ''performance'', ''repeatability'', ''sctp_rr.sh''], [''sctp-tests'', ''topos'', ''netns_cs.sh'']),
      ([''sctp-tests'', ''testcase'', ''performance'', ''repeatability'', ''sctp_stream.sh''], [''sctp-tests'', ''topos'', ''netns_cs.sh'']),
      ([''sctp-tests'', ''testcase'', ''performance'', ''repeatability'', ''sctp_rr.sh''], [''sctp-tests'', ''topos'', ''netns_ipsec_cs.sh'']),
      ([''sctp-tests'', ''testcase'', ''performance'', ''repeatability'', ''sctp_stream.sh''], [''sctp-tests'', ''topos'', ''netns_ipsec_cs.sh'']),
      ([''sctp-tests'', ''testcase'', ''performance'', ''repeatability'', ''sctp_stream.sh''], [''sctp-tests'', ''topos'', ''netns_sit_cs.sh'']),
      ([''sctp-tests'', ''testcase'', ''stress'', ''procdumps'', ''test.sh''], [''sctp-tests'', ''topos'', ''netns_sit_cs.sh'']),
      ([''sctp-tests'', ''testcase'', ''stress'', ''sctpdiag'', ''test.sh''], [''sctp-tests'', ''topos'', ''netns_sit_cs.sh'']),
      ([''sctp-tests'', ''testcase'', ''regression'', ''gsomtuchange'', ''test.sh''], [''sctp-tests'', ''topos'', ''netns_crs.sh'']),
      ([''sctp-tests'', ''testcase'', ''regression'', ''peeloffbusy'', ''test.sh''], [''sctp-tests'', ''topos'', ''netns_crs.sh'']),
      ([''sctp-tests'', ''testcase'', ''regression'', ''extoverflow'', ''test.sh''], [''sctp-tests'', ''topos'', ''netns_crs.sh'']),
      ([''sctp-tests'', ''testcase'', ''performance'', ''sctphashtable'', ''test~on_netns.sh''], [''sctp-tests'', ''topos'', ''netns_cs.sh'']),
      ([''sctp-tests'', ''testcase'', ''performance'', ''sctphashtable'', ''test~on_netns.sh''], [''sctp-tests'', ''topos'', ''netns_team_cs.sh'']),
      ([''sctp-tests'', ''testcase'', ''conformance'', ''ndatasched'', ''test.sh''], [''sctp-tests'', ''topos'', ''netns_cs.sh'']),
      ([''sctp-tests'', ''testcase'', ''conformance'', ''strreset'', ''test.sh''], [''sctp-tests'', ''topos'', ''netns_cs.sh'']),
      ([''sctp-tests'', ''testcase'', ''conformance'', ''prsctp'', ''test.sh''], [''sctp-tests'', ''topos'', ''netns_cs.sh''])]"
  unfolding upstream_list_def brings_all [THEN set_up_brings] renew_simps option.case plan_calls.simps(1) set_up.simps(1) ..

lemma upstream_names:
  "map (\<lambda>(test, topo). (path_name test, path_name topo))
     [([''sctp-tests'', ''testcase'', ''testsuit'', ''lksctptools'', ''test.sh''], []),
      ([''sctp-tests'', ''testcase'', ''performance'', ''repeatability'', ''sctp_rr.sh''], [''sctp-tests'', ''topos'', ''netns_cs.sh'']),
      ([''sctp-tests'', ''testcase'', ''performance'', ''repeatability'', ''sctp_stream.sh''], [''sctp-tests'', ''topos'', ''netns_cs.sh'']),
      ([''sctp-tests'', ''testcase'', ''performance'', ''repeatability'', ''sctp_rr.sh''], [''sctp-tests'', ''topos'', ''netns_ipsec_cs.sh'']),
      ([''sctp-tests'', ''testcase'', ''performance'', ''repeatability'', ''sctp_stream.sh''], [''sctp-tests'', ''topos'', ''netns_ipsec_cs.sh'']),
      ([''sctp-tests'', ''testcase'', ''performance'', ''repeatability'', ''sctp_stream.sh''], [''sctp-tests'', ''topos'', ''netns_sit_cs.sh'']),
      ([''sctp-tests'', ''testcase'', ''stress'', ''procdumps'', ''test.sh''], [''sctp-tests'', ''topos'', ''netns_sit_cs.sh'']),
      ([''sctp-tests'', ''testcase'', ''stress'', ''sctpdiag'', ''test.sh''], [''sctp-tests'', ''topos'', ''netns_sit_cs.sh'']),
      ([''sctp-tests'', ''testcase'', ''regression'', ''gsomtuchange'', ''test.sh''], [''sctp-tests'', ''topos'', ''netns_crs.sh'']),
      ([''sctp-tests'', ''testcase'', ''regression'', ''peeloffbusy'', ''test.sh''], [''sctp-tests'', ''topos'', ''netns_crs.sh'']),
      ([''sctp-tests'', ''testcase'', ''regression'', ''extoverflow'', ''test.sh''], [''sctp-tests'', ''topos'', ''netns_crs.sh'']),
      ([''sctp-tests'', ''testcase'', ''performance'', ''sctphashtable'', ''test~on_netns.sh''], [''sctp-tests'', ''topos'', ''netns_cs.sh'']),
      ([''sctp-tests'', ''testcase'', ''performance'', ''sctphashtable'', ''test~on_netns.sh''], [''sctp-tests'', ''topos'', ''netns_team_cs.sh'']),
      ([''sctp-tests'', ''testcase'', ''conformance'', ''ndatasched'', ''test.sh''], [''sctp-tests'', ''topos'', ''netns_cs.sh'']),
      ([''sctp-tests'', ''testcase'', ''conformance'', ''strreset'', ''test.sh''], [''sctp-tests'', ''topos'', ''netns_cs.sh'']),
      ([''sctp-tests'', ''testcase'', ''conformance'', ''prsctp'', ''test.sh''], [''sctp-tests'', ''topos'', ''netns_cs.sh''])] =
   map (\<lambda>(test, topo). (''/sctp-tests/testcase/'' @ test,
       if topo = [] then [] else ''/sctp-tests/topos/'' @ topo @ ''.sh''))
     [(''testsuit/lksctptools/test.sh'', ''''),
      (''performance/repeatability/sctp_rr.sh'', ''netns_cs''),
      (''performance/repeatability/sctp_stream.sh'', ''netns_cs''),
      (''performance/repeatability/sctp_rr.sh'', ''netns_ipsec_cs''),
      (''performance/repeatability/sctp_stream.sh'', ''netns_ipsec_cs''),
      (''performance/repeatability/sctp_stream.sh'', ''netns_sit_cs''),
      (''stress/procdumps/test.sh'', ''netns_sit_cs''),
      (''stress/sctpdiag/test.sh'', ''netns_sit_cs''),
      (''regression/gsomtuchange/test.sh'', ''netns_crs''),
      (''regression/peeloffbusy/test.sh'', ''netns_crs''),
      (''regression/extoverflow/test.sh'', ''netns_crs''),
      (''performance/sctphashtable/test~on_netns.sh'', ''netns_cs''),
      (''performance/sctphashtable/test~on_netns.sh'', ''netns_team_cs''),
      (''conformance/ndatasched/test.sh'', ''netns_cs''),
      (''conformance/strreset/test.sh'', ''netns_cs''),
      (''conformance/prsctp/test.sh'', ''netns_cs'')]"
  by code_simp

lemma upstream_plain:
  "filter (\<lambda>c. topo_funs suite suite_root c = []) upstream_list =
     [''testcase/testsuit/lksctptools/test.sh'',
      ''testcase/stress/procdumps/test.sh'',
      ''testcase/stress/sctpdiag/test.sh'',
      ''testcase/regression/peeloffbusy/test.sh'',
      ''testcase/regression/extoverflow/test.sh'']"
  using brings_all by (simp add: upstream_list_def brings_def topo_funs_def in_order_def)

text \<open>
  C21: \<open>sctp-tests run\<close> in the directory of the suite, on the plan it has by default, whatever the functions of the scripts log:
  it returns 0, so the status tells nothing of the verdicts. For each test this is the topology that is set up. Five tests
  ask for none; only the first of them gets none, the other four get the one of the test before.
\<close>

theorem upstream_plan_topologies:
  fixes B :: "'m bodies"
  assumes "\<And>p f. B p f \<noteq> None"
  shows "\<exists>sh. sctp_tests suite B True True [] ''run'' (started suite_root) = Some (0, sh) \<and>
    map (\<lambda>(test, topo). (path_name test, path_name topo)) (set_up [] (ran_of (events sh))) =
    map (\<lambda>(test, topo). (''/sctp-tests/testcase/'' @ test,
       if topo = [] then [] else ''/sctp-tests/topos/'' @ topo @ ''.sh''))
     [(''testsuit/lksctptools/test.sh'', ''''),
      (''performance/repeatability/sctp_rr.sh'', ''netns_cs''),
      (''performance/repeatability/sctp_stream.sh'', ''netns_cs''),
      (''performance/repeatability/sctp_rr.sh'', ''netns_ipsec_cs''),
      (''performance/repeatability/sctp_stream.sh'', ''netns_ipsec_cs''),
      (''performance/repeatability/sctp_stream.sh'', ''netns_sit_cs''),
      (''stress/procdumps/test.sh'', ''netns_sit_cs''),
      (''stress/sctpdiag/test.sh'', ''netns_sit_cs''),
      (''regression/gsomtuchange/test.sh'', ''netns_crs''),
      (''regression/peeloffbusy/test.sh'', ''netns_crs''),
      (''regression/extoverflow/test.sh'', ''netns_crs''),
      (''performance/sctphashtable/test~on_netns.sh'', ''netns_cs''),
      (''performance/sctphashtable/test~on_netns.sh'', ''netns_team_cs''),
      (''conformance/ndatasched/test.sh'', ''netns_cs''),
      (''conformance/strreset/test.sh'', ''netns_cs''),
      (''conformance/prsctp/test.sh'', ''netns_cs'')] \<and>
    filter (\<lambda>c. topo_funs suite suite_root c = []) upstream_list =
     [''testcase/testsuit/lksctptools/test.sh'',
      ''testcase/stress/procdumps/test.sh'',
      ''testcase/stress/sctpdiag/test.sh'',
      ''testcase/regression/peeloffbusy/test.sh'',
      ''testcase/regression/extoverflow/test.sh'']"
proof -
  obtain sh :: "'m shell" where sh: "st_do_init suite True [] (started suite_root) = Some (True, sh)" "idle suite_root sh"
    "vars sh ''TestCase'' = ''testplan/upstream.list''" "ran_of (events sh) = []" "\<forall>f \<in> set in_order. funs sh f = None"
    using st_do_init_suite by blast
  have words: "st_parse_testcase suite sh = upstream_list"
    using sh(2,3) by (intro upstream_parsed) (simp_all add: idle_def)
  have "loaded suite suite_root c \<noteq> None" if "c \<in> set upstream_list" for c
    using upstream_all(1) that unfolding list_all_iff valid_def by force
  with st_case_schedule_runs [where B = B and D = suite, OF assms sh(2)] words
  obtain sh' where sh': "st_case_schedule suite B sh = Some (status_after suite suite_root 0 upstream_list, sh')"
    "ran_of (events sh') = plan_calls suite suite_root (funs sh) upstream_list"
    using sh(4) by auto
  have "status_after suite suite_root 0 upstream_list = 0"
    using upstream_all by (simp add: status_after_def upstream_list_def)
  then have run: "sctp_tests suite B True True [] ''run'' (started suite_root) = Some (0, sh')"
    by (simp add: sctp_tests_def sh(1) sh'(1))
  have "plan_calls suite suite_root (funs sh) upstream_list =
      plan_calls suite suite_root (left_over None None) upstream_list"
    by (rule plan_calls_cong) (simp add: sh(5) left_over_def)
  note names = upstream_names [folded upstream_set_up, folded this, folded sh'(2)]
  show ?thesis
    by (intro exI conjI) (rule run names upstream_plain)+
qed

theorem upstream_plan_topologies_witness:
  "\<exists>sh. sctp_tests suite (\<lambda>p f. Some [(INFO, ''- FAIL -'')]) True True [] ''run'' (started [''sctp-tests'']) = Some (0, sh)"
  using upstream_plan_topologies [of "\<lambda>p f. Some [(INFO, ''- FAIL -'')]"] by blast

section \<open>Two runs of other plans\<close>

text \<open>A directory: the two cases of the hash table, which have a topology each.\<close>

theorem plan_runs_each_case_alone_witness:
  "\<exists>sh. st_case_schedule suite (\<lambda>p f. Some [(INFO, ''- PASS -'')])
      ((started [''sctp-tests''])\<lparr>vars := \<lambda>x. if x = ''TestCase'' then ''testcase/performance/sctphashtable'' else []\<rparr>) =
      Some (0, sh) \<and>
    map fst (ran_of (events sh)) =
      [''st_topo_setup'', ''do_setup'', ''do_test'', ''do_clean'', ''st_topo_clean'',
       ''st_topo_setup'', ''do_setup'', ''do_test'', ''do_clean'', ''st_topo_clean'']"
proof -
  define s :: "string shell" where
    "s = (started suite_root)\<lparr>vars := \<lambda>x. if x = ''TestCase'' then ''testcase/performance/sctphashtable'' else []\<rparr>"
  define cs where "cs = [''testcase/performance/sctphashtable/test~on_netns.sh'', ''testcase/performance/sctphashtable/test~on_team.sh'']"
  have "resolve suite_root ''testcase/performance/sctphashtable'' = [''sctp-tests'', ''testcase'', ''performance'', ''sctphashtable'']"
    by code_simp
  moreover have "is_dir suite [''sctp-tests'', ''testcase'', ''performance'', ''sctphashtable'']"
    "sh_files suite [''sctp-tests'', ''testcase'', ''performance'', ''sctphashtable''] = [''test~on_netns.sh'', ''test~on_team.sh'']"
    "\<not> is_exec suite [''sctp-tests'', ''testcase'', ''performance'', ''sctphashtable'', ''test.sh'']"
    by code_simp+
  ultimately have cs: "st_parse_testcase suite s = cs"
    by (simp add: st_parse_testcase_def started_def s_def cs_def)
  have idle: "idle suite_root s" and empty: "funs s = (\<lambda>_. None)" "events s = []"
    by (simp_all add: idle_def started_def s_def)
  have loads: "loaded suite suite_root c \<noteq> None" if "c \<in> set (st_parse_testcase suite s)" for c
    using that brings_12 brings_13 unfolding cs cs_def brings_def valid_def by fastforce
  have sorted: "sorted_wrt (\<lambda>c c'. set (topo_funs suite suite_root c) \<subseteq> set (topo_funs suite suite_root c'))
      (st_parse_testcase suite s)"
    unfolding cs cs_def using brings_12 brings_13 by (simp add: brings_def topo_funs_def in_order_def)
  obtain sh where sh: "st_case_schedule suite (\<lambda>p f. Some [(INFO, ''- PASS -'')]) s =
      Some (status_after suite suite_root 0 cs, sh)" "ran_of (events sh) =
      concat (map (\<lambda>c. calls (own suite suite_root c)) (takeWhile (valid suite suite_root) cs))"
    using plan_runs_each_case_alone [of "\<lambda>p f. Some [(INFO, ''- PASS -'')]", OF option.distinct(2) idle empty(1) loads sorted]
    unfolding cs empty(2) by auto
  have "status_after suite suite_root 0 cs = 0"
    using brings_12 brings_13 by (simp add: status_after_def brings_def cs_def)
  moreover have "map fst (ran_of (events sh)) =
      [''st_topo_setup'', ''do_setup'', ''do_test'', ''do_clean'', ''st_topo_clean'',
       ''st_topo_setup'', ''do_setup'', ''do_test'', ''do_clean'', ''st_topo_clean'']"
    using brings_12 brings_13
    by (simp add: sh(2) cs_def brings_def calls_def in_order_def of_fun_def)
  ultimately show ?thesis using sh(1) unfolding s_def by auto
qed

text \<open>Started in another directory, the default plan is not found, and the run ends well with nothing run.\<close>

lemma run_elsewhere:
  assumes "files suite (resolve dir ''testplan/upstream.list'') = None" and "\<not> is_dir suite (resolve dir ''testplan/upstream.list'')"
    and "vars sh ''TestCase'' = ''testplan/upstream.list''" and "cwd sh = dir"
  shows "\<exists>sh'. st_case_schedule suite B sh = Some (0, sh') \<and> ran_of (events sh') = ran_of (events sh)"
  using assms by (simp add: st_case_schedule_def st_parse_testcase_def)

end
