(* ===== verification/Driver_Log.thy ===== *)
theory Driver_Log
  imports Driver_Props
begin

text \<open>
  What the tests say reaches the log: while the log level shows INFO, the lines of the functions that ran stand
  in the log, in the order in which they ran. This is an invariant of the shell that every step of the driver keeps, on
  a disk with no file that sets the level higher.
\<close>

section \<open>The level\<close>

definition verbose :: "'m shell \<Rightarrow> bool" where
  "verbose sh \<longleftrightarrow> vars sh ''LogLevel'' \<in> {''DBG'', ''INFO''}"

definition verbose_stmt :: "stmt \<Rightarrow> bool" where
  "verbose_stmt c \<longleftrightarrow> (\<forall>v. c = Assign ''LogLevel'' v \<longrightarrow> v \<in> {''DBG'', ''INFO''})"

definition verbose_disk :: "disk \<Rightarrow> bool" where
  "verbose_disk D \<longleftrightarrow> (\<forall>p f. files D p = Some f \<longrightarrow> list_all verbose_stmt (stmts f))"

lemma flatten_verbose:
  assumes "flatten D dir todo = Some es" and "verbose_disk D" and "list_all (verbose_stmt \<circ> snd) todo"
  shows "list_all (verbose_stmt \<circ> snd) es"
proof -
  have "verbose_disk D \<longrightarrow> list_all (verbose_stmt \<circ> snd) todo \<longrightarrow> list_all (verbose_stmt \<circ> snd) es"
  proof (rule flatten.raw_induct [where P = "\<lambda>D dir todo es. verbose_disk D \<longrightarrow>
      list_all (verbose_stmt \<circ> snd) todo \<longrightarrow> list_all (verbose_stmt \<circ> snd) es", OF _ assms(1)], intro impI)
    fix flat D dir todo es
    assume IH: "\<And>D dir todo es. flat D dir todo = Some es \<Longrightarrow> verbose_disk D \<longrightarrow>
        list_all (verbose_stmt \<circ> snd) todo \<longrightarrow> list_all (verbose_stmt \<circ> snd) es"
      and body: "(case todo of [] \<Rightarrow> Some [] | (p, c) # rest \<Rightarrow>
          (case c of
             Source w \<Rightarrow>
               (case files D (resolve dir w) of
                  None \<Rightarrow> flat D dir rest
                | Some f \<Rightarrow> flat D dir (map (Pair (resolve dir w)) (stmts f) @ rest))
           | _ \<Rightarrow> Option.bind (flat D dir rest) (\<lambda>es. Some ((p, c) # es)))) = Some es"
      and D: "verbose_disk D" and todo: "list_all (verbose_stmt \<circ> snd) todo"
    show "list_all (verbose_stmt \<circ> snd) es"
    proof (cases todo)
      case Nil
      with body show ?thesis by simp
    next
      case (Cons x rest)
      obtain p c where x: "x = (p, c)" by (cases x)
      have rest: "list_all (verbose_stmt \<circ> snd) es'" if "flat D dir rest = Some es'" for es'
        using IH [OF that] D todo Cons by simp
      show ?thesis
      proof (cases c)
        case (Source w)
        show ?thesis
        proof (cases "files D (resolve dir w)")
          case None
          with body Cons x Source rest show ?thesis by simp
        next
          case (Some f)
          then have "list_all verbose_stmt (stmts f)"
            using D by (simp add: verbose_disk_def)
          then have "list_all (verbose_stmt \<circ> snd) (map (Pair (resolve dir w)) (stmts f) @ rest)"
            using todo Cons by (auto simp: list_all_iff)
          moreover have "flat D dir (map (Pair (resolve dir w)) (stmts f) @ rest) = Some es"
            using body Cons x Source Some by simp
          ultimately show ?thesis using IH D by blast
        qed
      qed (use body todo Cons x rest in \<open>auto simp: Option.bind_eq_Some_conv\<close>)
    qed
  qed
  with assms(2,3) show ?thesis by blast
qed

lemma fold_perform_verbose:
  assumes "verbose sh" and "list_all (verbose_stmt \<circ> snd) es"
  shows "verbose (fold perform es sh)"
  using assms
proof (induction es arbitrary: sh)
  case (Cons e es)
  have "verbose (perform e sh)"
    using Cons.prems by (cases e; cases "snd e") (auto simp: verbose_def verbose_stmt_def)
  with Cons show ?case by simp
qed simp

lemma fold_perform_events [simp]: "events (fold perform es sh) = events sh"
proof -
  have "events (perform e s) = events s" for e and s :: "'a shell"
    by (cases e; cases "snd e") auto
  then show ?thesis by (induction es arbitrary: sh) simp_all
qed

section \<open>The lines of the tests\<close>

definition reported :: "'m event list \<Rightarrow> 'm list" where
  "reported es = concat (map (\<lambda>e. case e of Logged l (Of_test m) \<Rightarrow> if l = DBG then [] else [m] | _ \<Rightarrow> []) es)"

lemma reported_simps [simp]: "reported [] = []" "reported (es @ es') = reported es @ reported es'"
  "reported (Ran f p # es) = reported es" "reported (Logged l (Says w) # es) = reported es"
  "reported (Logged l (Of_test m) # es) = (if l = DBG then [] else [m]) @ reported es"
  "reported (Echoed x # es) = reported es"
  by (simp_all add: reported_def)

definition lines_of :: "(level \<times> 'm) list \<Rightarrow> 'm list" where
  "lines_of ls = map snd (filter (\<lambda>(l, m). l \<noteq> DBG) ls)"

definition all_reported :: "'m bodies \<Rightarrow> 'm shell \<Rightarrow> bool" where
  "all_reported B sh \<longleftrightarrow> verbose sh \<and>
     reported (events sh) = concat (map (\<lambda>(f, p). lines_of (the (B p f))) (ran_of (events sh)))"

lemma all_reported_says [simp]: "all_reported B sh \<Longrightarrow> all_reported B (st_log l (Says w) sh)"
  by (auto simp: all_reported_def st_log_def verbose_def)

lemma all_reported_vars [simp]: "x \<noteq> ''LogLevel'' \<Longrightarrow> all_reported B sh \<Longrightarrow> all_reported B (sh\<lparr>vars := (vars sh)(x := v)\<rparr>)"
  by (simp add: all_reported_def verbose_def)

lemma st_log_line:
  assumes "verbose sh"
  shows "reported (events (st_log l (Of_test m) sh)) = reported (events sh) @ lines_of [(l, m)]"
    and "verbose (st_log l (Of_test m) sh)"
proof -
  have "st_log_check l sh \<or> l = DBG"
    using assms by (cases l) (auto simp: verbose_def st_log_check_def st_logs_def less_level_def)
  then show "reported (events (st_log l (Of_test m) sh)) = reported (events sh) @ lines_of [(l, m)]"
    using assms by (auto simp: st_log_def lines_of_def verbose_def)
  show "verbose (st_log l (Of_test m) sh)" using assms by (simp add: verbose_def)
qed

lemma fold_st_log_lines:
  assumes "verbose sh"
  shows "reported (events (fold (\<lambda>(l, m). st_log l (Of_test m)) ls sh)) = reported (events sh) @ lines_of ls"
    and "verbose (fold (\<lambda>(l, m). st_log l (Of_test m)) ls sh)"
proof -
  have "reported (events (fold (\<lambda>(l, m). st_log l (Of_test m)) ls sh)) = reported (events sh) @ lines_of ls \<and>
      verbose (fold (\<lambda>(l, m). st_log l (Of_test m)) ls sh)"
    using assms
  proof (induction ls arbitrary: sh)
    case (Cons x ls)
    obtain l m where x: "x = (l, m)" by (cases x)
    from Cons.IH [OF st_log_line(2) [OF Cons.prems]] st_log_line(1) [OF Cons.prems]
    show ?case by (simp add: x lines_of_def)
  qed (simp add: lines_of_def)
  then show "reported (events (fold (\<lambda>(l, m). st_log l (Of_test m)) ls sh)) = reported (events sh) @ lines_of ls"
    "verbose (fold (\<lambda>(l, m). st_log l (Of_test m)) ls sh)" by blast+
qed

section \<open>Every step keeps it\<close>

lemma source_file_reports:
  assumes "verbose_disk D" and "source_file D p sh = Some sh'" and "all_reported B sh"
  shows "all_reported B sh'"
proof (cases "files D p")
  case None
  with assms show ?thesis by (simp add: source_file_def)
next
  case (Some f)
  with assms(2) obtain es where es: "flatten D (cwd sh) (map (Pair p) (stmts f)) = Some es" "sh' = fold perform es sh"
    by (auto simp: source_file_def)
  have "list_all (verbose_stmt \<circ> snd) (map (Pair p) (stmts f))"
    using assms(1) Some by (auto simp: verbose_disk_def list_all_iff)
  from flatten_verbose [OF es(1) assms(1) this] assms(3) es(2) show ?thesis
    by (simp add: all_reported_def fold_perform_verbose)
qed

lemma st_topo_validate_reports:
  assumes "verbose_disk D" and "st_topo_validate D sh = Some (ok, sh')" and "all_reported B sh"
  shows "all_reported B sh'"
  using assms(2,3) by (auto simp: st_topo_validate_def Let_def dest: source_file_reports [OF assms(1)] split: if_splits)

lemma st_case_validate_reports:
  assumes "verbose_disk D" and "st_case_validate D c sh = Some (ok, sh')" and "all_reported B sh"
  shows "all_reported B sh'"
  using assms(2,3)
  by (auto simp: st_case_validate_def Let_def Option.bind_eq_Some_conv split: if_splits
      dest!: source_file_reports [OF assms(1), where B = B] st_topo_validate_reports [OF assms(1), where B = B])

lemma st_func_chkdo_reports:
  assumes "st_func_chkdo B f sh = Some sh'" and "all_reported B sh"
  shows "all_reported B sh'"
proof (cases "funs sh f")
  case None
  with assms show ?thesis by (simp add: st_func_chkdo_def)
next
  case (Some p)
  with assms(1) obtain ls where ls: "B p f = Some ls"
    "sh' = fold (\<lambda>(l, m). st_log l (Of_test m)) ls (sh\<lparr>events := events sh @ [Ran f p]\<rparr>)"
    by (auto simp: st_func_chkdo_def)
  have v: "verbose (sh\<lparr>events := events sh @ [Ran f p]\<rparr>)"
    using assms(2) by (simp add: all_reported_def verbose_def)
  show ?thesis
    using assms(2) ls fold_st_log_lines [OF v, of ls] by (simp add: all_reported_def)
qed

lemma st_case_run_reports:
  assumes "st_case_run B sh = Some sh'" and "all_reported B sh"
  shows "all_reported B sh'"
proof -
  have cleared: "all_reported B (s\<lparr>vars := V, funs := F\<rparr>)"
    if "all_reported B s" "V ''LogLevel'' = vars s ''LogLevel''" for s V F
    using that by (simp add: all_reported_def verbose_def)
  show ?thesis
    using assms
    by (auto simp: st_case_run_def st_do_setup_def st_do_test_def st_do_clean_def Let_def Option.bind_eq_Some_conv
        intro!: cleared all_reported_says dest!: st_func_chkdo_reports)
qed

lemma st_env_pushd_reports: "all_reported B sh \<Longrightarrow> all_reported B (st_env_pushd D c sh)"
  by (simp add: st_env_pushd_def Let_def all_reported_def verbose_def)

lemma st_env_popd_reports: "all_reported B sh \<Longrightarrow> all_reported B (snd (st_env_popd sh))"
  by (simp add: st_env_popd_def all_reported_def verbose_def split: list.split)

lemma each_case_reports:
  assumes "verbose_disk D" and "each_case D B cs (st, sh) = Some (st', sh')" and "all_reported B sh"
  shows "all_reported B sh'"
  using assms(2,3)
proof (induction cs arbitrary: st sh)
  case Nil
  then show ?case by simp
next
  case (Cons c cs)
  obtain ok s where s: "st_case_validate D c (st_env_pushd D c sh) = Some (ok, s)"
    using Cons.prems(1) by (auto simp: Option.bind_eq_Some_conv)
  have r: "all_reported B s"
    by (rule st_case_validate_reports [OF assms(1) s st_env_pushd_reports [OF Cons.prems(2)]])
  show ?case
  proof (cases ok)
    case False
    with Cons.prems(1) s r show ?thesis by simp
  next
    case True
    let ?s = "st_log INFO (Says (''=== '' @ vars s ''Name'' @ '' === start'')) s"
    from True Cons.prems(1) s obtain s1 where s1: "st_case_run B ?s = Some s1"
      and rest: "each_case D B cs (st_env_popd (st_log INFO (Says (''--- '' @ vars s1 ''Name'' @ '' --- done'')) s1)) =
        Some (st', sh')"
      by (auto simp: Option.bind_eq_Some_conv)
    have "all_reported B (snd (st_env_popd (st_log INFO (Says (''--- '' @ vars s1 ''Name'' @ '' --- done'')) s1)))"
      by (intro st_env_popd_reports all_reported_says st_case_run_reports [OF s1] r)
    from Cons.IH [where st = "fst x" and sh = "snd x" for x, unfolded prod.collapse, OF rest this] show ?thesis .
  qed
qed

lemma st_case_schedule_reports:
  assumes "verbose_disk D" and "st_case_schedule D B sh = Some (st', sh')" and "all_reported B sh"
  shows "all_reported B sh'"
  using assms(2) unfolding st_case_schedule_def Let_def
  by (rule each_case_reports [OF assms(1)]) (simp add: assms(3))

end
