(* ===== verification/C_Machine.thy ===== *)
theory C_Machine
  imports C_Prelude
begin

text \<open>
  The programs run against a kernel (sockets, time, the shell behind \<open>system\<close>) whose code is not
  part of the repository. The kernel is a parameter of every definition: a function that takes a
  call and the kernel's own state, of any type, and gives the reply and the kernel's next state.
  A program is a function on the machine: its own memory, the kernel's state, and the trace of
  all calls made so far with their replies. It may return, call \<open>exit\<close>, do something the C
  standard leaves undefined (a fault), or never return (\<open>None\<close>).
\<close>

section \<open>Calls and replies\<close>

datatype sockopt =
    SCTP_GET_ASSOC_ID_LIST | SCTP_FRAGMENT_INTERLEAVE | SCTP_INTERLEAVING_SUPPORTED | SCTP_EVENTS
  | SCTP_ENABLE_STREAM_RESET | SCTP_RESET_STREAMS | SCTP_RESET_ASSOC | SCTP_PR_SUPPORTED
  | SCTP_STREAM_SCHEDULER | SCTP_STREAM_SCHEDULER_VALUE | SCTP_NODELAY | SO_SNDBUF

text \<open>
  The structures handed to \<open>setsockopt\<close>: a plain \<open>int\<close>, \<open>struct sctp_assoc_value\<close> (association,
  value), \<open>struct sctp_stream_value\<close> (association, stream, value), \<open>struct sctp_reset_streams\<close>
  (association, flags, number of streams), an association id alone, and the two members of
  \<open>struct sctp_event_subscribe\<close> the programs set (data io, sender dry).
\<close>

datatype optval =
    Int_value cint
  | Assoc_value cint "32 word"
  | Stream_value cint cushort cushort
  | Reset_streams cint cushort cushort
  | Assoc_id cint
  | Event_subscribe bool bool

datatype call =
    Getaddrinfo string string
  | Socket cint cint cint
  | Setsockopt cint sockopt optval
  | Getsockopt cint sockopt
  | Peel_off cint cint \<comment> \<open>\<open>getsockopt\<close> with \<open>SCTP_SOCKOPT_PEELOFF\<close>: socket, association\<close>
  | Bind cint bytes
  | Listen cint cint
  | Accept cint
  | Connect cint bytes
  | Select cint
  | Set_nonblocking cint
  | Close cint
  | Sendmsg cint cint bytes "32 word" "32 word" cushort "32 word" "32 word"
      \<comment> \<open>socket, length, address, ppid, flags, stream, time to live, context\<close>
  | Recvmsg cint nat \<comment> \<open>socket, size of the buffer\<close>
  | Shell string
  | Sleep nat
  | Time
  | Srand cint
  | Rand
  | Ignore_sigpipe
  | Thread_create
  | Thread_join
  | Perror string
  | Printf string "clong list"

text \<open>
  A reply holds the return value, \<open>errno\<close>, and whatever the call stores through its pointer
  arguments: an option value or association id, the stream of a received message, the message
  flags, an address with its family, and the time.
\<close>

record reply =
  r_ret :: cint
  r_errno :: cint
  r_val :: cint
  r_stream :: cushort
  r_flags :: cint
  r_addr :: bytes
  r_family :: cint
  r_time :: clong

type_synonym 'w kernel = "call \<Rightarrow> 'w \<Rightarrow> reply \<times> 'w"

definition AF_INET :: cint where "AF_INET = 2"
definition SOCK_STREAM :: cint where "SOCK_STREAM = 1"
definition SOCK_SEQPACKET :: cint where "SOCK_SEQPACKET = 5"
definition IPPROTO_SCTP :: cint where "IPPROTO_SCTP = 132"

section \<open>Programs\<close>

datatype fault =
    Null_call      \<comment> \<open>a call through a null function pointer\<close>
  | Out_of_bounds  \<comment> \<open>an array access outside the array\<close>
  | No_value       \<comment> \<open>the value of a function that returned none is used\<close>
  | Null_string    \<comment> \<open>a null pointer where a string is read\<close>
  | Assertion      \<comment> \<open>an \<open>assert\<close> that does not hold\<close>

datatype 'a result = Done 'a | Exit cint | Fault fault

record ('c, 'w) machine =
  mem :: 'c
  world :: 'w
  trace :: "(call \<times> reply) list"

type_synonym ('c, 'w, 'a) prog =
  "('c, 'w) machine \<Rightarrow> ('a result \<times> ('c, 'w) machine) option"

definition return :: "'a \<Rightarrow> ('c, 'w, 'a) prog" where
  "return a s = Some (Done a, s)"

definition exit_with :: "cint \<Rightarrow> ('c, 'w, 'a) prog" where
  "exit_with e s = Some (Exit e, s)"

definition crash :: "fault \<Rightarrow> ('c, 'w, 'a) prog" where
  "crash x s = Some (Fault x, s)"

definition seq :: "('c, 'w, 'a) prog \<Rightarrow> ('a \<Rightarrow> ('c, 'w, 'b) prog) \<Rightarrow> ('c, 'w, 'b) prog" where
  "seq m f s =
     (case m s of
        None \<Rightarrow> None
      | Some (r, t) \<Rightarrow>
          (case r of Done a \<Rightarrow> f a t | Exit e \<Rightarrow> Some (Exit e, t) | Fault x \<Rightarrow> Some (Fault x, t)))"

text \<open>The memory a function reads through its pointer argument, and a store to it.\<close>

definition load :: "('c, 'w, 'c) prog" where
  "load s = Some (Done (mem s), s)"

definition store :: "('c \<Rightarrow> 'c) \<Rightarrow> ('c, 'w, unit) prog" where
  "store f s = Some (Done (), s\<lparr>mem := f (mem s)\<rparr>)"

text \<open>One call of the kernel; it is recorded with its reply.\<close>

definition sys :: "'w kernel \<Rightarrow> call \<Rightarrow> ('c, 'w, reply) prog" where
  "sys K c s =
     (case K c (world s) of (r, w) \<Rightarrow> Some (Done r, s\<lparr>world := w, trace := trace s @ [(c, r)]\<rparr>))"

definition run :: "'w kernel \<Rightarrow> call \<Rightarrow> ('c, 'w, unit) prog" where
  "run K c = seq (sys K c) (\<lambda>_. return ())"

text \<open>A block of statements, a counted loop, and a loop over the values of its index.\<close>

primrec block :: "('c, 'w, unit) prog list \<Rightarrow> ('c, 'w, unit) prog" where
  "block [] = return ()"
| "block (m # ms) = seq m (\<lambda>_. block ms)"

primrec repeat_loop :: "nat \<Rightarrow> ('c, 'w, unit) prog \<Rightarrow> ('c, 'w, unit) prog" where
  "repeat_loop 0 m = return ()"
| "repeat_loop (Suc n) m = seq m (\<lambda>_. repeat_loop n m)"

definition for_loop :: "nat \<Rightarrow> nat \<Rightarrow> (nat \<Rightarrow> ('c, 'w, unit) prog) \<Rightarrow> ('c, 'w, unit) prog" where
  "for_loop i j f = block (map f [i..<j])"

text \<open>
  A loop that may run for ever: the body gives \<open>Inl x\<close> to go round again with \<open>x\<close>, and \<open>Inr y\<close>
  to leave with \<open>y\<close>.
\<close>

partial_function (option) iter ::
  "('x \<Rightarrow> ('c, 'w, 'x + 'y) prog) \<Rightarrow> 'x \<Rightarrow> ('c, 'w) machine \<Rightarrow> ('y result \<times> ('c, 'w) machine) option"
where
  "iter body x s =
     (case body x s of
        None \<Rightarrow> None
      | Some (r, t) \<Rightarrow>
          (case r of
             Done v \<Rightarrow> (case v of Inl x' \<Rightarrow> iter body x' t | Inr y \<Rightarrow> Some (Done y, t))
           | Exit e \<Rightarrow> Some (Exit e, t)
           | Fault f \<Rightarrow> Some (Fault f, t)))"

text \<open>\<open>while (cmd >= 0) cmd = \<dots>;\<close> as the three servers write it.\<close>

definition while_nonneg :: "('c, 'w, cint) prog \<Rightarrow> cint \<Rightarrow> ('c, 'w, unit) prog" where
  "while_nonneg step =
     iter (\<lambda>cmd. if negative cmd then return (Inr ()) else seq step (\<lambda>cmd'. return (Inl cmd')))"

text \<open>\<open>if (call \<dots>) { perror(\<dots>); exit(-1); }\<close>\<close>

definition or_die :: "'w kernel \<Rightarrow> call \<Rightarrow> (cint \<Rightarrow> bool) \<Rightarrow> string \<Rightarrow> ('c, 'w, reply) prog" where
  "or_die K c bad msg =
     seq (sys K c) (\<lambda>r.
       if bad (r_ret r) then seq (run K (Perror msg)) (\<lambda>_. exit_with (-1)) else return r)"

text \<open>\<open>if (call \<dots>) { perror(\<dots>); exit(-1); }\<close> where nothing of the reply is used.\<close>

definition must :: "'w kernel \<Rightarrow> call \<Rightarrow> (cint \<Rightarrow> bool) \<Rightarrow> string \<Rightarrow> ('c, 'w, unit) prog" where
  "must K c bad msg = seq (or_die K c bad msg) (\<lambda>_. return ())"

definition may_fail :: "'w kernel \<Rightarrow> call \<Rightarrow> (cint \<Rightarrow> bool) \<Rightarrow> string \<Rightarrow> ('c, 'w, unit) prog" where
  \<comment> \<open>\<open>if (call \<dots>) perror(\<dots>);\<close> and go on\<close>
  "may_fail K c bad msg =
     seq (sys K c) (\<lambda>r. if bad (r_ret r) then run K (Perror msg) else return ())"

text \<open>Two threads, as lists of atomic statements, under a schedule: \<open>True\<close> runs the first.\<close>

fun interleave :: "bool list \<Rightarrow> 'a list \<Rightarrow> 'a list \<Rightarrow> 'a list" where
  "interleave [] xs ys = xs @ ys"
| "interleave (b # bs) [] ys = ys"
| "interleave (b # bs) xs [] = xs"
| "interleave (b # bs) (x # xs) (y # ys) =
     (if b then x # interleave bs xs (y # ys) else y # interleave bs (x # xs) ys)"

definition in_parallel ::
  "bool list \<Rightarrow> ('c, 'w, unit) prog list \<Rightarrow> ('c, 'w, unit) prog list \<Rightarrow> ('c, 'w, unit) prog" where
  "in_parallel sched xs ys = block (interleave sched xs ys)"

end
