(* ===== verification/C_Logic.thy ===== *)
theory C_Logic
  imports C_Machine
begin

text \<open>
  How programs are reasoned about. A program is run symbolically with the equations of
  \<open>run_simps\<close>. What it does to the outside is read off the trace in two ways: \<open>acts\<close> is what it
  asks of the kernel (messages, options, shell commands, sleeps), and \<open>inputs\<close> is what it learns
  from it (messages that arrive, association ids). The judgement \<open>emits\<close> says that, whatever
  the kernel answers, a program performs exactly a given list of actions, or stops early with
  status -1 after a prefix of them because a call failed; its rules, collected in
  \<open>emits_intro\<close>, follow the structure of the program. The firewall is a function of the actions.
\<close>

named_theorems run_simps "symbolic execution of programs"
named_theorems emits_intro "which actions a program performs"

section \<open>Symbolic execution\<close>

lemma return_run [run_simps]: "return a s = Some (Done a, s)"
  by (simp add: return_def)

lemma exit_run [run_simps]: "exit_with e s = Some (Exit e, s)"
  by (simp add: exit_with_def)

lemma crash_run [run_simps]: "crash x s = Some (Fault x, s)"
  by (simp add: crash_def)

lemma load_run [run_simps]: "load s = Some (Done (mem s), s)"
  by (simp add: load_def)

lemma store_run [run_simps]: "store f s = Some (Done (), s\<lparr>mem := f (mem s)\<rparr>)"
  by (simp add: store_def)

lemma sys_run [run_simps]:
  "sys K c s =
     Some (Done (fst (K c (world s))),
       s\<lparr>world := snd (K c (world s)), trace := trace s @ [(c, fst (K c (world s)))]\<rparr>)"
  by (simp add: sys_def split: prod.split)

lemma seq_run [run_simps]:
  "seq m f s =
     (case m s of
        None \<Rightarrow> None
      | Some (r, t) \<Rightarrow>
          (case r of Done a \<Rightarrow> f a t | Exit e \<Rightarrow> Some (Exit e, t) | Fault x \<Rightarrow> Some (Fault x, t)))"
  by (simp add: seq_def)

lemma block_Nil_run [run_simps]: "block [] s = Some (Done (), s)"
  by (simp add: run_simps)

lemma block_Cons_run [run_simps]: "block (m # ms) s = seq m (\<lambda>_. block ms) s"
  by simp

lemma if_run [run_simps]: "(if b then m else n) s = (if b then m s else n s)"
  by simp

lemma run_run [run_simps]:
  "run K c s =
     Some (Done (), s\<lparr>world := snd (K c (world s)), trace := trace s @ [(c, fst (K c (world s)))]\<rparr>)"
  by (simp add: run_def run_simps)

lemma or_die_run [run_simps]:
  "or_die K c bad msg s =
     seq (sys K c) (\<lambda>r.
       if bad (r_ret r) then seq (run K (Perror msg)) (\<lambda>_. exit_with (-1)) else return r) s"
  by (simp add: or_die_def)

lemma must_run [run_simps]: "must K c bad msg s = seq (or_die K c bad msg) (\<lambda>_. return ()) s"
  by (simp add: must_def)

lemma may_fail_run [run_simps]:
  "may_fail K c bad msg s =
     seq (sys K c) (\<lambda>r. if bad (r_ret r) then run K (Perror msg) else return ()) s"
  by (simp add: may_fail_def)

lemma seq_assoc: "seq (seq m f) g = seq m (\<lambda>x. seq (f x) g)"
  by (rule ext) (simp add: seq_def split: option.split result.split)

lemma seq_return [simp]: "seq (return a) f = f a"
  by (rule ext) (simp add: run_simps)

lemma seq_DoneE:
  assumes "seq m f s = Some (Done b, u)"
  obtains a t where "m s = Some (Done a, t)" "f a t = Some (Done b, u)"
  using assms by (auto simp: seq_def split: option.splits result.splits)

lemma seq_Done: "m s = Some (Done a, t) \<Longrightarrow> seq m f s = f a t"
  by (simp add: seq_def)

section \<open>What a program asks of the kernel\<close>

text \<open>
  The association id differs from run to run (the kernel chooses it), so an option is recorded
  without it; so are sockets and addresses.
\<close>

datatype act =
    Sent cint "32 word" cushort "32 word"  \<comment> \<open>length, flags, stream, value\<close>
  | Opt sockopt optval
  | Ran string
  | Slept nat
  | Closed

fun anonymous :: "optval \<Rightarrow> optval" where
  "anonymous (Assoc_value a v) = Assoc_value 0 v"
| "anonymous (Stream_value a i v) = Stream_value 0 i v"
| "anonymous (Reset_streams a fl n) = Reset_streams 0 fl n"
| "anonymous (Assoc_id a) = Assoc_id 0"
| "anonymous v = v"

fun act_of :: "call \<Rightarrow> act list" where
  "act_of (Sendmsg fd len to ppid fl sid ttl ctx) = [Sent len fl sid ttl]"
| "act_of (Setsockopt fd opt v) = [Opt opt (anonymous v)]"
| "act_of (Shell cmd) = [Ran cmd]"
| "act_of (Sleep n) = [Slept n]"
| "act_of (Close fd) = [Closed]"
| "act_of _ = []"

definition acts :: "(call \<times> reply) list \<Rightarrow> act list" where
  "acts tr = concat (map (act_of \<circ> fst) tr)"

lemma acts_simps [simp]:
  "acts [] = []"
  "acts (x # tr) = act_of (fst x) @ acts tr"
  "acts (tr @ tr') = acts tr @ acts tr'"
  by (simp_all add: acts_def)

fun messages :: "act list \<Rightarrow> cint list" where
  "messages [] = []"
| "messages (Sent len fl sid v # as) = len # messages as"
| "messages (_ # as) = messages as"

lemma messages_append [simp]: "messages (as @ bs) = messages as @ messages bs"
  by (induction as rule: messages.induct) auto

lemma messages_replicate [simp]: "messages (replicate n (Sent len fl sid v)) = replicate n len"
  by (induction n) auto

section \<open>What a program learns from the kernel\<close>

datatype input = Arrived cint cushort | Learned cint

fun input_of :: "call \<Rightarrow> reply \<Rightarrow> input list" where
  "input_of (Recvmsg fd n) r = [Arrived (r_ret r) (r_stream r)]"
| "input_of (Getsockopt fd SCTP_GET_ASSOC_ID_LIST) r = [Learned (r_val r)]"
| "input_of _ r = []"

definition inputs :: "(call \<times> reply) list \<Rightarrow> input list" where
  "inputs tr = concat (map (case_prod input_of) tr)"

lemma inputs_simps [simp]:
  "inputs [] = []"
  "inputs ((c, r) # tr) = input_of c r @ inputs tr"
  "inputs (tr @ tr') = inputs tr @ inputs tr'"
  by (simp_all add: inputs_def)

fun arrivals :: "input list \<Rightarrow> (cint \<times> cushort) list" where
  "arrivals [] = []"
| "arrivals (Arrived len sid # xs) = (len, sid) # arrivals xs"
| "arrivals (Learned a # xs) = arrivals xs"

lemma arrivals_append [simp]: "arrivals (xs @ ys) = arrivals xs @ arrivals ys"
  by (induction xs rule: arrivals.induct) auto

section \<open>When a call succeeds\<close>

text \<open>The return values the documentation of each call gives for success.\<close>

fun succeeds :: "call \<Rightarrow> cint \<Rightarrow> bool" where
  "succeeds (Getaddrinfo h p) v = (v = 0)"
| "succeeds (Socket d t p) v = (\<not> negative v)"
| "succeeds (Setsockopt fd opt x) v = (v = 0)"
| "succeeds (Getsockopt fd opt) v = (v = 0)"
| "succeeds (Bind fd a) v = (v = 0)"
| "succeeds (Listen fd n) v = (v = 0)"
| "succeeds (Accept fd) v = (\<not> negative v)"
| "succeeds (Connect fd a) v = (v = 0)"
| "succeeds (Set_nonblocking fd) v = (v = 0)"
| "succeeds (Select fd) v = (0 < sint v)"
| "succeeds (Sendmsg fd len to ppid fl sid ttl ctx) v = (\<not> negative v)"
| "succeeds (Recvmsg fd n) v = (\<not> negative v)"
| "succeeds _ v = True"

definition failed :: "call \<times> reply \<Rightarrow> bool" where
  "failed x \<longleftrightarrow> \<not> succeeds (fst x) (r_ret (snd x))"

text \<open>Some call of a trace was one the kernel let fail.\<close>

definition broke :: "'w kernel \<Rightarrow> (call \<times> reply) list \<Rightarrow> bool" where
  "broke K tr \<longleftrightarrow> (\<exists>x \<in> set tr. failed x \<and> (\<exists>w. snd x = fst (K (fst x) w)))"

lemma broke_simps [simp]:
  "\<not> broke K []"
  "broke K (x # tr) \<longleftrightarrow> failed x \<and> (\<exists>w. snd x = fst (K (fst x) w)) \<or> broke K tr"
  "broke K (tr @ tr') \<longleftrightarrow> broke K tr \<or> broke K tr'"
  by (auto simp: broke_def)

lemma some_reply [simp]: "\<exists>w'. fst (K c w) = fst (K c w')"
  by blast

text \<open>A kernel on which no call fails.\<close>

definition all_succeed :: "'w kernel \<Rightarrow> bool" where
  "all_succeed K \<longleftrightarrow> (\<forall>c w. succeeds c (r_ret (fst (K c w))))"

lemma all_succeed_broke: "all_succeed K \<Longrightarrow> \<not> broke K tr"
  unfolding all_succeed_def broke_def failed_def by metis

lemma all_succeed_replies:
  assumes "all_succeed K"
  shows "r_ret (fst (K (Getaddrinfo h p) w)) = 0"
    and "\<not> negative (r_ret (fst (K (Socket d t u) w)))"
    and "r_ret (fst (K (Setsockopt fd opt x) w)) = 0"
    and "r_ret (fst (K (Bind fd a) w)) = 0"
    and "r_ret (fst (K (Listen fd n) w)) = 0"
    and "\<not> negative (r_ret (fst (K (Accept fd) w)))"
    and "r_ret (fst (K (Connect fd a) w)) = 0"
    and "r_ret (fst (K (Set_nonblocking fd) w)) = 0"
    and "0 < sint (r_ret (fst (K (Select fd) w)))"
    and "\<not> negative (r_ret (fst (K (Sendmsg fd len to ppid fl sid ttl ctx) w)))"
  using assms unfolding all_succeed_def by (metis succeeds.simps)+

text \<open>One that gives no news either.\<close>

definition quiet_kernel :: "unit kernel" where
  "quiet_kernel c w =
     (\<lparr>r_ret = case c of Select fd \<Rightarrow> 1 | _ \<Rightarrow> 0, r_errno = 0, r_val = 0, r_stream = 0, r_flags = 0,
       r_addr = [], r_family = AF_INET, r_time = 0\<rparr>, w)"

lemma quiet_kernel_all_succeed [simp]: "all_succeed quiet_kernel"
  unfolding all_succeed_def quiet_kernel_def by (auto split: call.split)

section \<open>The judgement \<open>emits\<close>\<close>

definition emits ::
  "'w kernel \<Rightarrow> ('c \<Rightarrow> bool) \<Rightarrow> ('c \<Rightarrow> bool) \<Rightarrow> ('c, 'w, 'a) prog \<Rightarrow> act list \<Rightarrow> bool" where
  "emits K P R m L \<longleftrightarrow>
     (\<forall>s. P (mem s) \<longrightarrow>
        (\<exists>r t tr. m s = Some (r, t) \<and> trace t = trace s @ tr \<and>
           (case r of
              Done a \<Rightarrow> R (mem t) \<and> acts tr = L
            | Exit e \<Rightarrow> e = -1 \<and> prefix (acts tr) L \<and> broke K tr
            | Fault _ \<Rightarrow> False)))"

lemma emitsI:
  assumes "\<And>s. P (mem s) \<Longrightarrow> \<exists>r t tr. m s = Some (r, t) \<and> trace t = trace s @ tr \<and>
     (case r of
        Done a \<Rightarrow> R (mem t) \<and> acts tr = L
      | Exit e \<Rightarrow> e = -1 \<and> prefix (acts tr) L \<and> broke K tr
      | Fault _ \<Rightarrow> False)"
  shows "emits K P R m L"
  using assms unfolding emits_def by blast

lemma emitsE:
  assumes "emits K P R m L" and "P (mem s)"
  obtains (Done) a t tr where "m s = Some (Done a, t)" "trace t = trace s @ tr"
      "R (mem t)" "acts tr = L"
    | (Exit) t tr where "m s = Some (Exit (-1), t)" "trace t = trace s @ tr"
      "prefix (acts tr) L" "broke K tr"
proof -
  obtain r t tr where *: "m s = Some (r, t)" "trace t = trace s @ tr"
    "case r of
        Done a \<Rightarrow> R (mem t) \<and> acts tr = L
      | Exit e \<Rightarrow> e = -1 \<and> prefix (acts tr) L \<and> broke K tr
      | Fault _ \<Rightarrow> False"
    using assms unfolding emits_def by blast
  then show thesis
    using that by (cases r) auto
qed

lemma emits_eq: "emits K P R m L \<Longrightarrow> L = L' \<Longrightarrow> emits K P R m L'"
  by simp

lemma emits_weaken:
  assumes m: "emits K P R m L" and pre: "\<And>x. P' x \<Longrightarrow> P x" and post: "\<And>x. R x \<Longrightarrow> R' x"
  shows "emits K P' R' m L"
proof (rule emitsI)
  fix s :: "('b, 'a) machine"
  assume "P' (mem s)"
  then have "P (mem s)" by (rule pre)
  with m show "\<exists>r t tr. m s = Some (r, t) \<and> trace t = trace s @ tr \<and>
     (case r of
        Done a \<Rightarrow> R' (mem t) \<and> acts tr = L
      | Exit e \<Rightarrow> e = -1 \<and> prefix (acts tr) L \<and> broke K tr
      | Fault _ \<Rightarrow> False)"
    by (cases rule: emitsE) (auto intro: post)
qed

lemma emits_return [emits_intro]: "emits K P P (return a) []"
  by (rule emitsI) (auto simp: run_simps)

lemma emits_seq [emits_intro]:
  assumes m: "emits K P Q m A" and f: "\<And>a. emits K Q R (f a) B"
  shows "emits K P R (seq m f) (A @ B)"
proof (rule emitsI)
  fix s :: "('b, 'a) machine"
  assume "P (mem s)"
  with m show "\<exists>r t tr. seq m f s = Some (r, t) \<and> trace t = trace s @ tr \<and>
     (case r of
        Done a \<Rightarrow> R (mem t) \<and> acts tr = A @ B
      | Exit e \<Rightarrow> e = -1 \<and> prefix (acts tr) (A @ B) \<and> broke K tr
      | Fault _ \<Rightarrow> False)"
  proof (cases rule: emitsE)
    case (Done a t tr)
    from f [of a] Done(3) show ?thesis
    proof (cases rule: emitsE)
      case (Done b u tr')
      with \<open>m s = Some (Done a, t)\<close> \<open>trace t = trace s @ tr\<close> \<open>acts tr = A\<close>
      show ?thesis by (simp add: run_simps)
    next
      case (Exit u tr')
      with \<open>m s = Some (Done a, t)\<close> \<open>trace t = trace s @ tr\<close> \<open>acts tr = A\<close>
      show ?thesis by (auto simp: run_simps)
    qed
  next
    case (Exit t tr)
    then show ?thesis by (simp add: run_simps)
  qed
qed

lemma emits_load:
  assumes f: "\<And>x. P x \<Longrightarrow> emits K (\<lambda>y. y = x) R (f x) L"
  shows "emits K P R (seq load f) L"
proof (rule emitsI)
  fix s :: "('a, 'b) machine"
  assume "P (mem s)"
  then have "emits K (\<lambda>y. y = mem s) R (f (mem s)) L" by (rule f)
  then show "\<exists>r t tr. seq load f s = Some (r, t) \<and> trace t = trace s @ tr \<and>
     (case r of
        Done a \<Rightarrow> R (mem t) \<and> acts tr = L
      | Exit e \<Rightarrow> e = -1 \<and> prefix (acts tr) L \<and> broke K tr
      | Fault _ \<Rightarrow> False)"
    unfolding emits_def by (auto simp: run_simps)
qed

lemma emits_load_weak:
  assumes f: "\<And>x. P x \<Longrightarrow> emits K P R (f x) L"
  shows "emits K P R (seq load f) L"
  by (rule emits_load, rule emits_weaken [OF f]) auto

lemma emits_load_any [emits_intro]: "emits K P P load []"
  by (rule emitsI) (auto simp: run_simps)

lemma emits_store:
  "(\<And>x. P x \<Longrightarrow> R (f x)) \<Longrightarrow> emits K P R (store f) []"
  by (rule emitsI) (auto simp: run_simps)

lemma emits_store_keep [emits_intro]:
  "(\<And>x. P x \<Longrightarrow> P (f x)) \<Longrightarrow> emits K P P (store f) []"
  by (rule emits_store)

lemma emits_sys [emits_intro]: "act_of c = A \<Longrightarrow> emits K P P (sys K c) A"
  by (rule emitsI) (auto simp: run_simps)

lemma emits_run [emits_intro]: "act_of c = A \<Longrightarrow> emits K P P (run K c) A"
  by (rule emitsI) (auto simp: run_simps)

lemma emits_or_die [emits_intro]:
  "(\<And>v. bad v \<Longrightarrow> \<not> succeeds c v) \<Longrightarrow> act_of c = A \<Longrightarrow>
   emits K P P (or_die K c bad msg) A"
  by (rule emitsI) (auto simp: run_simps failed_def)

lemma emits_must [emits_intro]:
  "(\<And>v. bad v \<Longrightarrow> \<not> succeeds c v) \<Longrightarrow> act_of c = A \<Longrightarrow>
   emits K P P (must K c bad msg) A"
  by (rule emitsI) (auto simp: run_simps failed_def)

lemma emits_may_fail [emits_intro]: "act_of c = A \<Longrightarrow> emits K P P (may_fail K c bad msg) A"
  by (rule emitsI) (auto simp: run_simps)

lemma emits_block_Nil [emits_intro]: "emits K P P (block []) []"
  by (simp add: emits_return)

lemma emits_block_Cons [emits_intro]:
  "emits K P Q m A \<Longrightarrow> emits K Q R (block ms) B \<Longrightarrow> emits K P R (block (m # ms)) (A @ B)"
  unfolding block.simps by (rule emits_seq)

lemma emits_repeat [emits_intro]:
  assumes "emits K P P m A"
  shows "emits K P P (repeat_loop n m) (concat (replicate n A))"
proof (induction n)
  case 0
  show ?case by (simp add: emits_return)
next
  case (Suc n)
  with emits_seq [OF assms] show ?case by simp
qed

lemma emits_block_map:
  assumes "\<And>x. x \<in> set xs \<Longrightarrow> emits K P P (f x) (A x)"
  shows "emits K P P (block (map f xs)) (concat (map A xs))"
  using assms
proof (induction xs)
  case Nil
  show ?case by (simp add: emits_return)
next
  case (Cons x xs)
  have "emits K P P (f x) (A x)" and "emits K P P (block (map f xs)) (concat (map A xs))"
    using Cons by auto
  then show ?case by (simp add: emits_seq)
qed

lemma emits_for [emits_intro]:
  "(\<And>i. a \<le> i \<Longrightarrow> i < b \<Longrightarrow> emits K P P (f i) (A i)) \<Longrightarrow>
   emits K P P (for_loop a b f) (concat (map A [a..<b]))"
  unfolding for_loop_def by (rule emits_block_map) auto

lemma emits_if: "(b \<Longrightarrow> emits K P R m L) \<Longrightarrow> (\<not> b \<Longrightarrow> emits K P R m' L) \<Longrightarrow>
  emits K P R (if b then m else m') L"
  by simp

text \<open>Two threads perform an interleaving of what each performs.\<close>

lemma list_all2_interleave:
  assumes "list_all2 R xs as" and "list_all2 R ys bs"
  shows "list_all2 R (interleave sched xs ys) (interleave sched as bs)"
  using assms
proof (induction sched xs ys arbitrary: as bs rule: interleave.induct)
  case (1 xs ys)
  then show ?case by (simp add: list_all2_appendI)
next
  case (2 b sched ys)
  then show ?case by simp
next
  case (3 b sched x xs)
  then show ?case by (cases as) auto
next
  case (4 b sched x xs y ys)
  then show ?case by (cases as; cases bs) auto
qed

lemma emits_statements:
  "list_all2 (emits K P P) ms As \<Longrightarrow> emits K P P (block ms) (concat As)"
proof (induction rule: list_all2_induct)
  case Nil
  show ?case by (simp add: emits_return)
next
  case (Cons m ms A As)
  then show ?case by (simp add: emits_seq)
qed

lemma emits_in_parallel:
  "list_all2 (emits K P P) xs As \<Longrightarrow> list_all2 (emits K P P) ys Bs \<Longrightarrow>
   emits K P P (in_parallel sched xs ys) (concat (interleave sched As Bs))"
  unfolding in_parallel_def by (intro emits_statements list_all2_interleave)

text \<open>What \<open>emits\<close> says of a whole run.\<close>

lemma seq_return_value: "seq m (\<lambda>_. return v) s = Some (Done a, t) \<Longrightarrow> a = v"
  by (auto elim!: seq_DoneE simp: return_run)

lemma emits_whole_run:
  assumes "emits K (\<lambda>_. True) R m L" and "\<And>a t. m s = Some (Done a, t) \<Longrightarrow> a = v"
  shows "\<exists>r t tr. m s = Some (r, t) \<and> trace t = trace s @ tr \<and>
    (case r of
       Done x \<Rightarrow> x = v \<and> acts tr = L
     | Exit e \<Rightarrow> e = -1 \<and> prefix (acts tr) L \<and> broke K tr
     | Fault _ \<Rightarrow> False)"
  using assms(1) TrueI by (cases rule: emitsE [where s = s]) (simp_all add: assms(2))

lemma emits_part:
  assumes "emits K (\<lambda>_. True) R m L"
  shows "\<exists>r t tr. m s = Some (r, t) \<and> trace t = trace s @ tr \<and> prefix (acts tr) L \<and>
    (\<forall>a. r = Done a \<longrightarrow> acts tr = L)"
  using assms TrueI by (cases rule: emitsE [where s = s]) auto

lemma emits_completes:
  assumes "emits K (\<lambda>_. True) R m L" and "all_succeed K"
    and "\<And>a t. m s = Some (Done a, t) \<Longrightarrow> a = v"
  shows "\<exists>t tr. m s = Some (Done v, t) \<and> trace t = trace s @ tr \<and> acts tr = L"
  using assms(1) TrueI
  by (cases rule: emitsE [where s = s]) (auto simp: assms(3) all_succeed_broke [OF assms(2)])

lemma emits_goes_on:
  assumes "emits K P R m L" and "all_succeed K" and "P (mem s)"
  obtains a t where "m s = Some (Done a, t)" and "R (mem t)"
  using assms(1,3) by (cases rule: emitsE) (auto simp: all_succeed_broke [OF assms(2)])

lemma emits_DoneD:
  "emits K P R m L \<Longrightarrow> P (mem s) \<Longrightarrow> m s = Some (Done a, t) \<Longrightarrow>
   \<exists>tr. trace t = trace s @ tr \<and> acts tr = L"
  by (erule (1) emitsE) auto

lemma emits_total: "emits K P R m L \<Longrightarrow> P (mem s) \<Longrightarrow> m s \<noteq> None"
  by (erule (1) emitsE) auto

section \<open>The firewall\<close>

text \<open>
  The programs drive \<open>iptables\<close> through \<open>system\<close>: \<open>-A\<close> appends a rule, \<open>-F\<close> flushes them all.
  The rules left after a sequence of actions:
\<close>

fun rules_after :: "string list \<Rightarrow> act list \<Rightarrow> string list" where
  "rules_after rs [] = rs"
| "rules_after rs (Ran cmd # as) =
     rules_after (if cmd = ''iptables -F'' then []
                  else if prefix ''iptables -A '' cmd then rs @ [cmd]
                  else rs) as"
| "rules_after rs (_ # as) = rules_after rs as"

lemma rules_after_append [simp]: "rules_after rs (as @ bs) = rules_after (rules_after rs as) bs"
  by (induction rs as rule: rules_after.induct) auto

lemma rules_after_replicate [simp]:
  "rules_after rs (replicate n (Sent len fl sid v)) = rs"
  by (induction n) auto

text \<open>The shell commands of a script, on which alone the rules depend.\<close>

fun shell_of :: "act list \<Rightarrow> string list" where
  "shell_of [] = []"
| "shell_of (Ran c # as) = c # shell_of as"
| "shell_of (_ # as) = shell_of as"

lemma shell_of_append [simp]: "shell_of (as @ bs) = shell_of as @ shell_of bs"
  by (induction as rule: shell_of.induct) auto

lemma shell_of_replicate [simp]: "shell_of (replicate n (Sent len fl sid v)) = []"
  by (induction n) auto

lemma shell_of_concat: "shell_of (concat xss) = concat (map shell_of xss)"
  by (induction xss) auto

lemma rules_after_shell: "rules_after rs as = rules_after rs (map Ran (shell_of as))"
  by (induction rs as rule: rules_after.induct) auto

lemma messages_concat: "messages (concat xss) = concat (map messages xss)"
  by (induction xss) auto

text \<open>A prefix of a script runs a prefix of its commands, and sends a prefix of its messages.\<close>

lemma messages_prefix: "prefix as bs \<Longrightarrow> prefix (messages as) (messages bs)"
  by (auto elim!: prefixE)

lemma shell_of_prefix: "prefix as bs \<Longrightarrow> prefix (shell_of as) (shell_of bs)"
  by (auto elim!: prefixE)

section \<open>Loops without a bound\<close>

lemmas iter_induct = iter.raw_induct [where xa = "((body, x), s)" and y = "(r, t)", simplified]
  for body x s r t

text \<open>What a loop has done when it is left, from what each round does.\<close>

lemma iter_rounds:
  assumes run: "iter body x s = Some (Done y, t)"
    and again: "\<And>x x' s u. body x s = Some (Done (Inl x'), u) \<Longrightarrow>
       \<exists>tr. trace u = trace s @ tr \<and> R A tr A"
    and leave: "\<And>x y s u. body x s = Some (Done (Inr y), u) \<Longrightarrow>
       \<exists>tr. trace u = trace s @ tr \<and> R A tr B"
    and compose: "\<And>tr tr' C. R A tr A \<Longrightarrow> R A tr' C \<Longrightarrow> R A (tr @ tr') C"
  shows "\<exists>tr. trace t = trace s @ tr \<and> R A tr B"
proof -
  let ?P = "\<lambda>b x s p. b = body \<longrightarrow> (\<forall>y. fst p = Done y \<longrightarrow>
    (\<exists>tr. trace (snd p) = trace s @ tr \<and> R A tr B))"
  have "?P body x s (Done y, t)"
  proof (rule iter_induct [where P = ?P, OF _ run], intro impI allI)
    fix it b x s p y
    assume IH: "\<And>b x s p. it b x s = Some p \<Longrightarrow> b = body \<longrightarrow> (\<forall>y. fst p = Done y \<longrightarrow>
        (\<exists>tr. trace (snd p) = trace s @ tr \<and> R A tr B))"
      and eq: "(case b x s of
          None \<Rightarrow> None
        | Some (r, t) \<Rightarrow>
            (case r of
               Done v \<Rightarrow> (case v of Inl x' \<Rightarrow> it b x' t | Inr y \<Rightarrow> Some (Done y, t))
             | Exit e \<Rightarrow> Some (Exit e, t)
             | Fault f \<Rightarrow> Some (Fault f, t))) = Some p"
      and b: "b = body" and p: "fst p = Done y"
    from eq p obtain v u where one: "body x s = Some (Done v, u)"
      and rest: "(case v of Inl x' \<Rightarrow> it body x' u | Inr y \<Rightarrow> Some (Done y, u)) = Some p"
      unfolding b by (auto split: option.splits result.splits prod.splits)
    show "\<exists>tr. trace (snd p) = trace s @ tr \<and> R A tr B"
    proof (cases v)
      case (Inl x')
      from again [OF one [unfolded Inl]] obtain tr where tr: "trace u = trace s @ tr" "R A tr A"
        by blast
      from rest Inl have "it body x' u = Some p" by simp
      from IH [OF this] p obtain tr' where "trace (snd p) = trace u @ tr'" "R A tr' B" by blast
      with tr compose show ?thesis by (intro exI [of _ "tr @ tr'"]) simp
    next
      case (Inr z)
      with rest have "snd p = u" by auto
      with leave [OF one [unfolded Inr]] show ?thesis by simp
    qed
  qed
  then show ?thesis by simp
qed

section \<open>Descriptors\<close>

text \<open>The descriptors that calls of \<open>socket\<close> gave, and those handed to \<open>close\<close>, in order.\<close>

fun opened :: "(call \<times> reply) list \<Rightarrow> cint list" where
  "opened [] = []"
| "opened ((Socket d t p, r) # tr) = (if r_ret r = -1 then opened tr else r_ret r # opened tr)"
| "opened (_ # tr) = opened tr"

fun closed :: "(call \<times> reply) list \<Rightarrow> cint list" where
  "closed [] = []"
| "closed ((Close fd, r) # tr) = fd # closed tr"
| "closed (_ # tr) = closed tr"

lemma opened_append [simp]: "opened (tr @ tr') = opened tr @ opened tr'"
  by (induction tr rule: opened.induct) auto

lemma closed_append [simp]: "closed (tr @ tr') = closed tr @ closed tr'"
  by (induction tr rule: closed.induct) auto

end
