(* ===== verification/Cmd_Server.thy ===== *)
theory Cmd_Server
  imports C_Logic
begin

text \<open>
  The command protocol of the three conformance programs. A message carries a command by its
  length alone: 11 asks the server to enable stream resets, 12 ends the run, any other length is
  data to be checked; the server answers commands with a message of 13 bytes. The server's loop
  is the same in the three programs and relies on one iteration to take exactly one message and
  to keep its verdict as a fold over what it learned: that contract is the locale
  \<open>cmd_server\<close>, and \<open>live_server\<close> adds that the loop makes progress on a kernel that delivers.
\<close>

definition SN_CMD_SET_STRRESET :: cint where "SN_CMD_SET_STRRESET = 11"
definition SN_CMD_CLOSE_ASOC :: cint where "SN_CMD_CLOSE_ASOC = 12"
definition SN_CMD_ACK :: cint where "SN_CMD_ACK = 13"

lemmas sn_cmds = SN_CMD_SET_STRRESET_def SN_CMD_CLOSE_ASOC_def SN_CMD_ACK_def

section \<open>The loop\<close>

lemma while_nonneg_unfold:
  "while_nonneg step cmd s =
     (if negative cmd then Some (Done (), s)
      else case step s of
        None \<Rightarrow> None
      | Some (r, t) \<Rightarrow>
          (case r of
             Done cmd' \<Rightarrow> while_nonneg step cmd' t
           | Exit e \<Rightarrow> Some (Exit e, t)
           | Fault x \<Rightarrow> Some (Fault x, t)))"
  unfolding while_nonneg_def
  by (subst iter.simps) (auto simp: run_simps split: option.split result.split)

lemma while_nonneg_induct [consumes 1, case_names stop again exits faults]:
  assumes run: "while_nonneg step cmd s = Some (r, t)"
    and stop: "\<And>cmd s. negative cmd \<Longrightarrow> Q cmd s (Done ()) s"
    and again: "\<And>cmd cmd' s u r t. \<not> negative cmd \<Longrightarrow> step s = Some (Done cmd', u) \<Longrightarrow>
       Q cmd' u r t \<Longrightarrow> Q cmd s r t"
    and exits: "\<And>cmd s e t. \<not> negative cmd \<Longrightarrow> step s = Some (Exit e, t) \<Longrightarrow> Q cmd s (Exit e) t"
    and faults: "\<And>cmd s x t. \<not> negative cmd \<Longrightarrow> step s = Some (Fault x, t) \<Longrightarrow> Q cmd s (Fault x) t"
  shows "Q cmd s r t"
proof -
  let ?body = "\<lambda>cmd. if negative cmd then return (Inr ()) else seq step (\<lambda>cmd'. return (Inl cmd'))"
  let ?P = "\<lambda>body cmd s p. body = ?body \<longrightarrow> Q cmd s (fst p) (snd p)"
  have "?P ?body cmd s (r, t)"
  proof (rule iter_induct [where P = ?P, OF _ run [unfolded while_nonneg_def]], intro impI)
    fix it body cmd s p
    assume IH: "\<And>b x s p. it b x s = Some p \<Longrightarrow> b = ?body \<longrightarrow> Q x s (fst p) (snd p)"
      and eq: "(case body cmd s of
          None \<Rightarrow> None
        | Some (r, t) \<Rightarrow>
            (case r of
               Done v \<Rightarrow> (case v of Inl x' \<Rightarrow> it body x' t | Inr y \<Rightarrow> Some (Done y, t))
             | Exit e \<Rightarrow> Some (Exit e, t)
             | Fault f \<Rightarrow> Some (Fault f, t))) = Some p"
      and body: "body = ?body"
    show "Q cmd s (fst p) (snd p)"
    proof (cases "negative cmd")
      case True
      with eq body have "p = (Done (), s)" by (auto simp: run_simps)
      with True stop show ?thesis by simp
    next
      case False
      show ?thesis
      proof (cases "step s")
        case None
        with eq body False show ?thesis by (auto simp: run_simps)
      next
        case (Some q)
        obtain r' u where q: "q = (r', u)" by (cases q)
        show ?thesis
        proof (cases r')
          case (Done cmd')
          with eq body False Some q have "it ?body cmd' u = Some p"
            by (auto simp: run_simps)
          from IH [OF this] again False Some q Done show ?thesis by blast
        next
          case (Exit e)
          with eq body False Some q have "p = (Exit e, u)" by (auto simp: run_simps)
          with exits False Some q Exit show ?thesis by simp
        next
          case (Fault x)
          with eq body False Some q have "p = (Fault x, u)" by (auto simp: run_simps)
          with faults False Some q Fault show ?thesis by simp
        qed
      qed
    qed
  qed
  then show ?thesis by simp
qed

section \<open>The contract of one iteration\<close>

text \<open>A message after which the loop stops: the close command, or a negative length.\<close>

definition closing :: "cint \<Rightarrow> bool" where
  "closing len \<longleftrightarrow> len = SN_CMD_CLOSE_ASOC \<or> negative len"

text \<open>The messages of a run: some that do not close, and then one that does.\<close>

definition session :: "(cint \<times> cushort) list \<Rightarrow> bool" where
  "session ms \<longleftrightarrow>
     ms \<noteq> [] \<and> closing (fst (last ms)) \<and> list_all (\<lambda>m. \<not> closing (fst m)) (butlast ms)"

lemma session_single [simp]: "session [m] \<longleftrightarrow> closing (fst m)"
  by (simp add: session_def)

lemma session_Cons: "ms \<noteq> [] \<Longrightarrow> session (m # ms) \<longleftrightarrow> \<not> closing (fst m) \<and> session ms"
  by (auto simp: session_def)

lemma session_script:
  assumes "map fst ms = ls @ [SN_CMD_CLOSE_ASOC]" and "list_all (\<lambda>l. \<not> closing l) ls"
  shows "session ms" and "fst (last ms) = SN_CMD_CLOSE_ASOC"
proof -
  have ne: "ms \<noteq> []" using assms(1) by auto
  show last: "fst (last ms) = SN_CMD_CLOSE_ASOC"
    using assms(1) ne by (simp flip: last_map)
  have "butlast (map fst ms) = ls" by (simp add: assms(1))
  with assms(2) have "list_all (\<lambda>l. \<not> closing l) (map fst (butlast ms))"
    by (simp add: map_butlast)
  with ne last show "session ms"
    by (simp add: session_def closing_def list_all_iff)
qed

text \<open>The lengths of the data messages among those that arrived.\<close>

definition data_lengths :: "(cint \<times> cushort) list \<Rightarrow> clong list" where
  "data_lengths ms =
     map (to_long \<circ> fst) (filter (\<lambda>m. fst m \<notin> {SN_CMD_SET_STRRESET, SN_CMD_CLOSE_ASOC}) ms)"

lemma data_lengths_map:
  "data_lengths ms =
     map to_long (filter (\<lambda>l. l \<notin> {SN_CMD_SET_STRRESET, SN_CMD_CLOSE_ASOC}) (map fst ms))"
  by (simp add: data_lengths_def filter_map o_def)

text \<open>The kernel tells an association id only after a request to enable resets.\<close>

definition quiet :: "input list \<Rightarrow> bool" where
  "quiet xs \<longleftrightarrow>
     (\<forall>x \<in> set xs. case x of Learned a \<Rightarrow> SN_CMD_SET_STRRESET \<in> fst ` set (arrivals xs) | _ \<Rightarrow> True)"

lemma quiet_append: "quiet xs \<Longrightarrow> quiet ys \<Longrightarrow> quiet (xs @ ys)"
  unfolding quiet_def by (auto split: input.splits)

lemma quiet_Nil [simp]: "quiet []"
  by (simp add: quiet_def)

lemma quiet_all_arrived:
  assumes "quiet xs" and "SN_CMD_SET_STRRESET \<notin> fst ` set (arrivals xs)"
  shows "xs = map (\<lambda>m. Arrived (fst m) (snd m)) (arrivals xs)"
proof -
  have "list_all (\<lambda>x. \<exists>l i. x = Arrived l i) xs"
    using assms by (auto simp: quiet_def list_all_iff split: input.splits) (metis input.exhaust)
  then show ?thesis by (induction xs rule: arrivals.induct) auto
qed

locale cmd_server =
  fixes step :: "('c, 'w, cint) prog"
    and view :: "'c \<Rightarrow> 'v"
    and upd :: "'v \<Rightarrow> input \<Rightarrow> 'v"
  assumes step_law:
    "step s = Some (Done cmd, t) \<Longrightarrow>
       \<exists>tr len sid xs. trace t = trace s @ tr \<and> inputs tr = Arrived len sid # xs \<and>
         arrivals xs = [] \<and> quiet (inputs tr) \<and> view (mem t) = foldl upd (view (mem s)) (inputs tr) \<and>
         (negative cmd \<longleftrightarrow> closing len)"
begin

lemma serve_aux:
  assumes "while_nonneg step cmd s = Some (r, t)"
  shows "r = Done () \<longrightarrow> (\<exists>tr. trace t = trace s @ tr \<and>
     view (mem t) = foldl upd (view (mem s)) (inputs tr) \<and> quiet (inputs tr) \<and>
     (if negative cmd then inputs tr = [] else session (arrivals (inputs tr))))"
  using assms
proof (induction rule: while_nonneg_induct)
  case (stop cmd s)
  then show ?case by (intro impI exI [of _ "[]"]) simp
next
  case (again cmd cmd' s u r t)
  show ?case
  proof
    assume ok: "r = Done ()"
    from step_law [OF again(2)] obtain tr len sid xs where one:
      "trace u = trace s @ tr" "inputs tr = Arrived len sid # xs" "arrivals xs = []"
      "quiet (inputs tr)" "view (mem u) = foldl upd (view (mem s)) (inputs tr)" "negative cmd' \<longleftrightarrow> closing len"
      by blast
    from again(3) ok obtain tr' where rest:
      "trace t = trace u @ tr'" "view (mem t) = foldl upd (view (mem u)) (inputs tr')"
      "quiet (inputs tr')" "if negative cmd' then inputs tr' = [] else session (arrivals (inputs tr'))"
      by blast
    have "session (arrivals (inputs (tr @ tr')))"
    proof (cases "negative cmd'")
      case True
      with one rest show ?thesis by simp
    next
      case False
      then have ne: "arrivals (inputs tr') \<noteq> []" using rest by (auto simp: session_def)
      from False one rest show ?thesis by (simp add: session_Cons [OF ne])
    qed
    with one rest again(1) quiet_append [OF one(4) rest(3)] show "\<exists>tr. trace t = trace s @ tr \<and>
        view (mem t) = foldl upd (view (mem s)) (inputs tr) \<and> quiet (inputs tr) \<and>
        (if negative cmd then inputs tr = [] else session (arrivals (inputs tr)))"
      by (intro exI [of _ "tr @ tr'"]) simp
  qed
qed simp_all

lemma serve:
  assumes "while_nonneg step 0 s = Some (Done (), t)"
  obtains tr where "trace t = trace s @ tr" "session (arrivals (inputs tr))"
    "view (mem t) = foldl upd (view (mem s)) (inputs tr)" "quiet (inputs tr)"
  using serve_aux [OF assms] by auto

end

section \<open>Progress on a kernel that delivers\<close>

text \<open>
  The service a server needs of the kernel, as documented: every call succeeds, and
  \<open>sctp_recvmsg\<close> returns the next of the messages that are on their way, or fails when there are
  none. \<open>inbox\<close> says which messages those are in a state of the kernel.
\<close>

fun is_recv :: "call \<Rightarrow> bool" where
  "is_recv (Recvmsg fd n) = True"
| "is_recv _ = False"

definition delivers :: "'w kernel \<Rightarrow> ('w \<Rightarrow> (cint \<times> cushort) list) \<Rightarrow> bool" where
  "delivers K inbox \<longleftrightarrow>
     (\<forall>w fd n. case inbox w of
        [] \<Rightarrow> r_ret (fst (K (Recvmsg fd n) w)) = -1 \<and> inbox (snd (K (Recvmsg fd n) w)) = []
      | m # ms \<Rightarrow> r_ret (fst (K (Recvmsg fd n) w)) = fst m \<and>
          r_stream (fst (K (Recvmsg fd n) w)) = snd m \<and> inbox (snd (K (Recvmsg fd n) w)) = ms) \<and>
     (\<forall>w c. \<not> is_recv c \<longrightarrow>
        succeeds c (r_ret (fst (K c w))) \<and> inbox (snd (K c w)) = inbox w)"

lemma delivers_recv:
  assumes "delivers K inbox" and "inbox w = m # ms"
  shows "r_ret (fst (K (Recvmsg fd n) w)) = fst m"
    and "r_stream (fst (K (Recvmsg fd n) w)) = snd m"
    and "inbox (snd (K (Recvmsg fd n) w)) = ms"
proof -
  from assms(1) have "case inbox w of
        [] \<Rightarrow> r_ret (fst (K (Recvmsg fd n) w)) = -1 \<and> inbox (snd (K (Recvmsg fd n) w)) = []
      | m # ms \<Rightarrow> r_ret (fst (K (Recvmsg fd n) w)) = fst m \<and>
          r_stream (fst (K (Recvmsg fd n) w)) = snd m \<and> inbox (snd (K (Recvmsg fd n) w)) = ms"
    unfolding delivers_def by blast
  with assms(2) show "r_ret (fst (K (Recvmsg fd n) w)) = fst m"
    and "r_stream (fst (K (Recvmsg fd n) w)) = snd m"
    and "inbox (snd (K (Recvmsg fd n) w)) = ms"
    by simp_all
qed

lemma delivers_other:
  assumes "delivers K inbox" and "\<not> is_recv c"
  shows "succeeds c (r_ret (fst (K c w)))" and "inbox (snd (K c w)) = inbox w"
  using assms unfolding delivers_def by blast+

text \<open>
  The simplest such kernel, at which the witnesses are evaluated: its state is the list of
  messages on their way, and every other call succeeds.
\<close>

definition reply_with :: "cint \<Rightarrow> cushort \<Rightarrow> reply" where
  "reply_with v sid = \<lparr>r_ret = v, r_errno = 0, r_val = 7, r_stream = sid, r_flags = 0, r_addr = [],
     r_family = AF_INET, r_time = 0\<rparr>"

fun mailbox :: "(cint \<times> cushort) list kernel" where
  "mailbox (Recvmsg fd n) [] = (reply_with (-1) 0, [])"
| "mailbox (Recvmsg fd n) (m # ms) = (reply_with (fst m) (snd m), ms)"
| "mailbox (Select fd) ms = (reply_with 1 0, ms)"
| "mailbox c ms = (reply_with 0 0, ms)"

lemma mailbox_delivers: "delivers mailbox (\<lambda>ms. ms)"
proof -
  have "succeeds c (r_ret (fst (mailbox c w))) \<and> snd (mailbox c w) = w" if "\<not> is_recv c" for c w
    using that by (cases c) (auto simp: reply_with_def)
  then show ?thesis
    unfolding delivers_def by (auto simp: reply_with_def split: list.split)
qed

text \<open>How many of the messages are data, for the check.\<close>

definition due :: "(cint \<times> cushort) list \<Rightarrow> nat" where
  "due ms = length (data_lengths ms)"

lemma due_Nil [simp]: "due [] = 0"
  by (simp add: due_def data_lengths_def)

lemma due_Cons: "due (m # ms) =
    (if fst m \<in> {SN_CMD_SET_STRRESET, SN_CMD_CLOSE_ASOC} then due ms else Suc (due ms))"
  by (simp add: due_def data_lengths_def)

locale live_server = cmd_server step view upd
  for step :: "('c, 'w, cint) prog" and view :: "'c \<Rightarrow> 'v" and upd :: "'v \<Rightarrow> input \<Rightarrow> 'v" +
  fixes K :: "'w kernel"
    and inbox :: "'w \<Rightarrow> (cint \<times> cushort) list"
    and ready :: "nat \<Rightarrow> 'c \<Rightarrow> bool"
  assumes progress:
    "delivers K inbox \<Longrightarrow> inbox (world s) = m # ms \<Longrightarrow> fst m \<noteq> -1 \<Longrightarrow>
       ready (due (m # ms)) (mem s) \<Longrightarrow>
       \<exists>cmd t tr xs. step s = Some (Done cmd, t) \<and> trace t = trace s @ tr \<and>
         inputs tr = Arrived (fst m) (snd m) # xs \<and> inbox (world t) = ms \<and> ready (due ms) (mem t)"
begin

lemma answers:
  assumes "delivers K inbox" and "inbox (world s) = ms" and "session ms"
    and "fst (last ms) \<noteq> -1" and "ready (due ms) (mem s)" and "\<not> negative cmd"
  shows "\<exists>t tr. while_nonneg step cmd s = Some (Done (), t) \<and> trace t = trace s @ tr \<and>
     arrivals (inputs tr) = ms"
  using assms(2-)
proof (induction ms arbitrary: s cmd)
  case Nil
  then show ?case by (simp add: session_def)
next
  case (Cons m ms)
  have m: "fst m \<noteq> -1"
    using Cons.prems by (cases ms) (auto simp: session_Cons closing_def)
  from progress [OF assms(1) Cons.prems(1) m Cons.prems(4)] obtain cmd' t tr xs where one: "step s = Some (Done cmd', t)" "trace t = trace s @ tr"
    "inputs tr = Arrived (fst m) (snd m) # xs" "inbox (world t) = ms" "ready (due ms) (mem t)"
    by blast
  have law: "arrivals xs = [] \<and> (negative cmd' \<longleftrightarrow> closing (fst m))"
    using step_law [OF one(1)] one(2,3) by auto
  show ?case
  proof (cases "ms = []")
    case True
    with Cons.prems law one show ?thesis
      by (auto simp: while_nonneg_unfold [of step cmd] while_nonneg_unfold [of step cmd'])
  next
    case False
    with Cons.prems law have "session ms" "\<not> negative cmd'" "fst (last ms) \<noteq> -1"
      by (auto simp: session_Cons)
    from Cons.IH [OF one(4) this(1,3) one(5) this(2)] obtain u tr' where
      "while_nonneg step cmd' t = Some (Done (), u)" "trace u = trace t @ tr'"
      "arrivals (inputs tr') = ms"
      by blast
    with Cons.prems(5) law one show ?thesis
      by (auto simp: while_nonneg_unfold [of step cmd])
  qed
qed

end

end
