(* ===== verification/Sn_Socket.thy ===== *)
theory Sn_Socket
  imports Cmd_Server
begin

text \<open>
  What the three conformance programs (\<open>strreset.c\<close>, \<open>sctp_pr.c\<close>, \<open>sctp_ndata.c\<close>) have in common,
  word for word: the context structure, the creation of the two kinds of sockets, the socket
  options, the exchange of commands and \<open>main\<close>. The definitions are taken from \<open>strreset.c\<close>; the
  theories of the other two programs name their copies. A difference between the copies (a mask,
  an expected length) is a parameter here.
\<close>

section \<open>The context\<close>

text \<open>
  \<open>struct sn_context\<close>. The four elements of \<open>cb\<close> are fields of their own. \<open>tail\<close> is the 8 bytes that
  follow \<open>cb[3]\<close> in memory (offset 40): the 4 bytes of \<open>asoc_id\<close> in its low half and the padding
  before the pointer \<open>sri\<close> in its high half. The element of \<open>*sri\<close> the programs read and the
  address \<open>*serv\<close> are held in the record; the bytes of the address buffer past the address are not.
\<close>

record sn_context =
  sn_fd :: cint
  sn_c :: cint
  sn_cb0 :: clong
  sn_cb1 :: clong
  sn_cb2 :: clong
  sn_cb3 :: clong
  sn_tail :: clong
  sn_sri_stream :: cushort
  sn_serv :: bytes

type_synonym ('w, 'a) sn = "(sn_context, 'w, 'a) prog"

definition zero_context :: sn_context where
  "zero_context = \<lparr>sn_fd = 0, sn_c = 0, sn_cb0 = 0, sn_cb1 = 0, sn_cb2 = 0, sn_cb3 = 0,
     sn_tail = 0, sn_sri_stream = 0, sn_serv = []\<rparr>"

definition asoc_id :: "sn_context \<Rightarrow> cint" where
  "asoc_id snc = ucast (sn_tail snc)"

definition set_asoc_id :: "cint \<Rightarrow> sn_context \<Rightarrow> sn_context" where
  "set_asoc_id v snc =
     snc\<lparr>sn_tail := push_bit 32 (drop_bit 32 (sn_tail snc)) OR ucast v\<rparr>"

lemma asoc_id_set [simp]: "asoc_id (set_asoc_id v snc) = v"
  by (rule bit_word_eqI) (auto simp: asoc_id_def set_asoc_id_def bit_simps)

lemma set_asoc_id_fields [simp]:
  "sn_fd (set_asoc_id v snc) = sn_fd snc" "sn_c (set_asoc_id v snc) = sn_c snc"
  "sn_cb0 (set_asoc_id v snc) = sn_cb0 snc" "sn_cb1 (set_asoc_id v snc) = sn_cb1 snc"
  "sn_cb2 (set_asoc_id v snc) = sn_cb2 snc" "sn_cb3 (set_asoc_id v snc) = sn_cb3 snc"
  by (simp_all add: set_asoc_id_def)

section \<open>Socket options\<close>

text \<open>Flags of the kernel's interface (\<open>linux/sctp.h\<close>).\<close>

definition SCTP_STREAM_RESET_OUTGOING :: cushort where "SCTP_STREAM_RESET_OUTGOING = 2"
definition SCTP_ENABLE_RESET_STREAM_REQ :: "32 word" where "SCTP_ENABLE_RESET_STREAM_REQ = 1"

definition sn_get_asoc_id :: "'w kernel \<Rightarrow> cint \<Rightarrow> ('w, cint) sn" where
  "sn_get_asoc_id K fd =
     seq (or_die K (Getsockopt fd SCTP_GET_ASSOC_ID_LIST) (\<lambda>v. v \<noteq> 0) ''getsockopt'')
       (\<lambda>r. return (r_val r))"

definition sn_do_setup_frag_interleave :: "'w kernel \<Rightarrow> ('w, unit) sn" where
  "sn_do_setup_frag_interleave K =
     seq load (\<lambda>snc.
       must K (Setsockopt (sn_fd snc) SCTP_FRAGMENT_INTERLEAVE (Int_value 1))
         (\<lambda>v. v \<noteq> 0) ''setsockopt'')"

definition sn_do_setup_strm_interleave :: "'w kernel \<Rightarrow> ('w, unit) sn" where
  \<comment> \<open>\<open>sizeof(struct sctp_assoc_value)\<close> is 8; a failure is reported and ignored\<close>
  "sn_do_setup_strm_interleave K =
     seq load (\<lambda>snc.
       may_fail K (Setsockopt (sn_fd snc) SCTP_INTERLEAVING_SUPPORTED (Assoc_value (asoc_id snc) 8))
         (\<lambda>v. v \<noteq> 0) ''setsockopt'')"

definition sn_enable_asoc_strreset :: "'w kernel \<Rightarrow> 32 word \<Rightarrow> ('w, unit) sn" where
  "sn_enable_asoc_strreset K features =
     seq load (\<lambda>snc.
       seq (sn_get_asoc_id K (sn_fd snc)) (\<lambda>id.
         block [
           store (set_asoc_id id),
           seq load (\<lambda>snc.
             must K (Setsockopt (sn_fd snc) SCTP_ENABLE_STREAM_RESET (Assoc_value (asoc_id snc) features))
               (\<lambda>v. v \<noteq> 0) ''setsockopt'')]))"

definition sn_enable_sk_recvinfo :: "'w kernel \<Rightarrow> ('w, unit) sn" where
  "sn_enable_sk_recvinfo K =
     seq load (\<lambda>snc.
       must K (Setsockopt (sn_fd snc) SCTP_EVENTS (Event_subscribe True False))
         (\<lambda>v. v \<noteq> 0) ''setsockopt'')"

section \<open>Sockets\<close>

definition sn_create_asoc_sk :: "'w kernel \<Rightarrow> string \<Rightarrow> string \<Rightarrow> ('w, unit) sn" where
  "sn_create_asoc_sk K ip port =
     seq (or_die K (Getaddrinfo ip port) (\<lambda>v. v \<noteq> 0) ''getaddrinfo'') (\<lambda>remote_info.
       block [
         store (\<lambda>snc. snc\<lparr>sn_serv := r_addr remote_info\<rparr>),
         seq (sys K (Socket AF_INET SOCK_SEQPACKET IPPROTO_SCTP))
           (\<lambda>r. store (\<lambda>snc. snc\<lparr>sn_fd := r_ret r\<rparr>)),
         sn_do_setup_frag_interleave K,
         sn_do_setup_strm_interleave K,
         seq load (\<lambda>snc.
           must K (Connect (sn_fd snc) (sn_serv snc)) (\<lambda>v. v \<noteq> 0) ''connect''),
         seq load (\<lambda>snc.
           seq (sn_get_asoc_id K (sn_fd snc)) (\<lambda>id. store (set_asoc_id id)))])"

definition sn_create_listen_sk :: "'w kernel \<Rightarrow> string \<Rightarrow> string \<Rightarrow> ('w, unit) sn" where
  "sn_create_listen_sk K ip port =
     seq (or_die K (Getaddrinfo ip port) (\<lambda>v. v \<noteq> 0) ''getaddrinfo'') (\<lambda>remote_info.
       block [
         seq (sys K (Socket AF_INET SOCK_SEQPACKET IPPROTO_SCTP))
           (\<lambda>r. store (\<lambda>snc. snc\<lparr>sn_fd := r_ret r\<rparr>)),
         sn_do_setup_frag_interleave K,
         sn_do_setup_strm_interleave K,
         seq load (\<lambda>snc.
           must K (Bind (sn_fd snc) (r_addr remote_info)) (\<lambda>v. v \<noteq> 0) ''bind''),
         seq load (\<lambda>snc.
           must K (Listen (sn_fd snc) 10) (\<lambda>v. v \<noteq> 0) ''listen'')])"

section \<open>Messages and commands\<close>

text \<open>
  A message of \<open>len\<close> bytes taken from a local buffer of \<open>cap\<close> bytes; a longer one would read past
  the end of the buffer.
\<close>

definition send_from ::
  "'w kernel \<Rightarrow> nat \<Rightarrow> cint \<Rightarrow> cint \<Rightarrow> cint \<Rightarrow> cint \<Rightarrow> ('w, unit) sn" where
  "send_from K cap len flags sid val =
     (if cap < unat len then crash Out_of_bounds
      else seq load (\<lambda>snc.
        must K (Sendmsg (sn_fd snc) len (sn_serv snc) 0 flags (ucast sid) val 0)
          (\<lambda>v. v = -1) ''sendmsg''))"

definition sn_send_asoc_msg :: "'w kernel \<Rightarrow> cint \<Rightarrow> cint \<Rightarrow> cint \<Rightarrow> cint \<Rightarrow> ('w, unit) sn" where
  "sn_send_asoc_msg K msg_len sid flags val = send_from K 10240 msg_len flags sid val"

definition sn_send_asoc_cmd :: "'w kernel \<Rightarrow> cint \<Rightarrow> cint \<Rightarrow> ('w, unit) sn" where
  \<comment> \<open>the reply is received into locals; \<open>expected\<close> is only printed\<close>
  "sn_send_asoc_cmd K expected msg_len =
     block [
       send_from K 1024 msg_len 0 0 0,
       seq load (\<lambda>snc.
         seq (or_die K (Recvmsg (sn_fd snc) 1024) (\<lambda>v. v = -1) ''recvmsg'') (\<lambda>r.
           run K (Printf ''recv_len: %d, expected: %d'' [to_long (r_ret r), to_long expected])))]"

definition sn_get_peer_cmd :: "'w kernel \<Rightarrow> ('w, cint) sn" where
  "sn_get_peer_cmd K =
     seq (store (\<lambda>snc. snc\<lparr>sn_serv := replicate 128 0\<rparr>)) (\<lambda>_.
       seq load (\<lambda>snc.
         seq (or_die K (Recvmsg (sn_fd snc) 20480) (\<lambda>v. v = -1) ''recvmsg'') (\<lambda>r.
           seq (store (\<lambda>snc. snc\<lparr>sn_serv := r_addr r, sn_sri_stream := r_stream r\<rparr>)) (\<lambda>_.
             return (r_ret r)))))"

definition sn_enable_peer_strreset :: "'w kernel \<Rightarrow> cint \<Rightarrow> ('w, unit) sn" where
  "sn_enable_peer_strreset K expected = sn_send_asoc_cmd K expected SN_CMD_SET_STRRESET"

definition sn_send_peer_ack :: "'w kernel \<Rightarrow> ('w, unit) sn" where
  "sn_send_peer_ack K = sn_send_asoc_msg K SN_CMD_ACK 0 0 0"

definition sn_close_asoc_sk :: "'w kernel \<Rightarrow> cint \<Rightarrow> ('w, unit) sn" where
  "sn_close_asoc_sk K expected =
     block [
       sn_send_asoc_cmd K expected SN_CMD_CLOSE_ASOC,
       seq load (\<lambda>snc. run K (Close (sn_fd snc))),
       run K (Printf ''closed asoc done'' []),
       run K (Sleep 5)]"

section \<open>The server\<close>

text \<open>
  One round of the server's loop; its value is the new \<open>cmd\<close>. The programs differ in the mask of
  the resets they allow and in the check, called through the case table.
\<close>

definition serve_step :: "'w kernel \<Rightarrow> 32 word \<Rightarrow> ('w, unit) sn \<Rightarrow> ('w, cint) sn" where
  "serve_step K features check =
     seq (sn_get_peer_cmd K) (\<lambda>cmd.
       if cmd = SN_CMD_SET_STRRESET then
         seq (block [sn_enable_asoc_strreset K features, sn_send_peer_ack K]) (\<lambda>_. return cmd)
       else if cmd = SN_CMD_CLOSE_ASOC then
         seq (sn_send_peer_ack K) (\<lambda>_. return (-1))
       else
         seq (block [store (\<lambda>snc. snc\<lparr>sn_cb2 := to_long cmd\<rparr>), check]) (\<lambda>_. return cmd))"

text \<open>The whole server, from the context it starts with; it returns \<open>cb[1]\<close> as an \<open>int\<close>.\<close>

definition sn_serve ::
  "'w kernel \<Rightarrow> 32 word \<Rightarrow> ('w, unit) sn \<Rightarrow> sn_context \<Rightarrow> string \<Rightarrow> string \<Rightarrow> ('w, cint) sn" where
  "sn_serve K features check start ip port =
     seq (block [
       store (\<lambda>_. start),
       sn_create_listen_sk K ip port,
       sn_enable_sk_recvinfo K,
       while_nonneg (serve_step K features check) 0]) (\<lambda>_.
     seq load (\<lambda>snc. return (to_int (sn_cb1 snc))))"

section \<open>Entry\<close>

definition do_help :: "'w kernel \<Rightarrow> string list \<Rightarrow> ('c, 'w, 'a) prog" where
  \<comment> \<open>it ends without a \<open>return\<close>, and \<open>main\<close> uses its value\<close>
  "do_help K argv =
     seq (run K (Printf ''usage: %s  ip  port  [0-4]  [-l | -s]'' [])) (\<lambda>_. crash No_value)"

definition sn_main ::
  "'w kernel \<Rightarrow> (string list \<Rightarrow> ('c, 'w, cint) prog) \<Rightarrow> (string list \<Rightarrow> ('c, 'w, cint) prog) \<Rightarrow>
   string list \<Rightarrow> ('c, 'w, cint) prog" where
  \<comment> \<open>\<open>argv[4]\<close> is read before \<open>argc\<close> is looked at; \<open>argv[argc]\<close> is the null pointer\<close>
  "sn_main K do_server do_client argv =
     (if length argv < 4 then crash Out_of_bounds
      else if length argv \<noteq> 5 then do_help K argv
      else if argv ! 4 = ''-l'' then do_server argv
      else if argv ! 4 = ''-s'' then do_client argv
      else do_help K argv)"

section \<open>What they do\<close>

abbreviation in_case :: "cint \<Rightarrow> sn_context \<Rightarrow> bool" where
  "in_case k snc \<equiv> sn_c snc = k"

lemma emits_send_from [emits_intro]:
  "unat len \<le> cap \<Longrightarrow>
   emits K P P (send_from K cap len flags sid val) [Sent len flags (ucast sid) val]"
  unfolding send_from_def
  by (rule emits_eq, (rule emits_intro | simp)+)

lemma emits_sn_send_asoc_msg [emits_intro]:
  "unat len \<le> 10240 \<Longrightarrow>
   emits K P P (sn_send_asoc_msg K len sid flags val) [Sent len flags (ucast sid) val]"
  unfolding sn_send_asoc_msg_def by (rule emits_send_from)


lemma emits_sn_get_asoc_id [emits_intro]: "emits K P P (sn_get_asoc_id K fd) []"
  unfolding sn_get_asoc_id_def by (rule emits_eq, (rule emits_intro | simp)+)

lemma emits_sn_do_setup_frag_interleave [emits_intro]:
  "emits K P P (sn_do_setup_frag_interleave K) [Opt SCTP_FRAGMENT_INTERLEAVE (Int_value 1)]"
  unfolding sn_do_setup_frag_interleave_def by (rule emits_eq, (rule emits_intro | simp)+)

lemma emits_sn_do_setup_strm_interleave [emits_intro]:
  "emits K P P (sn_do_setup_strm_interleave K) [Opt SCTP_INTERLEAVING_SUPPORTED (Assoc_value 0 8)]"
  unfolding sn_do_setup_strm_interleave_def by (rule emits_eq, (rule emits_intro | simp)+)

lemma emits_sn_enable_asoc_strreset [emits_intro]:
  "emits K (in_case k) (in_case k) (sn_enable_asoc_strreset K features)
     [Opt SCTP_ENABLE_STREAM_RESET (Assoc_value 0 features)]"
  unfolding sn_enable_asoc_strreset_def by (rule emits_eq, (rule emits_intro | simp)+)

lemma emits_sn_enable_sk_recvinfo [emits_intro]:
  "emits K P P (sn_enable_sk_recvinfo K) [Opt SCTP_EVENTS (Event_subscribe True False)]"
  unfolding sn_enable_sk_recvinfo_def by (rule emits_eq, (rule emits_intro | simp)+)

text \<open>The options every socket of the programs gets.\<close>

abbreviation sk_setup :: "act list" where
  "sk_setup \<equiv> [Opt SCTP_FRAGMENT_INTERLEAVE (Int_value 1),
     Opt SCTP_INTERLEAVING_SUPPORTED (Assoc_value 0 8)]"

lemma emits_sn_create_asoc_sk [emits_intro]:
  "emits K (in_case k) (in_case k) (sn_create_asoc_sk K ip port) sk_setup"
  unfolding sn_create_asoc_sk_def by (rule emits_eq, (rule emits_intro | simp)+)

lemma emits_sn_create_listen_sk [emits_intro]:
  "emits K (in_case k) (in_case k) (sn_create_listen_sk K ip port) sk_setup"
  unfolding sn_create_listen_sk_def by (rule emits_eq, (rule emits_intro | simp)+)

lemma emits_sn_send_asoc_cmd [emits_intro]:
  "unat len \<le> 1024 \<Longrightarrow> emits K P P (sn_send_asoc_cmd K expected len) [Sent len 0 0 0]"
  unfolding sn_send_asoc_cmd_def by (rule emits_eq, (rule emits_intro | simp)+)

lemma emits_sn_enable_peer_strreset [emits_intro]:
  "emits K P P (sn_enable_peer_strreset K expected) [Sent SN_CMD_SET_STRRESET 0 0 0]"
  unfolding sn_enable_peer_strreset_def
  by (rule emits_sn_send_asoc_cmd) (simp add: sn_cmds)

lemma emits_sn_close_asoc_sk [emits_intro]:
  "emits K P P (sn_close_asoc_sk K expected) [Sent SN_CMD_CLOSE_ASOC 0 0 0, Closed, Slept 5]"
  unfolding sn_close_asoc_sk_def
  by (rule emits_eq, (rule emits_intro | simp add: sn_cmds)+)

text \<open>How the three clients begin, on a kernel on which no call fails.\<close>

lemma client_opens:
  assumes "all_succeed K"
  shows "\<exists>t. sn_c (mem t) = c \<and> (\<forall>ms.
    block (run K (Sleep 3) # store (\<lambda>_. zero_context\<lparr>sn_c := c\<rparr>) # sn_create_asoc_sk K ip port # ms) s =
      block ms t)"
proof -
  let ?start = "block [run K (Sleep 3), store (\<lambda>_. zero_context\<lparr>sn_c := c\<rparr>), sn_create_asoc_sk K ip port]"
  have store: "emits K (\<lambda>_. True) (in_case c) (store (\<lambda>_. zero_context\<lparr>sn_c := c\<rparr>)) []"
    by (rule emits_store) simp
  have "emits K (\<lambda>_. True) (in_case c) ?start ([Slept 3] @ [] @ sk_setup @ [])"
    by (rule emits_block_Cons [OF emits_run emits_block_Cons [OF store
        emits_block_Cons [OF emits_sn_create_asoc_sk emits_block_Nil]]]) simp
  then obtain a t where t: "?start s = Some (Done a, t)" "sn_c (mem t) = c"
    by (rule emits_goes_on [OF _ assms TrueI])
  have "block (run K (Sleep 3) # store (\<lambda>_. zero_context\<lparr>sn_c := c\<rparr>) # sn_create_asoc_sk K ip port # ms) s =
      seq ?start (\<lambda>_. block ms) s" for ms
    by (simp add: seq_assoc)
  with t show ?thesis by (intro exI [of _ t]) (simp only: seq_Done simp_thms)
qed

section \<open>What the server's steps learn\<close>

lemma sn_get_peer_cmd_Done:
  assumes "sn_get_peer_cmd K s = Some (Done cmd, t)"
  shows "\<exists>tr sid addr. trace t = trace s @ tr \<and> inputs tr = [Arrived cmd sid] \<and> cmd \<noteq> -1 \<and>
    mem t = (mem s)\<lparr>sn_serv := addr, sn_sri_stream := sid\<rparr>"
  using assms by (auto simp: sn_get_peer_cmd_def run_simps split: if_splits)

lemma sn_enable_asoc_strreset_Done:
  assumes "sn_enable_asoc_strreset K features s = Some (Done u, t)"
  shows "\<exists>tr a. trace t = trace s @ tr \<and> inputs tr = [Learned a] \<and> mem t = set_asoc_id a (mem s)"
  using assms
  by (auto simp: sn_enable_asoc_strreset_def sn_get_asoc_id_def run_simps split: if_splits)

lemma send_from_Done:
  assumes "send_from K cap len flags sid val s = Some (Done u, t)"
  shows "\<exists>tr. trace t = trace s @ tr \<and> inputs tr = [] \<and> mem t = mem s"
  using assms by (auto simp: send_from_def run_simps split: if_splits)

lemma sn_send_peer_ack_Done:
  assumes "sn_send_peer_ack K s = Some (Done u, t)"
  shows "\<exists>tr. trace t = trace s @ tr \<and> inputs tr = [] \<and> mem t = mem s"
  using assms unfolding sn_send_peer_ack_def sn_send_asoc_msg_def by (rule send_from_Done)

lemma sn_create_listen_sk_Done:
  assumes "sn_create_listen_sk K ip port s = Some (Done u, t)"
  shows "\<exists>tr fd. trace t = trace s @ tr \<and> inputs tr = [] \<and> mem t = (mem s)\<lparr>sn_fd := fd\<rparr>"
  using assms
  by (auto simp: sn_create_listen_sk_def sn_do_setup_frag_interleave_def
      sn_do_setup_strm_interleave_def run_simps split: if_splits)

lemma sn_enable_sk_recvinfo_Done:
  assumes "sn_enable_sk_recvinfo K s = Some (Done u, t)"
  shows "\<exists>tr. trace t = trace s @ tr \<and> inputs tr = [] \<and> mem t = mem s"
  using assms by (auto simp: sn_enable_sk_recvinfo_def run_simps split: if_splits)

lemmas server_Done = sn_get_peer_cmd_Done sn_enable_asoc_strreset_Done sn_send_peer_ack_Done
  sn_create_listen_sk_Done sn_enable_sk_recvinfo_Done

section \<open>The server's steps on a kernel that delivers\<close>

lemma sn_get_peer_cmd_delivers:
  assumes "delivers K inbox" and "inbox (world s) = m # ms" and "fst m \<noteq> -1"
  shows "\<exists>t tr addr. sn_get_peer_cmd K s = Some (Done (fst m), t) \<and> trace t = trace s @ tr \<and>
    inputs tr = [Arrived (fst m) (snd m)] \<and> inbox (world t) = ms \<and>
    mem t = (mem s)\<lparr>sn_serv := addr, sn_sri_stream := snd m\<rparr>"
  using delivers_recv [OF assms(1,2)] assms(3)
  by (simp add: sn_get_peer_cmd_def run_simps) blast

lemma delivers_simps:
  assumes "delivers K inbox"
  shows "r_ret (fst (K (Getaddrinfo h p) w)) = 0"
    and "r_ret (fst (K (Setsockopt fd opt v) w)) = 0"
    and "r_ret (fst (K (Getsockopt fd opt) w)) = 0"
    and "r_ret (fst (K (Bind fd a) w)) = 0"
    and "r_ret (fst (K (Listen fd n) w)) = 0"
    and "r_ret (fst (K (Connect fd a) w)) = 0"
    and "r_ret (fst (K (Sendmsg fd len to ppid fl sid ttl ctx) w)) \<noteq> -1"
    and "\<not> is_recv c \<Longrightarrow> inbox (snd (K c w)) = inbox w"
proof -
  have "\<not> negative (r_ret (fst (K (Sendmsg fd len to ppid fl sid ttl ctx) w)))"
    using delivers_other(1) [OF assms, of "Sendmsg fd len to ppid fl sid ttl ctx" w] by simp
  then show "r_ret (fst (K (Sendmsg fd len to ppid fl sid ttl ctx) w)) \<noteq> -1" by auto
qed (use delivers_other [OF assms, of "Getaddrinfo h p" w]
      delivers_other [OF assms, of "Setsockopt fd opt v" w]
      delivers_other [OF assms, of "Getsockopt fd opt" w]
      delivers_other [OF assms, of "Bind fd a" w]
      delivers_other [OF assms, of "Listen fd n" w]
      delivers_other [OF assms, of "Connect fd a" w]
      delivers_other [OF assms, of c w] in simp_all)

lemma sn_enable_asoc_strreset_delivers:
  assumes "delivers K inbox"
  shows "\<exists>t tr a. sn_enable_asoc_strreset K features s = Some (Done (), t) \<and>
    trace t = trace s @ tr \<and> inputs tr = [Learned a] \<and> inbox (world t) = inbox (world s) \<and>
    mem t = set_asoc_id a (mem s)"
  by (simp add: sn_enable_asoc_strreset_def sn_get_asoc_id_def run_simps delivers_simps [OF assms])

lemma sn_send_peer_ack_delivers:
  assumes "delivers K inbox"
  shows "\<exists>t tr. sn_send_peer_ack K s = Some (Done (), t) \<and> trace t = trace s @ tr \<and>
    inputs tr = [] \<and> inbox (world t) = inbox (world s) \<and> mem t = mem s"
  by (simp add: sn_send_peer_ack_def sn_send_asoc_msg_def send_from_def sn_cmds run_simps
      delivers_simps [OF assms])

lemma sn_create_listen_sk_delivers:
  assumes "delivers K inbox"
  shows "\<exists>t tr fd. sn_create_listen_sk K ip port s = Some (Done (), t) \<and> trace t = trace s @ tr \<and>
    inputs tr = [] \<and> inbox (world t) = inbox (world s) \<and> mem t = (mem s)\<lparr>sn_fd := fd\<rparr>"
  by (simp add: sn_create_listen_sk_def sn_do_setup_frag_interleave_def
      sn_do_setup_strm_interleave_def run_simps delivers_simps [OF assms]) blast

lemma sn_enable_sk_recvinfo_delivers:
  assumes "delivers K inbox"
  shows "\<exists>t tr. sn_enable_sk_recvinfo K s = Some (Done (), t) \<and> trace t = trace s @ tr \<and>
    inputs tr = [] \<and> inbox (world t) = inbox (world s) \<and> mem t = mem s"
  by (simp add: sn_enable_sk_recvinfo_def run_simps delivers_simps [OF assms])

section \<open>The contract of a check\<close>

text \<open>
  What the server asks of the check it calls: it returns without learning anything from the
  kernel, and changes the part of the context the verdict rests on (\<open>view\<close>) as \<open>upd\<close> says of the
  message that arrived. The rest of a round then keeps the contract of \<open>cmd_server\<close>.
\<close>

lemma block_2_DoneE:
  assumes "seq (block [m1, m2]) (\<lambda>_. return b) s = Some (Done c, u)"
  obtains a1 t a2 where "m1 s = Some (Done a1, t)" "m2 t = Some (Done a2, u)" "c = b"
  using assms by (auto elim!: seq_DoneE simp: return_run)

locale sn_server =
  fixes K :: "'w kernel"
    and features :: "32 word"
    and check :: "('w, unit) sn"
    and view :: "sn_context \<Rightarrow> 'v"
    and upd :: "'v \<Rightarrow> input \<Rightarrow> 'v"
    and verdict :: "'v \<Rightarrow> clong"
  assumes view_fields: "view (x\<lparr>sn_fd := fd\<rparr>) = view x"
      "view (x\<lparr>sn_serv := addr, sn_sri_stream := sid\<rparr>) = view x" "view (x\<lparr>sn_cb2 := l\<rparr>) = view x"
    and view_asoc_id: "view (set_asoc_id a x) = upd (view x) (Learned a)"
    and verdict_view: "verdict (view x) = sn_cb1 x"
    and upd_command: "upd v (Arrived SN_CMD_SET_STRRESET sid) = v"
      "upd v (Arrived SN_CMD_CLOSE_ASOC sid) = v"
    and check_law: "check s = Some (Done (), t) \<Longrightarrow> sn_cb2 (mem s) = to_long len \<Longrightarrow>
       sn_sri_stream (mem s) = sid \<Longrightarrow> len \<noteq> SN_CMD_SET_STRRESET \<Longrightarrow> len \<noteq> SN_CMD_CLOSE_ASOC \<Longrightarrow>
       \<exists>tr. trace t = trace s @ tr \<and> inputs tr = [] \<and> view (mem t) = upd (view (mem s)) (Arrived len sid)"
begin

lemma serve_step_law:
  assumes "serve_step K features check s = Some (Done cmd, t)"
  shows "\<exists>tr len sid xs. trace t = trace s @ tr \<and> inputs tr = Arrived len sid # xs \<and>
    arrivals xs = [] \<and> quiet (inputs tr) \<and>
    view (mem t) = foldl upd (view (mem s)) (inputs tr) \<and>
    (negative cmd \<longleftrightarrow> closing len)"
proof -
  from assms obtain len s1 where recv: "sn_get_peer_cmd K s = Some (Done len, s1)"
    and rest: "(if len = SN_CMD_SET_STRRESET then
         seq (block [sn_enable_asoc_strreset K features, sn_send_peer_ack K]) (\<lambda>_. return len)
       else if len = SN_CMD_CLOSE_ASOC then seq (sn_send_peer_ack K) (\<lambda>_. return (-1))
       else seq (block [store (\<lambda>snc. snc\<lparr>sn_cb2 := to_long len\<rparr>), check]) (\<lambda>_. return len)) s1
      = Some (Done cmd, t)"
    unfolding serve_step_def by (rule seq_DoneE)
  from sn_get_peer_cmd_Done [OF recv] obtain tr sid addr where one:
    "trace s1 = trace s @ tr" "inputs tr = [Arrived len sid]"
    "mem s1 = (mem s)\<lparr>sn_serv := addr, sn_sri_stream := sid\<rparr>"
    by blast
  consider "len = SN_CMD_SET_STRRESET" | "len = SN_CMD_CLOSE_ASOC"
    | "len \<noteq> SN_CMD_SET_STRRESET" "len \<noteq> SN_CMD_CLOSE_ASOC" by blast
  then show ?thesis
  proof cases
    case 1
    with rest have "seq (block [sn_enable_asoc_strreset K features, sn_send_peer_ack K])
        (\<lambda>_. return len) s1 = Some (Done cmd, t)" by simp
    then obtain u1 s2 u2 where a: "sn_enable_asoc_strreset K features s1 = Some (Done u1, s2)"
      and b: "sn_send_peer_ack K s2 = Some (Done u2, t)" and c: "cmd = len"
      by (rule block_2_DoneE)
    from sn_enable_asoc_strreset_Done [OF a] sn_send_peer_ack_Done [OF b] obtain tr1 tr2 id where
      "trace t = trace s @ tr @ tr1 @ tr2" "inputs tr1 = [Learned id]" "inputs tr2 = []"
      "mem t = set_asoc_id id (mem s1)"
      using one by auto
    with one 1 c show ?thesis
      by (intro exI [of _ "tr @ tr1 @ tr2"])
        (auto simp: quiet_def view_asoc_id view_fields upd_command closing_def sn_cmds
          upd_command [unfolded sn_cmds])
  next
    case 2
    with rest have "seq (sn_send_peer_ack K) (\<lambda>_. return (-1)) s1 = Some (Done cmd, t)"
      by (simp add: sn_cmds)
    then obtain u2 where b: "sn_send_peer_ack K s1 = Some (Done u2, t)" and c: "cmd = -1"
      by (auto elim!: seq_DoneE simp: return_run)
    from sn_send_peer_ack_Done [OF b] obtain tr2 where
      "trace t = trace s @ tr @ tr2" "inputs tr2 = []" "mem t = mem s1"
      using one by auto
    with one 2 c show ?thesis
      by (intro exI [of _ "tr @ tr2"])
        (auto simp: quiet_def view_fields upd_command closing_def)
  next
    case 3
    let ?s2 = "s1\<lparr>mem := (mem s1)\<lparr>sn_cb2 := to_long len\<rparr>\<rparr>"
    from rest 3 have "seq (block [store (\<lambda>snc. snc\<lparr>sn_cb2 := to_long len\<rparr>), check])
        (\<lambda>_. return len) s1 = Some (Done cmd, t)" by simp
    then obtain u1 s2 u2 where "store (\<lambda>snc. snc\<lparr>sn_cb2 := to_long len\<rparr>) s1 = Some (Done u1, s2)"
      and b: "check s2 = Some (Done u2, t)" and c: "cmd = len"
      by (rule block_2_DoneE)
    then have s2: "s2 = ?s2" by (simp add: store_run)
    from b have "check ?s2 = Some (Done (), t)" unfolding s2 by simp
    from check_law [OF this _ _ 3, of sid] obtain tr2 where
      "trace t = trace s @ tr @ tr2" "inputs tr2 = []"
      "view (mem t) = upd (view (mem ?s2)) (Arrived len sid)"
      using one by auto
    with one 3 c show ?thesis
      by (intro exI [of _ "tr @ tr2"]) (auto simp: quiet_def closing_def view_fields)
  qed
qed

end

sublocale sn_server \<subseteq> served: cmd_server "serve_step K features check" view upd
  by unfold_locales (rule serve_step_law)

context sn_server begin

lemma sn_serve_verdict:
  assumes "sn_serve K features check start ip port s = Some (Done v, t)"
  shows "\<exists>tr. trace t = trace s @ tr \<and> session (arrivals (inputs tr)) \<and> quiet (inputs tr) \<and>
    foldl upd (view start) (inputs tr) \<in> range view \<and>
    v = to_int (verdict (foldl upd (view start) (inputs tr)))"
proof -
  from assms obtain s1 s2 u where
    listening: "sn_create_listen_sk K ip port (s\<lparr>mem := start\<rparr>) = Some (Done (), s1)"
    and info: "sn_enable_sk_recvinfo K s1 = Some (Done (), s2)"
    and loop: "while_nonneg (serve_step K features check) 0 s2 = Some (Done (), t)"
    and v: "v = to_int (sn_cb1 (mem t))"
    unfolding sn_serve_def
    by (auto elim!: seq_DoneE simp: return_run load_run store_run)
  from sn_create_listen_sk_Done [OF listening] sn_enable_sk_recvinfo_Done [OF info]
  obtain tr1 fd where ready1: "trace s2 = trace s @ tr1" "inputs tr1 = []"
    "mem s2 = start\<lparr>sn_fd := fd\<rparr>"
    by auto
  from loop obtain tr2 where "trace t = trace s2 @ tr2" "session (arrivals (inputs tr2))"
    "view (mem t) = foldl upd (view (mem s2)) (inputs tr2)" "quiet (inputs tr2)"
    by (rule served.serve)
  with ready1 v show ?thesis
    by (intro exI [of _ "tr1 @ tr2"]) (auto simp: view_fields simp flip: verdict_view intro: range_eqI [OF sym])
qed

end

section \<open>Progress of the server\<close>

locale live_sn_server = sn_server K features check view upd verdict
  for K :: "'w kernel" and features :: "32 word" and check :: "('w, unit) sn"
    and view :: "sn_context \<Rightarrow> 'v" and upd :: "'v \<Rightarrow> input \<Rightarrow> 'v" and verdict :: "'v \<Rightarrow> clong" +
  fixes inbox :: "'w \<Rightarrow> (cint \<times> cushort) list"
    and ready :: "nat \<Rightarrow> sn_context \<Rightarrow> bool"
  assumes ready_fields: "ready n (x\<lparr>sn_fd := fd\<rparr>) = ready n x"
      "ready n (x\<lparr>sn_serv := a, sn_sri_stream := sid\<rparr>) = ready n x"
      "ready n (x\<lparr>sn_cb2 := l\<rparr>) = ready n x" "ready n (set_asoc_id i x) = ready n x"
    and check_progress: "delivers K inbox \<Longrightarrow> ready (Suc n) (mem s) \<Longrightarrow>
       \<exists>t tr. check s = Some (Done (), t) \<and> trace t = trace s @ tr \<and> inputs tr = [] \<and>
         inbox (world t) = inbox (world s) \<and> ready n (mem t)"
begin

lemma serve_step_progress:
  assumes K: "delivers K inbox" and ms: "inbox (world s) = m # ms" "fst m \<noteq> -1"
    and ready: "ready (due (m # ms)) (mem s)"
  shows "\<exists>cmd t tr xs. serve_step K features check s = Some (Done cmd, t) \<and>
    trace t = trace s @ tr \<and> inputs tr = Arrived (fst m) (snd m) # xs \<and>
    inbox (world t) = ms \<and> ready (due ms) (mem t)"
proof -
  from sn_get_peer_cmd_delivers [OF K ms] obtain s1 tr addr where one:
    "sn_get_peer_cmd K s = Some (Done (fst m), s1)" "trace s1 = trace s @ tr"
    "inputs tr = [Arrived (fst m) (snd m)]" "inbox (world s1) = ms"
    "mem s1 = (mem s)\<lparr>sn_serv := addr, sn_sri_stream := snd m\<rparr>"
    by blast
  with ready have r1: "ready (due (m # ms)) (mem s1)" by (simp add: ready_fields)
  consider "fst m = SN_CMD_SET_STRRESET" | "fst m = SN_CMD_CLOSE_ASOC"
    | "fst m \<noteq> SN_CMD_SET_STRRESET" "fst m \<noteq> SN_CMD_CLOSE_ASOC" by blast
  then show ?thesis
  proof cases
    case 1
    from sn_enable_asoc_strreset_delivers [OF K, of features s1] obtain s2 tr2 i where two:
      "sn_enable_asoc_strreset K features s1 = Some (Done (), s2)" "trace s2 = trace s1 @ tr2"
      "inputs tr2 = [Learned i]" "inbox (world s2) = ms" "mem s2 = set_asoc_id i (mem s1)"
      using one by auto
    from sn_send_peer_ack_delivers [OF K, of s2] obtain s3 tr3 where
      "sn_send_peer_ack K s2 = Some (Done (), s3)" "trace s3 = trace s2 @ tr3"
      "inputs tr3 = []" "inbox (world s3) = ms" "mem s3 = mem s2"
      using two by auto
    with one two 1 r1 show ?thesis
      by (intro exI [of _ "fst m"] exI [of _ s3] exI [of _ "tr @ tr2 @ tr3"])
        (simp add: serve_step_def seq_Done return_run ready_fields due_Cons)
  next
    case 2
    from sn_send_peer_ack_delivers [OF K, of s1] obtain s3 tr3 where
      "sn_send_peer_ack K s1 = Some (Done (), s3)" "trace s3 = trace s1 @ tr3"
      "inputs tr3 = []" "inbox (world s3) = ms" "mem s3 = mem s1"
      using one by auto
    with one 2 r1 show ?thesis
      by (intro exI [of _ "-1"] exI [of _ s3] exI [of _ "tr @ tr3"])
        (simp add: serve_step_def seq_Done return_run due_Cons sn_cmds)
  next
    case 3
    let ?s2 = "s1\<lparr>mem := (mem s1)\<lparr>sn_cb2 := to_long (fst m)\<rparr>\<rparr>"
    have "ready (Suc (due ms)) (mem ?s2)" using r1 3 by (simp add: ready_fields due_Cons)
    from check_progress [OF K this] obtain s3 tr3 where
      "check ?s2 = Some (Done (), s3)" "trace s3 = trace s1 @ tr3"
      "inputs tr3 = []" "inbox (world s3) = ms" "ready (due ms) (mem s3)"
      using one by auto
    with one 3 show ?thesis
      by (intro exI [of _ "fst m"] exI [of _ s3] exI [of _ "tr @ tr3"])
        (simp add: serve_step_def seq_Done return_run store_run)
  qed
qed

end

sublocale live_sn_server \<subseteq> alive: live_server "serve_step K features check" view upd K inbox ready
  by unfold_locales (rule serve_step_progress)

context live_sn_server begin

lemma sn_serve_returns:
  assumes K: "delivers K inbox" and ms: "inbox (world s) = ms" "session ms" "fst (last ms) \<noteq> -1"
    and ready: "ready (due ms) start"
  shows "\<exists>t tr v. sn_serve K features check start ip port s = Some (Done v, t) \<and>
    trace t = trace s @ tr \<and> arrivals (inputs tr) = ms"
proof -
  from sn_create_listen_sk_delivers [OF K, of ip port "s\<lparr>mem := start\<rparr>"] obtain s1 tr1 fd where one:
    "sn_create_listen_sk K ip port (s\<lparr>mem := start\<rparr>) = Some (Done (), s1)"
    "trace s1 = trace s @ tr1" "inputs tr1 = []" "inbox (world s1) = ms"
    "mem s1 = start\<lparr>sn_fd := fd\<rparr>"
    using ms by auto
  from sn_enable_sk_recvinfo_delivers [OF K, of s1] obtain s2 tr2 where two:
    "sn_enable_sk_recvinfo K s1 = Some (Done (), s2)" "trace s2 = trace s1 @ tr2"
    "inputs tr2 = []" "inbox (world s2) = ms" "mem s2 = mem s1"
    using one by auto
  have "ready (due ms) (mem s2)" using ready one two by (simp add: ready_fields)
  from alive.answers [OF K two(4) ms(2,3) this, of 0] obtain t tr3 where
    "while_nonneg (serve_step K features check) 0 s2 = Some (Done (), t)"
    "trace t = trace s2 @ tr3" "arrivals (inputs tr3) = ms"
    by auto
  with one two show ?thesis
    by (intro exI [of _ t] exI [of _ "tr1 @ tr2 @ tr3"])
      (simp add: sn_serve_def seq_Done return_run load_run store_run)
qed

end

end
