(* ===== verification/Strreset.thy ===== *)
theory Strreset
  imports Sn_Socket
begin

text \<open>
  \<open>testcase/conformance/strreset/strreset.c\<close>: the conformance test of stream reconfiguration
  (RFC 6525). The client sends a number of messages, resets its streams or the association, and
  sends again; the server adds up the lengths of the messages and passes when the sum hits
  the number of messages times their length. The case table holds names of functions for the
  function pointers, \<open>None\<close> for a null pointer, so that the table and the functions that read
  it can both be defined.
\<close>

section \<open>The case table\<close>

datatype setup_fn_sr = Do_setup_pr_sr
datatype test_fn_sr = Do_test_pr_sr | Do_test_pr_asoc | Do_test_pr_x_sr | Do_test_pr_asoc_x
  | Do_test_pr_asoc_xx
datatype check_fn_sr = Do_check_pr_sr | Do_check_pr_x | Do_check_pr_xx

record sn_case_sr =
  drop_sr :: cint
  flags_sr :: cint
  values_sr :: "cint list"
  do_setup_pr_sr :: "setup_fn_sr option"
  do_test_pr_sr :: "test_fn_sr option"
  do_check_pr_sr :: "check_fn_sr option"

definition case_sr :: "cint \<Rightarrow> cint \<Rightarrow> test_fn_sr \<Rightarrow> check_fn_sr \<Rightarrow> sn_case_sr" where
  "case_sr dr v test check =
     \<lparr>drop_sr = dr, flags_sr = 0, values_sr = v # replicate 8 0,
      do_setup_pr_sr = Some Do_setup_pr_sr, do_test_pr_sr = Some test,
      do_check_pr_sr = Some check\<rparr>"

definition null_case_sr :: sn_case_sr where
  "null_case_sr =
     \<lparr>drop_sr = 0, flags_sr = 0, values_sr = replicate 9 0,
      do_setup_pr_sr = None, do_test_pr_sr = None, do_check_pr_sr = None\<rparr>"

definition SN_CASE_MAX_sr :: nat where "SN_CASE_MAX_sr = 19"

definition sn_cases_sr :: "sn_case_sr list" where
  "sn_cases_sr =
     [case_sr 1 100 Do_test_pr_sr Do_check_pr_sr,
      case_sr 0 100 Do_test_pr_asoc Do_check_pr_sr,
      case_sr 0 6000 Do_test_pr_sr Do_check_pr_sr,
      case_sr 0 6000 Do_test_pr_asoc Do_check_pr_sr,
      case_sr 1 100 Do_test_pr_x_sr Do_check_pr_x,
      case_sr 1 100 Do_test_pr_asoc_x Do_check_pr_x,
      case_sr 2 100 Do_test_pr_asoc_xx Do_check_pr_xx]
     @ replicate (SN_CASE_MAX_sr - 7) null_case_sr"

text \<open>\<open>sn_cases[snc->c]\<close>, an access outside the table being undefined.\<close>

definition the_case_sr :: "('w, sn_case_sr) sn" where
  "the_case_sr =
     seq load (\<lambda>snc.
       if 0 \<le> sint (sn_c snc) \<and> sint (sn_c snc) < int SN_CASE_MAX_sr
       then return (sn_cases_sr ! unat (sn_c snc))
       else crash Out_of_bounds)"

section \<open>Resetting\<close>

definition SCTP_ENABLE_STRRESET_MASK :: "32 word" where "SCTP_ENABLE_STRRESET_MASK = 7"

definition sctp_set_strreset_inoutreq_1 :: "'w kernel \<Rightarrow> ('w, unit) sn" where
  "sctp_set_strreset_inoutreq_1 K =
     block [
       seq load (\<lambda>snc.
         may_fail K (Setsockopt (sn_fd snc) SCTP_RESET_STREAMS
             (Reset_streams (asoc_id snc) SCTP_STREAM_RESET_OUTGOING 0))
           negative ''    *** setsockopt ***''),
       run K (Sleep 3)]"

definition sctp_set_strreset_assoc :: "'w kernel \<Rightarrow> ('w, unit) sn" where
  "sctp_set_strreset_assoc K =
     block [
       seq load (\<lambda>snc.
         may_fail K (Setsockopt (sn_fd snc) SCTP_RESET_ASSOC (Assoc_id (asoc_id snc)))
           negative ''    *** setsockopt ***''),
       run K (Sleep 3)]"

section \<open>The firewall around a test\<close>

definition sn_close_asoc_streams_sr :: "'w kernel \<Rightarrow> ('w, unit) sn" where
  "sn_close_asoc_streams_sr K =
     seq the_case_sr (\<lambda>k.
       if drop_sr k = 0 then return ()
       else if drop_sr k = 1 then
         block [
           run K (Shell ''iptables -A OUTPUT -p sctp --chunk-types any DATA -j DROP''),
           run K (Printf ''all stream data will be drop in INPUT'' [])]
       else if drop_sr k = 2 then
         block [
           run K (Shell ''iptables -A OUTPUT -p sctp -j DROP''),
           run K (Printf ''all chunks will be drop in INPUT'' [])]
       else return ())"

definition sn_reopen_asoc_streams_sr :: "'w kernel \<Rightarrow> ('w, unit) sn" where
  "sn_reopen_asoc_streams_sr K =
     seq the_case_sr (\<lambda>k.
       if drop_sr k = 0 then return ()
       else block [
         run K (Shell ''iptables -F''),
         run K (Printf ''all stream data can be transmitted now'' []),
         run K (Sleep 10)])"

section \<open>The tests the client runs\<close>

text \<open>\<open>sn_send_asoc_msg(snc, sn_cases[snc->c].values[0], 1, sn_cases[snc->c].flags, 0)\<close>\<close>

definition send_value_sr :: "'w kernel \<Rightarrow> ('w, unit) sn" where
  "send_value_sr K =
     seq the_case_sr (\<lambda>k. sn_send_asoc_msg K (values_sr k ! 0) 1 (flags_sr k) 0)"

definition sn_do_setup_pr_sr :: "'w kernel \<Rightarrow> ('w, unit) sn" where
  "sn_do_setup_pr_sr K = return ()"

definition sn_do_test_pr_sr :: "'w kernel \<Rightarrow> ('w, unit) sn" where
  "sn_do_test_pr_sr K =
     block [
       repeat_loop 70000 (send_value_sr K),
       run K (Sleep 5),
       sctp_set_strreset_inoutreq_1 K,
       run K (Sleep 5),
       send_value_sr K]"

definition sn_do_test_pr_asoc :: "'w kernel \<Rightarrow> ('w, unit) sn" where
  "sn_do_test_pr_asoc K =
     block [
       repeat_loop 70000 (send_value_sr K),
       run K (Sleep 5),
       sctp_set_strreset_assoc K,
       run K (Sleep 5),
       send_value_sr K]"

definition sn_do_test_pr_x_sr :: "'w kernel \<Rightarrow> ('w, unit) sn" where
  "sn_do_test_pr_x_sr K =
     block [
       sn_close_asoc_streams_sr K,
       repeat_loop 10 (send_value_sr K),
       sctp_set_strreset_inoutreq_1 K,
       run K (Sleep 10),
       sctp_set_strreset_inoutreq_1 K,
       send_value_sr K,
       sn_reopen_asoc_streams_sr K]"

definition sn_do_test_pr_asoc_x :: "'w kernel \<Rightarrow> ('w, unit) sn" where
  "sn_do_test_pr_asoc_x K =
     block [
       sn_close_asoc_streams_sr K,
       repeat_loop 10 (send_value_sr K),
       sctp_set_strreset_assoc K,
       run K (Sleep 10),
       sctp_set_strreset_assoc K,
       sn_reopen_asoc_streams_sr K,
       run K (Sleep 10),
       sctp_set_strreset_assoc K,
       send_value_sr K]"

definition sn_do_test_pr_asoc_xx :: "'w kernel \<Rightarrow> ('w, unit) sn" where
  "sn_do_test_pr_asoc_xx K =
     block [
       repeat_loop 10 (send_value_sr K),
       run K (Sleep 5),
       sn_close_asoc_streams_sr K,
       sctp_set_strreset_assoc K,
       send_value_sr K,
       send_value_sr K,
       send_value_sr K,
       send_value_sr K,
       run K (Sleep 5),
       sn_reopen_asoc_streams_sr K]"

section \<open>The checks the server makes\<close>

text \<open>The constant factor and the length are multiplied as \<open>int\<close>, the sum kept as \<open>long\<close>.\<close>

definition check_total_sr :: "'w kernel \<Rightarrow> cint \<Rightarrow> ('w, unit) sn" where
  "check_total_sr K n =
     block [
       seq load (\<lambda>snc. run K (Printf ''do check %d, %d'' [sn_cb3 snc, sn_cb2 snc])),
       store (\<lambda>snc. snc\<lparr>sn_cb3 := sn_cb3 snc + sn_cb2 snc\<rparr>),
       seq the_case_sr (\<lambda>k.
         store (\<lambda>snc.
           if sn_cb3 snc = to_long (n * (values_sr k ! 0)) then snc\<lparr>sn_cb1 := 0\<rparr> else snc))]"

definition sn_do_check_pr_sr :: "'w kernel \<Rightarrow> ('w, unit) sn" where
  "sn_do_check_pr_sr K = check_total_sr K 70001"

definition sn_do_check_pr_x :: "'w kernel \<Rightarrow> ('w, unit) sn" where
  "sn_do_check_pr_x K = check_total_sr K 11"

definition sn_do_check_pr_xx :: "'w kernel \<Rightarrow> ('w, unit) sn" where
  "sn_do_check_pr_xx K = check_total_sr K 14"

section \<open>Calls through the table\<close>

definition call_setup_sr :: "'w kernel \<Rightarrow> setup_fn_sr option \<Rightarrow> ('w, unit) sn" where
  "call_setup_sr K f = (case f of None \<Rightarrow> crash Null_call | Some Do_setup_pr_sr \<Rightarrow> sn_do_setup_pr_sr K)"

definition call_test_sr :: "'w kernel \<Rightarrow> test_fn_sr option \<Rightarrow> ('w, unit) sn" where
  "call_test_sr K f =
     (case f of
        None \<Rightarrow> crash Null_call
      | Some Do_test_pr_sr \<Rightarrow> sn_do_test_pr_sr K
      | Some Do_test_pr_asoc \<Rightarrow> sn_do_test_pr_asoc K
      | Some Do_test_pr_x_sr \<Rightarrow> sn_do_test_pr_x_sr K
      | Some Do_test_pr_asoc_x \<Rightarrow> sn_do_test_pr_asoc_x K
      | Some Do_test_pr_asoc_xx \<Rightarrow> sn_do_test_pr_asoc_xx K)"

definition call_check_sr :: "'w kernel \<Rightarrow> check_fn_sr option \<Rightarrow> ('w, unit) sn" where
  "call_check_sr K f =
     (case f of
        None \<Rightarrow> crash Null_call
      | Some Do_check_pr_sr \<Rightarrow> sn_do_check_pr_sr K
      | Some Do_check_pr_x \<Rightarrow> sn_do_check_pr_x K
      | Some Do_check_pr_xx \<Rightarrow> sn_do_check_pr_xx K)"

section \<open>The two programs\<close>

definition do_client_sr :: "'w kernel \<Rightarrow> string list \<Rightarrow> ('w, cint) sn" where
  "do_client_sr K argv =
     seq (block [
       run K (Sleep 3),
       store (\<lambda>_. zero_context\<lparr>sn_c := atoi (argv ! 3)\<rparr>),
       sn_create_asoc_sk K (argv ! 1) (argv ! 2),
       seq the_case_sr (\<lambda>k. call_setup_sr K (do_setup_pr_sr k)),
       sn_enable_asoc_strreset K SCTP_ENABLE_STRRESET_MASK,
       sn_enable_peer_strreset K 13,
       seq the_case_sr (\<lambda>k. call_test_sr K (do_test_pr_sr k)),
       sn_close_asoc_sk K 13]) (\<lambda>_. return 0)"

definition check_sr :: "'w kernel \<Rightarrow> ('w, unit) sn" where
  \<comment> \<open>\<open>sn_cases[snc.c].do_check_pr(&snc)\<close>\<close>
  "check_sr K = seq the_case_sr (\<lambda>k. call_check_sr K (do_check_pr_sr k))"

definition do_server_sr :: "'w kernel \<Rightarrow> string list \<Rightarrow> ('w, cint) sn" where
  "do_server_sr K argv =
     sn_serve K SCTP_ENABLE_STRRESET_MASK (check_sr K)
       (zero_context\<lparr>sn_c := atoi (argv ! 3), sn_cb1 := 1\<rparr>) (argv ! 1) (argv ! 2)"

definition main_sr :: "'w kernel \<Rightarrow> string list \<Rightarrow> ('w, cint) sn" where
  "main_sr K = sn_main K (do_server_sr K) (do_client_sr K)"

end
