(* ===== verification/Strreset_Props.thy ===== *)
theory Strreset_Props
  imports Strreset
begin

text \<open>
  What the stream reconfiguration test does: the exact sequence of messages, options, firewall
  rules and pauses of the client in each of its seven cases; the verdict of the server as a
  function of the messages that arrive; and how the two fit together.
\<close>

section \<open>Looking a case up\<close>

lemma the_case_sr_run:
  assumes "n < 19" and "sn_c (mem s) = of_nat n"
  shows "the_case_sr s = Some (Done (sn_cases_sr ! n), s)"
  using assms by (simp add: the_case_sr_def run_simps SN_CASE_MAX_sr_def)

lemma emits_the_case_sr:
  assumes "n < 19" and "emits K (in_case (of_nat n)) R (f (sn_cases_sr ! n)) L"
  shows "emits K (in_case (of_nat n)) R (seq the_case_sr f) L"
  using assms(2) unfolding emits_def by (simp add: seq_Done [OF the_case_sr_run [OF assms(1)]])

lemma sn_cases_sr_nth:
  "sn_cases_sr ! 0 = case_sr 1 100 Do_test_pr_sr Do_check_pr_sr"
  "sn_cases_sr ! 1 = case_sr 0 100 Do_test_pr_asoc Do_check_pr_sr"
  "sn_cases_sr ! 2 = case_sr 0 6000 Do_test_pr_sr Do_check_pr_sr"
  "sn_cases_sr ! 3 = case_sr 0 6000 Do_test_pr_asoc Do_check_pr_sr"
  "sn_cases_sr ! 4 = case_sr 1 100 Do_test_pr_x_sr Do_check_pr_x"
  "sn_cases_sr ! 5 = case_sr 1 100 Do_test_pr_asoc_x Do_check_pr_x"
  "sn_cases_sr ! 6 = case_sr 2 100 Do_test_pr_asoc_xx Do_check_pr_xx"
  by (simp_all add: sn_cases_sr_def)

lemmas case_sr_simps = sn_cases_sr_nth sn_cases_sr_nth(2) [unfolded One_nat_def] case_sr_def

section \<open>The script of the client\<close>

text \<open>Written from the description of the cases, not from the code: one data message, the
  reset of the streams or of the association, the rule of each kind of drop, its removal.\<close>

abbreviation data_sr :: "cint \<Rightarrow> act" where
  "data_sr v \<equiv> Sent v 0 1 0"

abbreviation reset_streams :: "act list" where
  "reset_streams \<equiv> [Opt SCTP_RESET_STREAMS (Reset_streams 0 2 0), Slept 3]"

abbreviation reset_assoc :: "act list" where
  "reset_assoc \<equiv> [Opt SCTP_RESET_ASSOC (Assoc_id 0), Slept 3]"

definition close_script_sr :: "cint \<Rightarrow> act list" where
  "close_script_sr dr =
     (if dr = 1 then [Ran ''iptables -A OUTPUT -p sctp --chunk-types any DATA -j DROP'']
      else if dr = 2 then [Ran ''iptables -A OUTPUT -p sctp -j DROP'']
      else [])"

definition reopen_script_sr :: "cint \<Rightarrow> act list" where
  "reopen_script_sr dr = (if dr = 0 then [] else [Ran ''iptables -F'', Slept 10])"

fun test_script_sr :: "test_fn_sr \<Rightarrow> cint \<Rightarrow> cint \<Rightarrow> act list" where
  "test_script_sr Do_test_pr_sr dr v =
     replicate 70000 (data_sr v) @ [Slept 5] @ reset_streams @ [Slept 5, data_sr v]"
| "test_script_sr Do_test_pr_asoc dr v =
     replicate 70000 (data_sr v) @ [Slept 5] @ reset_assoc @ [Slept 5, data_sr v]"
| "test_script_sr Do_test_pr_x_sr dr v =
     close_script_sr dr @ replicate 10 (data_sr v) @ reset_streams @ [Slept 10] @ reset_streams @
     [data_sr v] @ reopen_script_sr dr"
| "test_script_sr Do_test_pr_asoc_x dr v =
     close_script_sr dr @ replicate 10 (data_sr v) @ reset_assoc @ [Slept 10] @ reset_assoc @
     reopen_script_sr dr @ [Slept 10] @ reset_assoc @ [data_sr v]"
| "test_script_sr Do_test_pr_asoc_xx dr v =
     replicate 10 (data_sr v) @ [Slept 5] @ close_script_sr dr @ reset_assoc @
     [data_sr v, data_sr v, data_sr v, data_sr v] @ [Slept 5] @ reopen_script_sr dr"

definition client_script_sr :: "nat \<Rightarrow> act list" where
  "client_script_sr n =
     [Slept 3] @ sk_setup @
     [Opt SCTP_ENABLE_STREAM_RESET (Assoc_value 0 7), Sent SN_CMD_SET_STRRESET 0 0 0] @
     test_script_sr (the (do_test_pr_sr (sn_cases_sr ! n))) (drop_sr (sn_cases_sr ! n))
       (values_sr (sn_cases_sr ! n) ! 0) @
     [Sent SN_CMD_CLOSE_ASOC 0 0 0, Closed, Slept 5]"

section \<open>The client follows it\<close>

lemma emits_send_value_sr:
  assumes "n < 19" and "unat (values_sr (sn_cases_sr ! n) ! 0) \<le> 10240"
    and "flags_sr (sn_cases_sr ! n) = 0"
  shows "emits K (in_case (of_nat n)) (in_case (of_nat n)) (send_value_sr K)
    [data_sr (values_sr (sn_cases_sr ! n) ! 0)]"
  unfolding send_value_sr_def
  by (rule emits_the_case_sr [OF assms(1)], rule emits_eq, rule emits_sn_send_asoc_msg)
    (simp_all add: assms)

lemma emits_close_sr:
  assumes "n < 19"
  shows "emits K (in_case (of_nat n)) (in_case (of_nat n)) (sn_close_asoc_streams_sr K)
    (close_script_sr (drop_sr (sn_cases_sr ! n)))"
  unfolding sn_close_asoc_streams_sr_def close_script_sr_def
  by (rule emits_the_case_sr [OF assms], intro emits_if; rule emits_eq, (rule emits_intro | simp)+)

lemma emits_reopen_sr:
  assumes "n < 19"
  shows "emits K (in_case (of_nat n)) (in_case (of_nat n)) (sn_reopen_asoc_streams_sr K)
    (reopen_script_sr (drop_sr (sn_cases_sr ! n)))"
  unfolding sn_reopen_asoc_streams_sr_def reopen_script_sr_def
  by (rule emits_the_case_sr [OF assms], intro emits_if; rule emits_eq, (rule emits_intro | simp)+)

lemma emits_reset_streams [emits_intro]: "emits K P P (sctp_set_strreset_inoutreq_1 K) reset_streams"
  unfolding sctp_set_strreset_inoutreq_1_def
  by (rule emits_eq, (rule emits_intro | simp add: SCTP_STREAM_RESET_OUTGOING_def)+)

lemma emits_reset_assoc [emits_intro]: "emits K P P (sctp_set_strreset_assoc K) reset_assoc"
  unfolding sctp_set_strreset_assoc_def
  by (rule emits_eq, (rule emits_intro | simp)+)

lemmas test_defs_sr = sn_do_test_pr_sr_def sn_do_test_pr_asoc_def sn_do_test_pr_x_sr_def
  sn_do_test_pr_asoc_x_def sn_do_test_pr_asoc_xx_def

lemma emits_call_test_sr:
  assumes "n < 19" and "unat (values_sr (sn_cases_sr ! n) ! 0) \<le> 10240"
    and "flags_sr (sn_cases_sr ! n) = 0"
  shows "emits K (in_case (of_nat n)) (in_case (of_nat n)) (call_test_sr K (Some fn))
    (test_script_sr fn (drop_sr (sn_cases_sr ! n)) (values_sr (sn_cases_sr ! n) ! 0))"
proof -
  note rules = emits_send_value_sr [OF assms] emits_close_sr [OF assms(1)]
    emits_reopen_sr [OF assms(1)] emits_intro
  show ?thesis
    by (cases fn; simp only: call_test_sr_def option.case test_fn_sr.case test_defs_sr;
        rule emits_eq, (rule rules | simp)+)
qed

lemma case_facts_sr:
  assumes "n < 7"
  shows "unat (values_sr (sn_cases_sr ! n) ! 0) \<le> 10240" and "flags_sr (sn_cases_sr ! n) = 0"
    and "do_setup_pr_sr (sn_cases_sr ! n) = Some Do_setup_pr_sr"
    and "\<exists>fn. do_test_pr_sr (sn_cases_sr ! n) = Some fn"
  using less_7_cases [OF assms] by (auto simp: case_sr_simps)

lemma emits_setup_sr:
  assumes "n < 7"
  shows "emits K (in_case (of_nat n)) (in_case (of_nat n))
    (seq the_case_sr (\<lambda>k. call_setup_sr K (do_setup_pr_sr k))) []"
  using assms
  by (intro emits_the_case_sr)
    (auto simp: case_facts_sr call_setup_sr_def sn_do_setup_pr_sr_def intro: emits_return)

lemma emits_test_sr:
  assumes "n < 7"
  shows "emits K (in_case (of_nat n)) (in_case (of_nat n))
    (seq the_case_sr (\<lambda>k. call_test_sr K (do_test_pr_sr k)))
    (test_script_sr (the (do_test_pr_sr (sn_cases_sr ! n))) (drop_sr (sn_cases_sr ! n))
       (values_sr (sn_cases_sr ! n) ! 0))"
proof -
  have n: "n < 19" using assms by simp
  obtain fn where fn: "do_test_pr_sr (sn_cases_sr ! n) = Some fn"
    using case_facts_sr(4) [OF assms] by blast
  show ?thesis
    unfolding fn option.sel
    by (rule emits_the_case_sr [OF n],
        simp only: fn, rule emits_call_test_sr [OF n case_facts_sr(1,2) [OF assms]])
qed

lemma emits_client_sr:
  assumes "n < 7" and "atoi (argv ! 3) = of_nat n"
  shows "emits K (\<lambda>_. True) (in_case (of_nat n)) (do_client_sr K argv) (client_script_sr n)"
proof -
  have start: "emits K (\<lambda>_. True) (in_case (of_nat n))
     (store (\<lambda>_. zero_context\<lparr>sn_c := atoi (argv ! 3)\<rparr>)) []"
    by (rule emits_store) (simp add: assms(2))
  note rules = start emits_setup_sr [OF assms(1)] emits_test_sr [OF assms(1)] emits_intro
  show ?thesis
    unfolding do_client_sr_def
    by (rule emits_eq, (rule rules | simp)+)
      (simp add: client_script_sr_def SCTP_ENABLE_STRRESET_MASK_def)
qed

lemma main_sr_client: "main_sr K [prog, ip, port, c, ''-s''] = do_client_sr K [prog, ip, port, c, ''-s'']"
  by (rule ext) (simp add: main_sr_def sn_main_def)

lemma main_sr_client_runs:
  assumes "n < 7" and "atoi c = of_nat n"
  shows "\<exists>r t tr. main_sr K [prog, ip, port, c, ''-s''] s = Some (r, t) \<and>
    trace t = trace s @ tr \<and>
    (case r of
       Done v \<Rightarrow> v = 0 \<and> acts tr = client_script_sr n
     | Exit e \<Rightarrow> e = -1 \<and> prefix (acts tr) (client_script_sr n) \<and> broke K tr
     | Fault _ \<Rightarrow> False)"
  unfolding main_sr_client
  by (rule emits_whole_run, rule emits_client_sr)
    (simp_all add: assms do_client_sr_def seq_return_value)

lemma main_sr_client_completes:
  assumes "all_succeed K" and "n < 7" and "atoi c = of_nat n"
  shows "\<exists>t tr. main_sr K [prog, ip, port, c, ''-s''] s = Some (Done 0, t) \<and> trace t = trace s @ tr \<and>
    acts tr = client_script_sr n"
  unfolding main_sr_client
  by (rule emits_completes, rule emits_client_sr)
    (simp_all add: assms do_client_sr_def seq_return_value)

text \<open>A run that no call stops has the actions of the script, whichever way it is described.\<close>

lemma main_sr_client_acts:
  assumes "all_succeed K" and "n < 7" and "atoi c = of_nat n"
    and "main_sr K [prog, ip, port, c, ''-s''] s = Some (r, t)" and "trace t = trace s @ tr"
  shows "acts tr = client_script_sr n"
  using main_sr_client_completes [OF assms(1-3), of prog ip port s] assms(4,5) by auto

text \<open>
  C1: run as the client of one of its seven cases, whatever the kernel answers, the program
  always ends and never runs into undefined behaviour: either it performs exactly the messages,
  options, firewall rules and pauses of the case's script, in that order, and returns 0, or a call
  fails and it stops with status -1 after a prefix of the script.
\<close>

theorem strreset_client_follows_script:
  assumes "n < 7" and "atoi c = of_nat n"
  shows "\<exists>r t tr. main_sr K [prog, ip, port, c, ''-s''] s = Some (r, t) \<and>
    trace t = trace s @ tr \<and>
    (case r of
       Done v \<Rightarrow> v = 0 \<and> acts tr = client_script_sr n
     | Exit e \<Rightarrow> e = -1 \<and> prefix (acts tr) (client_script_sr n) \<and> broke K tr
     | Fault _ \<Rightarrow> False)"
  using assms by (rule main_sr_client_runs)

theorem strreset_client_follows_script_witness:
  "\<exists>r t tr. main_sr mailbox [''strreset'', ''10.0.0.1'', ''8888'', ''5'', ''-s'']
      \<lparr>mem = zero_context, world = [(13, 0), (13, 0)], trace = []\<rparr> = Some (r, t) \<and>
    trace t = [] @ tr \<and>
    (case r of
       Done v \<Rightarrow> v = 0 \<and> acts tr = client_script_sr 5
     | Exit e \<Rightarrow> e = -1 \<and> prefix (acts tr) (client_script_sr 5) \<and> broke mailbox tr
     | Fault _ \<Rightarrow> False)"
  using strreset_client_follows_script [of 5 "''5''" mailbox "''strreset''" "''10.0.0.1''" "''8888''"
      "\<lparr>mem = zero_context, world = [(13, 0), (13, 0)], trace = []\<rparr>"]
  by (simp add: atoi_eval)

section \<open>What the script amounts to\<close>

text \<open>How many data messages the check of a case asks for.\<close>

fun factor_sr :: "check_fn_sr \<Rightarrow> nat" where
  "factor_sr Do_check_pr_sr = 70001"
| "factor_sr Do_check_pr_x = 11"
| "factor_sr Do_check_pr_xx = 14"

definition count_sr :: "nat \<Rightarrow> nat" where
  "count_sr n = factor_sr (the (do_check_pr_sr (sn_cases_sr ! n)))"

definition value_sr :: "nat \<Rightarrow> cint" where
  "value_sr n = values_sr (sn_cases_sr ! n) ! 0"

lemma count_sr_simps:
  "count_sr 0 = 70001" "count_sr 1 = 70001" "count_sr 2 = 70001" "count_sr 3 = 70001"
  "count_sr 4 = 11" "count_sr 5 = 11" "count_sr 6 = 14"
  by (simp_all add: count_sr_def case_sr_simps)

lemmas count_sr_eval = count_sr_simps count_sr_simps(2) [unfolded One_nat_def]

lemma replicate_counts:
  "replicate 70001 v = replicate 70000 v @ [v]"
  "replicate 11 v = replicate 10 v @ [v]"
  "replicate 14 v = replicate 10 v @ [v, v, v, v]"
proof -
  have "replicate 4 v = [v, v, v, v]" by (simp add: eval_nat_numeral)
  then show "replicate 70001 v = replicate 70000 v @ [v]"
    "replicate 11 v = replicate 10 v @ [v]" "replicate 14 v = replicate 10 v @ [v, v, v, v]"
    using replicate_add [of 70000 1 v] replicate_add [of 10 1 v] replicate_add [of 10 4 v]
    by simp_all
qed

lemma client_script_traffic:
  assumes "n < 7"
  shows "messages (client_script_sr n) =
      SN_CMD_SET_STRRESET # replicate (count_sr n) (value_sr n) @ [SN_CMD_CLOSE_ASOC]"
    and "shell_of (client_script_sr n) \<in>
      {[], [''iptables -A OUTPUT -p sctp --chunk-types any DATA -j DROP'', ''iptables -F''],
       [''iptables -A OUTPUT -p sctp -j DROP'', ''iptables -F'']}"
  using less_7_cases [OF assms]
  by (elim disjE; simp add: client_script_sr_def case_sr_simps count_sr_eval value_sr_def
      close_script_sr_def reopen_script_sr_def replicate_counts)+

lemma rules_of_pair:
  assumes "prefix cs [c, ''iptables -F'']" and "prefix ''iptables -A '' c"
  shows "rules_after [] (map Ran cs) = (if cs = [c] then [c] else [])"
  using assms by (auto simp: prefix_Cons)

text \<open>
  C24: what goes over the wire and what is left behind: the client sends at most one request to enable
  resets, then data messages, of exactly the number and the length the server's check of the case counts
  on, then the request to close, in this order; a complete run sends all of them and leaves no firewall
  rule, and one that stops early leaves at most one.
\<close>

theorem strreset_client_traffic:
  assumes "n < 7" and "atoi c = of_nat n"
  shows "\<exists>r t tr. main_sr K [prog, ip, port, c, ''-s''] s = Some (r, t) \<and> trace t = trace s @ tr \<and>
    prefix (messages (acts tr))
      (SN_CMD_SET_STRRESET # replicate (count_sr n) (value_sr n) @ [SN_CMD_CLOSE_ASOC]) \<and>
    length (rules_after [] (acts tr)) \<le> 1 \<and>
    (r = Done 0 \<longrightarrow> rules_after [] (acts tr) = [] \<and> messages (acts tr) =
      SN_CMD_SET_STRRESET # replicate (count_sr n) (value_sr n) @ [SN_CMD_CLOSE_ASOC])"
proof -
  obtain r t tr where run: "main_sr K [prog, ip, port, c, ''-s''] s = Some (r, t)" "trace t = trace s @ tr"
    and pre: "prefix (acts tr) (client_script_sr n)" and full: "r = Done 0 \<Longrightarrow> acts tr = client_script_sr n"
    using emits_part [OF emits_client_sr [of n "[prog, ip, port, c, ''-s'']" K], of s] assms
    unfolding main_sr_client by auto
  note traffic = client_script_traffic [OF assms(1)]
  have "shell_of (acts tr) = [] \<and> shell_of (client_script_sr n) = [] \<or>
    (\<exists>c. prefix ''iptables -A '' c \<and> prefix (shell_of (acts tr)) [c, ''iptables -F''] \<and>
       shell_of (client_script_sr n) = [c, ''iptables -F''])"
    using traffic(2) shell_of_prefix [OF pre] by (elim insertE) auto
  then have "length (rules_after [] (acts tr)) \<le> 1" "r = Done 0 \<Longrightarrow> rules_after [] (acts tr) = []"
    unfolding rules_after_shell [of "[]" "acts tr"] using rules_of_pair [of "shell_of (acts tr)"] full by auto
  with run messages_prefix [OF pre] full show ?thesis
    unfolding traffic(1) by (intro exI [of _ r] exI [of _ t] exI [of _ tr]) (auto simp: traffic(1))
qed

theorem strreset_client_traffic_witness:
  "\<exists>r t tr. main_sr mailbox [''strreset'', ''10.0.0.1'', ''8888'', ''6'', ''-s'']
      \<lparr>mem = zero_context, world = [(13, 0), (13, 0)], trace = []\<rparr> = Some (r, t) \<and> trace t = [] @ tr \<and>
    prefix (messages (acts tr)) (11 # replicate 14 100 @ [12]) \<and> length (rules_after [] (acts tr)) \<le> 1"
  using strreset_client_traffic [of 6 "''6''" mailbox "''strreset''" "''10.0.0.1''" "''8888''"
      "\<lparr>mem = zero_context, world = [(13, 0), (13, 0)], trace = []\<rparr>"]
  by (auto simp: atoi_eval sn_cmds count_sr_eval value_sr_def case_sr_simps)

section \<open>The verdict of the server\<close>

text \<open>
  The part of the context the verdict rests on (case, verdict, running sum), and what a message
  does to it.
\<close>

definition view_sr :: "sn_context \<Rightarrow> cint \<times> clong \<times> clong" where
  "view_sr snc = (sn_c snc, sn_cb1 snc, sn_cb3 snc)"

definition target_sr :: "cint \<Rightarrow> clong" where
  "target_sr c =
     (let k = sn_cases_sr ! unat c in
      to_long (of_nat (factor_sr (the (do_check_pr_sr k))) * (values_sr k ! 0)))"

fun upd_sr :: "cint \<times> clong \<times> clong \<Rightarrow> input \<Rightarrow> cint \<times> clong \<times> clong" where
  "upd_sr (c, v, t) (Arrived len sid) =
     (if len = SN_CMD_SET_STRRESET \<or> len = SN_CMD_CLOSE_ASOC then (c, v, t)
      else (c, if t + to_long len = target_sr c then 0 else v, t + to_long len))"
| "upd_sr x (Learned a) = x"

lemma upd_sr_command:
  "upd_sr v (Arrived SN_CMD_SET_STRRESET sid) = v" "upd_sr v (Arrived SN_CMD_CLOSE_ASOC sid) = v"
  "upd_sr v (Learned a) = v"
  by (cases v; simp)+

lemma the_case_sr_Done:
  "the_case_sr s = Some (Done k, t) \<Longrightarrow> t = s \<and> k = sn_cases_sr ! unat (sn_c (mem s))"
  by (auto simp: the_case_sr_def run_simps split: if_splits)

lemma check_total_sr_Done:
  assumes "check_total_sr K n s = Some (Done u, t)"
  shows "\<exists>tr. trace t = trace s @ tr \<and> inputs tr = [] \<and>
    view_sr (mem t) =
      (let k = sn_cases_sr ! unat (sn_c (mem s)); total = sn_cb3 (mem s) + sn_cb2 (mem s) in
       (sn_c (mem s), if total = to_long (n * (values_sr k ! 0)) then 0 else sn_cb1 (mem s), total))"
  using assms
  by (auto simp: check_total_sr_def run_simps view_sr_def Let_def dest!: the_case_sr_Done
      split: option.splits result.splits)

lemma call_check_sr_total:
  "call_check_sr K (Some fn) = check_total_sr K (of_nat (factor_sr fn))"
  by (cases fn)
    (simp_all add: call_check_sr_def sn_do_check_pr_sr_def sn_do_check_pr_x_def
      sn_do_check_pr_xx_def)

lemma check_sr_Done:
  assumes "check_sr K s = Some (Done (), t)"
    and "sn_cb2 (mem s) = to_long len"
    and "len \<noteq> SN_CMD_SET_STRRESET" and "len \<noteq> SN_CMD_CLOSE_ASOC"
  shows "\<exists>tr. trace t = trace s @ tr \<and> inputs tr = [] \<and>
    view_sr (mem t) = upd_sr (view_sr (mem s)) (Arrived len sid)"
proof -
  from assms(1) obtain k where k: "k = sn_cases_sr ! unat (sn_c (mem s))"
    "call_check_sr K (do_check_pr_sr k) s = Some (Done (), t)"
    by (auto simp: check_sr_def elim!: seq_DoneE dest!: the_case_sr_Done)
  then obtain fn where fn: "do_check_pr_sr k = Some fn"
    by (cases "do_check_pr_sr k") (auto simp: call_check_sr_def crash_run)
  with k have "check_total_sr K (of_nat (factor_sr fn)) s = Some (Done (), t)"
    by (simp add: call_check_sr_total)
  from check_total_sr_Done [OF this] k(1) fn assms(2-4) show ?thesis
    by (auto simp: view_sr_def target_sr_def Let_def)
qed

text \<open>The cases the table defines; every message keeps the case.\<close>

definition ready_sr :: "nat \<Rightarrow> sn_context \<Rightarrow> bool" where
  "ready_sr n snc \<longleftrightarrow> (\<exists>c < 7. sn_c snc = of_nat c)"

lemma check_sr_progress:
  assumes "delivers K inbox" and "ready_sr (Suc n) (mem s)"
  shows "\<exists>t tr. check_sr K s = Some (Done (), t) \<and> trace t = trace s @ tr \<and> inputs tr = [] \<and>
    inbox (world t) = inbox (world s) \<and> ready_sr n (mem t)"
proof -
  from assms(2) obtain c where c: "c < 7" "sn_c (mem s) = of_nat c" by (auto simp: ready_sr_def)
  have "\<exists>fn. do_check_pr_sr (sn_cases_sr ! c) = Some fn"
    using less_7_cases [OF c(1)] by (auto simp: case_sr_simps)
  then obtain fn where fn: "do_check_pr_sr (sn_cases_sr ! c) = Some fn" by blast
  have n: "c < 19" using c by simp
  show ?thesis
    using c
    by (simp add: check_sr_def run_simps the_case_sr_run [OF n] fn call_check_sr_total
        check_total_sr_def delivers_simps(8) [OF assms(1)] ready_sr_def) blast
qed

interpretation sr: live_sn_server K SCTP_ENABLE_STRRESET_MASK "check_sr K" view_sr upd_sr
    "\<lambda>(c, v, t). v" inbox ready_sr
  for K :: "'w kernel" and inbox :: "'w \<Rightarrow> (cint \<times> cushort) list"
  by unfold_locales
    (erule (1) check_sr_progress | erule (3) check_sr_Done
      | simp add: view_sr_def ready_sr_def upd_sr_command split: prod.split)+

section \<open>The verdict in closed form\<close>

lemma foldl_upd_sr:
  "foldl upd_sr (c, 1, 0) xs =
     (c, if hits (target_sr c) (data_lengths (arrivals xs)) then 0 else 1,
      sum_list (data_lengths (arrivals xs)))"
proof (induction xs rule: rev_induct)
  case Nil
  show ?case by (simp add: data_lengths_def)
next
  case (snoc x xs)
  then show ?case
    by (cases x) (auto simp: data_lengths_def hits_snoc)
qed

definition verdict_sr :: "cint \<Rightarrow> (cint \<times> cushort) list \<Rightarrow> cint" where
  "verdict_sr c ms = (if hits (target_sr c) (data_lengths ms) then 0 else 1)"

lemma main_sr_server:
  "main_sr K [prog, ip, port, c, ''-l''] =
     sn_serve K SCTP_ENABLE_STRRESET_MASK (check_sr K)
       (zero_context\<lparr>sn_c := atoi c, sn_cb1 := 1\<rparr>) ip port"
  by (rule ext) (simp add: main_sr_def sn_main_def do_server_sr_def)

lemma start_view_sr: "view_sr (zero_context\<lparr>sn_c := c, sn_cb1 := 1\<rparr>) = (c, 1, 0)"
  by (simp add: view_sr_def zero_context_def)

lemma main_sr_returns:
  assumes "delivers K inbox" and "inbox (world s) = ms" and "session ms" and "fst (last ms) \<noteq> -1"
    and "n < 7" and "atoi c = of_nat n"
  shows "\<exists>t. main_sr K [prog, ip, port, c, ''-l''] s = Some (Done (verdict_sr (atoi c) ms), t)"
proof -
  have "ready_sr (due ms) (zero_context\<lparr>sn_c := atoi c, sn_cb1 := 1\<rparr>)"
    using assms(5,6) by (auto simp: ready_sr_def)
  from sr.sn_serve_returns [OF assms(1-4) this, of ip port] obtain t tr v where run:
    "main_sr K [prog, ip, port, c, ''-l''] s = Some (Done v, t)" "trace t = trace s @ tr"
    "arrivals (inputs tr) = ms"
    unfolding main_sr_server by blast
  from sr.sn_serve_verdict [OF run(1) [unfolded main_sr_server]] run(2,3)
  have "v = verdict_sr (atoi c) ms"
    by (auto simp: start_view_sr foldl_upd_sr verdict_sr_def)
  with run show ?thesis by blast
qed

text \<open>
  C2: whatever the kernel does, when the server returns, it has seen a whole session, and its
  status is 0 exactly when the lengths of the data messages that arrived, added up as they came,
  at some point made the case's total; a total that is passed over, or gone beyond later, does
  not matter. The status is 1 otherwise.
\<close>

theorem strreset_server_verdict:
  assumes "main_sr K [prog, ip, port, c, ''-l''] s = Some (Done v, t)"
  shows "\<exists>tr. trace t = trace s @ tr \<and> session (arrivals (inputs tr)) \<and>
    v = (if hits (target_sr (atoi c)) (data_lengths (arrivals (inputs tr))) then 0 else 1)"
  using sr.sn_serve_verdict [OF assms [unfolded main_sr_server]]
  by (auto simp: start_view_sr foldl_upd_sr)

theorem strreset_server_verdict_witness:
  "\<exists>v t tr. main_sr mailbox [''strreset'', ''10.0.0.1'', ''8888'', ''4'', ''-l'']
        \<lparr>mem = zero_context, world = [(11, 0), (100, 1), (12, 0)], trace = []\<rparr> = Some (Done v, t) \<and>
      trace t = [] @ tr \<and> session (arrivals (inputs tr)) \<and>
      v = (if hits (target_sr 4) (data_lengths (arrivals (inputs tr))) then 0 else 1)"
proof -
  let ?s = "\<lparr>mem = zero_context, world = [(11, 0), (100, 1), (12, 0)], trace = []\<rparr>
    :: (sn_context, (cint \<times> cushort) list) machine"
  obtain t where run: "main_sr mailbox [''strreset'', ''10.0.0.1'', ''8888'', ''4'', ''-l''] ?s =
      Some (Done (verdict_sr (atoi ''4'') [(11, 0), (100, 1), (12, 0)]), t)"
    using main_sr_returns [OF mailbox_delivers refl, where n = 4 and c = "''4''" and s = ?s and
        prog = "''strreset''" and ip = "''10.0.0.1''" and port = "''8888''"]
    by (auto simp: session_def closing_def sn_cmds atoi_eval)
  from strreset_server_verdict [OF run] run show ?thesis
    by (auto simp: atoi_eval)
qed

text \<open>
  C22: on a kernel that delivers a session, the server of a case of the table always returns, with
  the verdict on the messages delivered.
\<close>

theorem strreset_server_returns:
  assumes "delivers K inbox" and "inbox (world s) = ms" and "session ms" and "fst (last ms) \<noteq> -1"
    and "n < 7" and "atoi c = of_nat n"
  shows "\<exists>t. main_sr K [prog, ip, port, c, ''-l''] s = Some (Done (verdict_sr (atoi c) ms), t)"
  using assms by (rule main_sr_returns)

theorem strreset_server_returns_witness:
  "\<exists>t. main_sr mailbox [''strreset'', ''10.0.0.1'', ''8888'', ''4'', ''-l'']
      \<lparr>mem = zero_context, world = [(11, 0), (1100, 1), (12, 0)], trace = []\<rparr> = Some (Done 0, t)"
proof -
  let ?s = "\<lparr>mem = zero_context, world = [(11, 0), (1100, 1), (12, 0)], trace = []\<rparr>
    :: (sn_context, (cint \<times> cushort) list) machine"
  have "\<exists>t. main_sr mailbox [''strreset'', ''10.0.0.1'', ''8888'', ''4'', ''-l''] ?s =
      Some (Done (verdict_sr (atoi ''4'') [(11, 0), (1100, 1), (12, 0)]), t)"
    by (rule strreset_server_returns [OF mailbox_delivers, where n = 4])
      (simp_all add: session_def closing_def sn_cmds atoi_eval)
  moreover have "verdict_sr (atoi ''4'') [(11, 0), (1100, 1), (12, 0)] = 0"
    by (simp add: verdict_sr_def target_sr_def case_sr_simps data_lengths_def sn_cmds atoi_eval
        hits_def prefix_Cons) (rule exI [of _ "[1100]"], simp)
  ultimately show ?thesis by simp
qed

lemma target_sr_eq:
  assumes "n < 7"
  shows "target_sr (of_nat n) = of_nat (count_sr n) * to_long (value_sr n)"
    and "unat (to_long (value_sr n)) \<le> 6000" and "0 < unat (to_long (value_sr n))"
    and "count_sr n \<le> 70001" and "0 < count_sr n" and "value_sr n \<notin> {11, 12}"
  using less_7_cases [OF assms]
  by (auto simp: target_sr_def case_sr_simps count_sr_eval value_sr_def)

lemma main_sr_on_values:
  assumes "delivers K inbox" and "n < 7" and "atoi c = of_nat n"
    and "map fst (inbox (world s)) =
      SN_CMD_SET_STRRESET # replicate m (value_sr n) @ [SN_CMD_CLOSE_ASOC]"
  shows "\<exists>t. main_sr K [prog, ip, port, c, ''-l''] s =
      Some (Done (if count_sr n \<le> m then 0 else 1), t)"
proof -
  let ?ms = "inbox (world s)"
  note tgt = target_sr_eq [OF assms(2)]
  have v: "value_sr n \<noteq> SN_CMD_SET_STRRESET" "value_sr n \<noteq> SN_CMD_CLOSE_ASOC"
    using tgt(6) by (auto simp: sn_cmds)
  have lens: "data_lengths ?ms = replicate m (to_long (value_sr n))"
    using v by (simp add: data_lengths_map assms(4) filter_replicate map_replicate)
  have "list_all (\<lambda>l. \<not> closing l) (SN_CMD_SET_STRRESET # replicate m (value_sr n))"
    using less_7_cases [OF assms(2)]
    by (auto simp: list_all_iff closing_def sn_cmds value_sr_def case_sr_simps)
  with assms(4) have ses: "session ?ms" and last: "fst (last ?ms) = SN_CMD_CLOSE_ASOC"
    using session_script [of ?ms "SN_CMD_SET_STRRESET # replicate m (value_sr n)"] by simp_all
  have "hits (target_sr (of_nat n)) (data_lengths ?ms) \<longleftrightarrow> count_sr n \<le> m"
  proof (cases "count_sr n \<le> m")
    case True
    then show ?thesis
      unfolding lens tgt(1) hits_replicate using tgt(5) by blast
  next
    case False
    have "k = count_sr n" if "k \<le> m"
      "of_nat k * to_long (value_sr n) = of_nat (count_sr n) * to_long (value_sr n)" for k
    proof (rule of_nat_mult_inject [OF that(2) tgt(3)])
      have "count_sr n * unat (to_long (value_sr n)) \<le> 70001 * 6000"
        using tgt(2,4) by (intro mult_le_mono)
      then show "count_sr n * unat (to_long (value_sr n)) < 2 ^ 64" by simp
      have "k * unat (to_long (value_sr n)) \<le> 70001 * 6000"
        using tgt(2,4) that(1) False by (intro mult_le_mono) auto
      then show "k * unat (to_long (value_sr n)) < 2 ^ 64" by simp
    qed
    with False show ?thesis
      unfolding lens tgt(1) hits_replicate by blast
  qed
  with main_sr_returns [OF assms(1) refl ses _ assms(2,3), of prog ip port] last show ?thesis
    by (auto simp: verdict_sr_def assms(3) sn_cmds)
qed

text \<open>
  C23: fed with the two commands of a run around any number of data messages of the case's
  length, the server passes exactly when there are at least as many as the client sends: a lost
  message fails the test, an extra copy does not. In particular the client's own script passes.
\<close>

theorem strreset_passes_iff_enough:
  assumes "delivers K inbox" and "n < 7" and "atoi c = of_nat n"
    and "map fst (inbox (world s)) =
      SN_CMD_SET_STRRESET # replicate m (value_sr n) @ [SN_CMD_CLOSE_ASOC]"
  shows "\<exists>t. main_sr K [prog, ip, port, c, ''-l''] s =
      Some (Done (if count_sr n \<le> m then 0 else 1), t)"
  using assms by (rule main_sr_on_values)

theorem strreset_passes_iff_enough_witness:
  "\<exists>t. main_sr mailbox [''strreset'', ''10.0.0.1'', ''8888'', ''6'', ''-l'']
      \<lparr>mem = zero_context, world = map (\<lambda>l. (l, 0)) (11 # replicate 13 100 @ [12]), trace = []\<rparr> =
      Some (Done 1, t)"
proof -
  let ?s = "\<lparr>mem = zero_context, world = map (\<lambda>l. (l, 0)) (11 # replicate 13 100 @ [12]), trace = []\<rparr>
    :: (sn_context, (cint \<times> cushort) list) machine"
  have "atoi ''6'' = of_nat 6" by (simp add: atoi_eval)
  moreover have "map fst (world ?s) =
      SN_CMD_SET_STRRESET # replicate 13 (value_sr 6) @ [SN_CMD_CLOSE_ASOC]"
    by (simp add: sn_cmds value_sr_def case_sr_simps o_def)
  ultimately show ?thesis
    using strreset_passes_iff_enough [OF mailbox_delivers, of 6 "''6''" ?s 13]
    by (simp add: count_sr_eval)
qed

section \<open>Cases that do not exist\<close>

text \<open>
  The number of the case is not checked: once the socket is there the client looks it up in the table, outside
  of which the access is undefined; the last twelve entries of the table hold null pointers.
\<close>

lemma null_cases_sr: "7 \<le> k \<Longrightarrow> k < 19 \<Longrightarrow> sn_cases_sr ! k = null_case_sr"
  by (simp add: sn_cases_sr_def SN_CASE_MAX_sr_def nth_append)

lemma main_sr_no_case:
  assumes "all_succeed K"
  shows "sint (atoi c) < 0 \<or> 19 \<le> sint (atoi c) \<Longrightarrow>
      \<exists>t. main_sr K [prog, ip, port, c, ''-s''] s = Some (Fault Out_of_bounds, t)"
    and "7 \<le> sint (atoi c) \<Longrightarrow> sint (atoi c) < 19 \<Longrightarrow>
      \<exists>t. main_sr K [prog, ip, port, c, ''-s''] s = Some (Fault Null_call, t)"
proof -
  obtain t where t: "sn_c (mem t) = atoi c" and
    opens: "\<forall>ms. block (run K (Sleep 3) # store (\<lambda>_. zero_context\<lparr>sn_c := atoi c\<rparr>) #
      sn_create_asoc_sk K ip port # ms) s = block ms t"
    using client_opens [OF assms] by blast
  let ?argv = "[prog, ip, port, c, ''-s'']"
  obtain ms where run: "main_sr K ?argv s =
      seq (block (seq the_case_sr (\<lambda>k. call_setup_sr K (do_setup_pr_sr k)) # ms)) (\<lambda>_. return 0) t"
    by (simp add: main_sr_client do_client_sr_def seq_run opens del: block.simps)
  show "\<exists>t. main_sr K ?argv s = Some (Fault Out_of_bounds, t)"
    if "sint (atoi c) < 0 \<or> 19 \<le> sint (atoi c)"
    using that unfolding run by (auto simp: run_simps the_case_sr_def t SN_CASE_MAX_sr_def)
  show "\<exists>t. main_sr K ?argv s = Some (Fault Null_call, t)"
    if "7 \<le> sint (atoi c)" "sint (atoi c) < 19"
  proof -
    have "sn_cases_sr ! unat (atoi c) = null_case_sr"
      using that by (intro null_cases_sr) (auto simp: unat_nonneg)
    with that show ?thesis
      unfolding run by (simp add: run_simps the_case_sr_def t SN_CASE_MAX_sr_def
          call_setup_sr_def null_case_sr_def)
  qed
qed

end
