(* ===== verification/Prsctp.thy ===== *)
theory Prsctp
  imports Sn_Socket
begin

text \<open>
  \<open>testcase/conformance/prsctp/sctp_pr.c\<close>: the conformance test of partial reliability (RFC 3758
  and RFC 7496). The client sends messages under a time to live, a limit of retransmissions or a
  priority while the firewall drops all data, then messages that are to arrive; the server checks
  the lengths of those that do. The functions the program shares word for word with \<open>strreset.c\<close>
  are abbreviations of the common definitions.
\<close>

section \<open>The functions shared with the other programs\<close>

type_synonym sn_context_pr = sn_context

abbreviation sn_get_asoc_id_pr :: "'w kernel \<Rightarrow> cint \<Rightarrow> ('w, cint) sn" where
  "sn_get_asoc_id_pr \<equiv> sn_get_asoc_id"
abbreviation sn_do_setup_frag_interleave_pr :: "'w kernel \<Rightarrow> ('w, unit) sn" where
  "sn_do_setup_frag_interleave_pr \<equiv> sn_do_setup_frag_interleave"
abbreviation sn_do_setup_strm_interleave_pr :: "'w kernel \<Rightarrow> ('w, unit) sn" where
  "sn_do_setup_strm_interleave_pr \<equiv> sn_do_setup_strm_interleave"
abbreviation sn_create_asoc_sk_pr :: "'w kernel \<Rightarrow> string \<Rightarrow> string \<Rightarrow> ('w, unit) sn" where
  "sn_create_asoc_sk_pr \<equiv> sn_create_asoc_sk"
abbreviation sn_create_listen_sk_pr :: "'w kernel \<Rightarrow> string \<Rightarrow> string \<Rightarrow> ('w, unit) sn" where
  "sn_create_listen_sk_pr \<equiv> sn_create_listen_sk"
abbreviation sn_enable_asoc_strreset_pr :: "'w kernel \<Rightarrow> ('w, unit) sn" where
  "sn_enable_asoc_strreset_pr K \<equiv> sn_enable_asoc_strreset K SCTP_ENABLE_RESET_STREAM_REQ"
abbreviation sn_enable_sk_recvinfo_pr :: "'w kernel \<Rightarrow> ('w, unit) sn" where
  "sn_enable_sk_recvinfo_pr \<equiv> sn_enable_sk_recvinfo"
abbreviation sn_send_asoc_cmd_pr :: "'w kernel \<Rightarrow> cint \<Rightarrow> ('w, unit) sn" where
  "sn_send_asoc_cmd_pr K msg_len \<equiv> sn_send_asoc_cmd K msg_len msg_len"
abbreviation sn_get_peer_cmd_pr :: "'w kernel \<Rightarrow> ('w, cint) sn" where
  "sn_get_peer_cmd_pr \<equiv> sn_get_peer_cmd"
abbreviation sn_enable_peer_strreset_pr :: "'w kernel \<Rightarrow> ('w, unit) sn" where
  "sn_enable_peer_strreset_pr K \<equiv> sn_send_asoc_cmd_pr K SN_CMD_SET_STRRESET"
abbreviation sn_send_asoc_msg_pr :: "'w kernel \<Rightarrow> cint \<Rightarrow> cint \<Rightarrow> cint \<Rightarrow> cint \<Rightarrow> ('w, unit) sn" where
  "sn_send_asoc_msg_pr \<equiv> sn_send_asoc_msg"
abbreviation sn_send_peer_ack_pr :: "'w kernel \<Rightarrow> ('w, unit) sn" where
  "sn_send_peer_ack_pr \<equiv> sn_send_peer_ack"
abbreviation sn_close_asoc_sk_pr :: "'w kernel \<Rightarrow> ('w, unit) sn" where
  "sn_close_asoc_sk_pr K \<equiv> sn_close_asoc_sk K SN_CMD_CLOSE_ASOC"

section \<open>The case table\<close>

definition SCTP_PR_SCTP_TTL :: cint where "SCTP_PR_SCTP_TTL = 0x10"
definition SCTP_PR_SCTP_RTX :: cint where "SCTP_PR_SCTP_RTX = 0x20"
definition SCTP_PR_SCTP_PRIO :: cint where "SCTP_PR_SCTP_PRIO = 0x30"

lemmas pr_policies = SCTP_PR_SCTP_TTL_def SCTP_PR_SCTP_RTX_def SCTP_PR_SCTP_PRIO_def

datatype setup_fn_pr = Do_setup_pr
datatype test_fn_pr = Do_test_pr | Do_test_pr_b | Do_test_pr_c | Do_test_pr_x | Do_test_pr_bx
  | Do_test_pr_cx | Do_test_pr_cxx | Do_test_pr_cxxx
datatype check_fn_pr = Do_check_pr | Do_check_pr_c | Do_check_pr_cx | Do_check_pr_cxx

record sn_case_pr =
  drop_pr :: cint
  flags_pr :: cint
  values_pr :: "cint list"
  length_pr :: cint
  do_setup_pr_pr :: "setup_fn_pr option"
  do_test_pr_pr :: "test_fn_pr option"
  do_check_pr_pr :: "check_fn_pr option"

definition case_pr :: "cint \<Rightarrow> cint \<Rightarrow> cint \<Rightarrow> test_fn_pr \<Rightarrow> check_fn_pr \<Rightarrow> sn_case_pr" where
  "case_pr policy v len test check =
     \<lparr>drop_pr = 1, flags_pr = policy, values_pr = v # replicate 8 0, length_pr = len,
      do_setup_pr_pr = Some Do_setup_pr, do_test_pr_pr = Some test, do_check_pr_pr = Some check\<rparr>"

definition null_case_pr :: sn_case_pr where
  "null_case_pr =
     \<lparr>drop_pr = 0, flags_pr = 0, values_pr = replicate 9 0, length_pr = 0,
      do_setup_pr_pr = None, do_test_pr_pr = None, do_check_pr_pr = None\<rparr>"

definition SN_CASE_MAX_pr :: nat where "SN_CASE_MAX_pr = 19"

definition sn_cases_pr :: "sn_case_pr list" where
  "sn_cases_pr =
     [case_pr SCTP_PR_SCTP_TTL 5000 1024 Do_test_pr Do_check_pr,
      case_pr SCTP_PR_SCTP_TTL 5000 1024 Do_test_pr_b Do_check_pr,
      case_pr SCTP_PR_SCTP_TTL 5000 1024 Do_test_pr_c Do_check_pr_c,
      case_pr SCTP_PR_SCTP_RTX 2 1024 Do_test_pr Do_check_pr,
      case_pr SCTP_PR_SCTP_RTX 2 1024 Do_test_pr_b Do_check_pr,
      case_pr SCTP_PR_SCTP_RTX 2 1024 Do_test_pr_c Do_check_pr_c,
      case_pr SCTP_PR_SCTP_PRIO 2 4500 Do_test_pr_x Do_check_pr,
      case_pr SCTP_PR_SCTP_PRIO 2 4500 Do_test_pr_bx Do_check_pr,
      case_pr SCTP_PR_SCTP_PRIO 2 4500 Do_test_pr_cx Do_check_pr_cx,
      case_pr SCTP_PR_SCTP_PRIO 2 500 Do_test_pr_cxx Do_check_pr_cxx,
      case_pr SCTP_PR_SCTP_PRIO 2 500 Do_test_pr_cxxx Do_check_pr_cxx]
     @ replicate (SN_CASE_MAX_pr - 11) null_case_pr"

text \<open>\<open>sn_cases[snc->c]\<close>, an access outside the table being undefined.\<close>

definition the_case_pr :: "('w, sn_case_pr) sn" where
  "the_case_pr =
     seq load (\<lambda>snc.
       if 0 \<le> sint (sn_c snc) \<and> sint (sn_c snc) < int SN_CASE_MAX_pr
       then return (sn_cases_pr ! unat (sn_c snc))
       else crash Out_of_bounds)"

section \<open>Options and the firewall\<close>

definition sn_do_setup_so_sndbuf :: "'w kernel \<Rightarrow> ('w, unit) sn" where
  "sn_do_setup_so_sndbuf K =
     seq load (\<lambda>snc.
       must K (Setsockopt (sn_fd snc) SO_SNDBUF (Int_value 2500)) (\<lambda>v. v \<noteq> 0) ''setsockopt'')"

definition sn_enable_asoc_prsctp_support :: "'w kernel \<Rightarrow> ('w, unit) sn" where
  "sn_enable_asoc_prsctp_support K =
     seq load (\<lambda>snc.
       must K (Setsockopt (sn_fd snc) SCTP_PR_SUPPORTED (Assoc_value (asoc_id snc) 1))
         (\<lambda>v. v \<noteq> 0) ''setsockopt'')"

definition sn_close_asoc_streams_pr :: "'w kernel \<Rightarrow> ('w, unit) sn" where
  "sn_close_asoc_streams_pr K =
     seq the_case_pr (\<lambda>k.
       if drop_pr k = 0 then return ()
       else block [
         run K (Shell ''iptables -A OUTPUT -p sctp --chunk-types any DATA -j DROP''),
         run K (Printf ''all stream data will be drop in INPUT'' [])])"

text \<open>The statements of \<open>sn_reopen_asoc_streams\<close> after its guard.\<close>

definition reopen_steps_pr :: "'w kernel \<Rightarrow> ('w, unit) sn list" where
  "reopen_steps_pr K =
     [run K (Shell ''iptables -F''),
      run K (Printf ''all stream data can be transmitted now'' []),
      run K (Sleep 10)]"

definition sn_reopen_asoc_streams_pr :: "'w kernel \<Rightarrow> ('w, unit) sn" where
  "sn_reopen_asoc_streams_pr K =
     seq the_case_pr (\<lambda>k. if drop_pr k = 0 then return () else block (reopen_steps_pr K))"

text \<open>
  The body of the thread, statement by statement, since other statements may run between them.
  The case is not written while the thread runs, so the guard may be evaluated at each of them.
\<close>

definition cleanup_sctp :: "'w kernel \<Rightarrow> ('w, unit) sn list" where
  "cleanup_sctp K =
     run K (Sleep 3)
     # map (\<lambda>m. seq the_case_pr (\<lambda>k. if drop_pr k = 0 then return () else m)) (reopen_steps_pr K)"

section \<open>The tests the client runs\<close>

text \<open>
  \<open>sn_send_asoc_msg(snc, len, sid, sn_cases[snc->c].flags | bits, sn_cases[snc->c].values[0] - lower)\<close>,
  and the same for a message of the case's length on stream 1.
\<close>

definition send_policy_pr ::
  "'w kernel \<Rightarrow> cint \<Rightarrow> cint \<Rightarrow> cint \<Rightarrow> cint \<Rightarrow> ('w, unit) sn" where
  "send_policy_pr K len sid bits lower =
     seq the_case_pr (\<lambda>k.
       sn_send_asoc_msg_pr K len sid (flags_pr k OR bits) (values_pr k ! 0 - lower))"

definition send_length_pr :: "'w kernel \<Rightarrow> cint \<Rightarrow> ('w, unit) sn" where
  "send_length_pr K bits =
     seq the_case_pr (\<lambda>k.
       sn_send_asoc_msg_pr K (length_pr k) 1 (flags_pr k OR bits) (values_pr k ! 0))"

definition sn_do_setup_pr :: "'w kernel \<Rightarrow> ('w, unit) sn" where
  "sn_do_setup_pr K = return ()"

definition sn_do_test_pr :: "'w kernel \<Rightarrow> ('w, unit) sn" where
  "sn_do_test_pr K =
     block [
       sn_close_asoc_streams_pr K,
       send_length_pr K 0,
       run K (Sleep 10),
       sn_send_asoc_msg_pr K 1000 1 0 0,
       sn_reopen_asoc_streams_pr K]"

definition sn_do_test_pr_b :: "'w kernel \<Rightarrow> ('w, unit) sn" where
  "sn_do_test_pr_b K =
     block [
       sn_close_asoc_streams_pr K,
       send_length_pr K 1,
       run K (Sleep 10),
       sn_send_asoc_msg_pr K 1000 1 1 0,
       sn_reopen_asoc_streams_pr K]"

definition sn_do_test_pr_c :: "'w kernel \<Rightarrow> ('w, unit) sn" where
  "sn_do_test_pr_c K =
     block [
       sn_close_asoc_streams_pr K,
       send_policy_pr K 100 1 1 0,
       run K (Sleep 10),
       sn_send_asoc_msg_pr K 100 1 1 0,
       sn_send_asoc_msg_pr K 100 1 0 0,
       sn_reopen_asoc_streams_pr K]"

definition sn_do_test_pr_x :: "'w kernel \<Rightarrow> ('w, unit) sn" where
  "sn_do_test_pr_x K =
     block [
       sn_do_setup_so_sndbuf K,
       sn_close_asoc_streams_pr K,
       send_length_pr K 0,
       send_policy_pr K 1000 1 0 1,
       sn_reopen_asoc_streams_pr K]"

definition sn_do_test_pr_bx :: "'w kernel \<Rightarrow> ('w, unit) sn" where
  "sn_do_test_pr_bx K =
     block [
       sn_do_setup_so_sndbuf K,
       sn_close_asoc_streams_pr K,
       send_length_pr K 1,
       send_policy_pr K 1000 1 1 1,
       sn_reopen_asoc_streams_pr K]"

definition sn_do_test_pr_cx :: "'w kernel \<Rightarrow> ('w, unit) sn" where
  "sn_do_test_pr_cx K =
     block [
       sn_do_setup_so_sndbuf K,
       sn_close_asoc_streams_pr K,
       send_length_pr K 1,
       send_policy_pr K 1000 1 1 1,
       send_policy_pr K 1000 1 0 1,
       sn_reopen_asoc_streams_pr K]"

text \<open>
  The last two tests start a thread that removes the rule while the main thread sends; \<open>sched\<close> is
  the order in which their statements run.
\<close>

definition sn_do_test_pr_cxx :: "'w kernel \<Rightarrow> bool list \<Rightarrow> ('w, unit) sn" where
  "sn_do_test_pr_cxx K sched =
     block [
       sn_do_setup_so_sndbuf K,
       sn_close_asoc_streams_pr K,
       send_policy_pr K 1 1 1 0,
       send_policy_pr K 1 1 1 1,
       send_policy_pr K 1 1 1 0,
       send_policy_pr K 1 1 1 0,
       send_policy_pr K 1 1 1 1,
       run K (Sleep 10),
       run K Thread_create,
       in_parallel sched [send_policy_pr K 1000 1 1 1, send_policy_pr K 1000 1 0 1] (cleanup_sctp K),
       run K Thread_join,
       run K (Sleep 3)]"

definition sn_do_test_pr_cxxx :: "'w kernel \<Rightarrow> bool list \<Rightarrow> ('w, unit) sn" where
  "sn_do_test_pr_cxxx K sched =
     block [
       sn_do_setup_so_sndbuf K,
       sn_close_asoc_streams_pr K,
       send_policy_pr K 1 0 1 0,
       send_policy_pr K 1 1 1 1,
       send_policy_pr K 1 2 1 0,
       send_policy_pr K 1 3 1 0,
       send_policy_pr K 1 4 1 1,
       run K (Sleep 10),
       run K Thread_create,
       in_parallel sched [send_policy_pr K 1000 2 1 1, send_policy_pr K 1000 3 0 1] (cleanup_sctp K),
       run K Thread_join,
       run K (Sleep 3)]"

section \<open>The checks the server makes\<close>

text \<open>
  \<open>cb[4]\<close> is past the end of the array \<open>cb[4]\<close>: the 8 bytes there are \<open>asoc_id\<close> and the padding after it,
  the field \<open>sn_tail\<close>.
\<close>

definition count_and_add_pr :: "('w, unit) sn" where
  \<comment> \<open>\<open>snc->cb[3]++; snc->cb[4] += snc->cb[2];\<close>\<close>
  "count_and_add_pr =
     store (\<lambda>snc. snc\<lparr>sn_cb3 := sn_cb3 snc + 1, sn_tail := sn_tail snc + sn_cb2 snc\<rparr>)"

definition expect_pr :: "clong \<Rightarrow> ('w, unit) sn" where
  \<comment> \<open>\<open>if (cb[4] != v) cb[1] = 1; else cb[1] = 0;\<close>\<close>
  "expect_pr v =
     store (\<lambda>snc. if sn_tail snc \<noteq> v then snc\<lparr>sn_cb1 := 1\<rparr> else snc\<lparr>sn_cb1 := 0\<rparr>)"

definition print_expected_pr :: "'w kernel \<Rightarrow> clong \<Rightarrow> ('w, unit) sn" where
  "print_expected_pr K v = seq load (\<lambda>snc. run K (Printf ''expected %d, get: %d'' [v, sn_cb2 snc]))"

definition sn_do_check_pr :: "'w kernel \<Rightarrow> ('w, unit) sn" where
  "sn_do_check_pr K =
     block [
       print_expected_pr K 1000,
       store (\<lambda>snc. if sn_cb2 snc \<noteq> 1000 then snc\<lparr>sn_cb1 := 1\<rparr> else snc\<lparr>sn_cb1 := 0\<rparr>)]"

definition sn_do_check_pr_c :: "'w kernel \<Rightarrow> ('w, unit) sn" where
  "sn_do_check_pr_c K =
     block [
       print_expected_pr K 100,
       count_and_add_pr,
       seq load (\<lambda>snc.
         if sn_cb3 snc = 1 then expect_pr 100 else expect_pr 200)]"

definition sn_do_check_pr_cx :: "'w kernel \<Rightarrow> ('w, unit) sn" where
  "sn_do_check_pr_cx K =
     block [
       print_expected_pr K 1000,
       count_and_add_pr,
       seq load (\<lambda>snc.
         if sn_cb3 snc = 1 then expect_pr 1000 else expect_pr 2000)]"

definition sn_do_check_pr_cxx :: "'w kernel \<Rightarrow> ('w, unit) sn" where
  "sn_do_check_pr_cxx K =
     block [
       print_expected_pr K 1000,
       count_and_add_pr,
       seq load (\<lambda>snc.
         if sn_cb3 snc = 1 then expect_pr 1
         else if sn_cb3 snc = 2 then expect_pr 2
         else if sn_cb3 snc = 3 then expect_pr 1002
         else if sn_cb3 snc = 4 then expect_pr 2002
         else return ())]"

section \<open>Calls through the table\<close>

definition call_setup_pr :: "'w kernel \<Rightarrow> setup_fn_pr option \<Rightarrow> ('w, unit) sn" where
  "call_setup_pr K f = (case f of None \<Rightarrow> crash Null_call | Some Do_setup_pr \<Rightarrow> sn_do_setup_pr K)"

definition call_test_pr :: "'w kernel \<Rightarrow> bool list \<Rightarrow> test_fn_pr option \<Rightarrow> ('w, unit) sn" where
  "call_test_pr K sched f =
     (case f of
        None \<Rightarrow> crash Null_call
      | Some Do_test_pr \<Rightarrow> sn_do_test_pr K
      | Some Do_test_pr_b \<Rightarrow> sn_do_test_pr_b K
      | Some Do_test_pr_c \<Rightarrow> sn_do_test_pr_c K
      | Some Do_test_pr_x \<Rightarrow> sn_do_test_pr_x K
      | Some Do_test_pr_bx \<Rightarrow> sn_do_test_pr_bx K
      | Some Do_test_pr_cx \<Rightarrow> sn_do_test_pr_cx K
      | Some Do_test_pr_cxx \<Rightarrow> sn_do_test_pr_cxx K sched
      | Some Do_test_pr_cxxx \<Rightarrow> sn_do_test_pr_cxxx K sched)"

definition call_check_pr :: "'w kernel \<Rightarrow> check_fn_pr option \<Rightarrow> ('w, unit) sn" where
  "call_check_pr K f =
     (case f of
        None \<Rightarrow> crash Null_call
      | Some Do_check_pr \<Rightarrow> sn_do_check_pr K
      | Some Do_check_pr_c \<Rightarrow> sn_do_check_pr_c K
      | Some Do_check_pr_cx \<Rightarrow> sn_do_check_pr_cx K
      | Some Do_check_pr_cxx \<Rightarrow> sn_do_check_pr_cxx K)"

section \<open>The two programs\<close>

definition do_client_pr :: "'w kernel \<Rightarrow> bool list \<Rightarrow> string list \<Rightarrow> ('w, cint) sn" where
  "do_client_pr K sched argv =
     seq (block [
       run K (Sleep 3),
       store (\<lambda>_. zero_context\<lparr>sn_c := atoi (argv ! 3)\<rparr>),
       sn_create_asoc_sk_pr K (argv ! 1) (argv ! 2),
       seq the_case_pr (\<lambda>k. call_setup_pr K (do_setup_pr_pr k)),
       sn_enable_asoc_prsctp_support K,
       seq the_case_pr (\<lambda>k. call_test_pr K sched (do_test_pr_pr k)),
       run K (Sleep 5),
       sn_close_asoc_sk_pr K]) (\<lambda>_. return 0)"

definition check_pr :: "'w kernel \<Rightarrow> ('w, unit) sn" where
  \<comment> \<open>\<open>sn_cases[snc.c].do_check_pr(&snc)\<close>\<close>
  "check_pr K = seq the_case_pr (\<lambda>k. call_check_pr K (do_check_pr_pr k))"

definition do_server_pr :: "'w kernel \<Rightarrow> string list \<Rightarrow> ('w, cint) sn" where
  "do_server_pr K argv =
     sn_serve K SCTP_ENABLE_RESET_STREAM_REQ (check_pr K)
       (zero_context\<lparr>sn_c := atoi (argv ! 3), sn_cb1 := 1\<rparr>) (argv ! 1) (argv ! 2)"

definition main_pr :: "'w kernel \<Rightarrow> bool list \<Rightarrow> string list \<Rightarrow> ('w, cint) sn" where
  "main_pr K sched = sn_main K (do_server_pr K) (do_client_pr K sched)"

end
