(* ===== verification/Prsctp_Props.thy ===== *)
theory Prsctp_Props
  imports Prsctp
begin

text \<open>
  What the partial reliability test does: what the client asks of the kernel in each of its
  eleven cases, under every schedule of its two threads; the verdict of the server as a function
  of what arrives; and what the test can tell of a kernel, set against the policies of RFC 3758 and
  RFC 7496.
\<close>

section \<open>Looking a case up\<close>

lemma less_11_cases:
  "(n::nat) < 11 \<Longrightarrow> n = 10 \<or> n = 9 \<or> n = 8 \<or> n = 7 \<or> n = 6 \<or> n = 5 \<or> n = 4 \<or>
    n = 3 \<or> n = 2 \<or> n = 1 \<or> n = 0"
  by arith

lemma the_case_pr_run:
  assumes "n < 19" and "sn_c (mem s) = of_nat n"
  shows "the_case_pr s = Some (Done (sn_cases_pr ! n), s)"
  using assms by (simp add: the_case_pr_def run_simps SN_CASE_MAX_pr_def)

lemma emits_the_case_pr:
  assumes "n < 19" and "emits K (in_case (of_nat n)) R (f (sn_cases_pr ! n)) L"
  shows "emits K (in_case (of_nat n)) R (seq the_case_pr f) L"
  using assms(2) unfolding emits_def by (simp add: seq_Done [OF the_case_pr_run [OF assms(1)]])

lemma sn_cases_pr_nth:
  "sn_cases_pr ! 0 = case_pr 0x10 5000 1024 Do_test_pr Do_check_pr"
  "sn_cases_pr ! 1 = case_pr 0x10 5000 1024 Do_test_pr_b Do_check_pr"
  "sn_cases_pr ! 2 = case_pr 0x10 5000 1024 Do_test_pr_c Do_check_pr_c"
  "sn_cases_pr ! 3 = case_pr 0x20 2 1024 Do_test_pr Do_check_pr"
  "sn_cases_pr ! 4 = case_pr 0x20 2 1024 Do_test_pr_b Do_check_pr"
  "sn_cases_pr ! 5 = case_pr 0x20 2 1024 Do_test_pr_c Do_check_pr_c"
  "sn_cases_pr ! 6 = case_pr 0x30 2 4500 Do_test_pr_x Do_check_pr"
  "sn_cases_pr ! 7 = case_pr 0x30 2 4500 Do_test_pr_bx Do_check_pr"
  "sn_cases_pr ! 8 = case_pr 0x30 2 4500 Do_test_pr_cx Do_check_pr_cx"
  "sn_cases_pr ! 9 = case_pr 0x30 2 500 Do_test_pr_cxx Do_check_pr_cxx"
  "sn_cases_pr ! 10 = case_pr 0x30 2 500 Do_test_pr_cxxx Do_check_pr_cxx"
  by (simp_all add: sn_cases_pr_def pr_policies)

lemmas case_pr_simps = sn_cases_pr_nth sn_cases_pr_nth(2) [unfolded One_nat_def] case_pr_def

lemma case_facts_pr:
  assumes "n < 11"
  shows "unat (length_pr (sn_cases_pr ! n)) \<le> 10240" and "drop_pr (sn_cases_pr ! n) = 1"
    and "do_setup_pr_pr (sn_cases_pr ! n) = Some Do_setup_pr"
    and "\<exists>fn. do_test_pr_pr (sn_cases_pr ! n) = Some fn"
    and "\<exists>fn. do_check_pr_pr (sn_cases_pr ! n) = Some fn"
  using less_11_cases [OF assms] by (elim disjE; simp add: case_pr_simps)+

section \<open>The script of the client\<close>

abbreviation cork_pr :: "act list" where
  "cork_pr \<equiv> [Ran ''iptables -A OUTPUT -p sctp --chunk-types any DATA -j DROP'']"

abbreviation uncork_pr :: "act list" where
  "uncork_pr \<equiv> [Ran ''iptables -F'', Slept 10]"

text \<open>
  What each test does for a policy, its value and a length. In the last two, two messages race
  with the removal of the rule.
\<close>

definition race_pr :: "bool list \<Rightarrow> act list \<Rightarrow> act list" where
  "race_pr sched msgs =
     concat (interleave sched (map (\<lambda>a. [a]) msgs)
       [[Slept 3], [Ran ''iptables -F''], [], [Slept 10]])"

fun test_script_pr :: "test_fn_pr \<Rightarrow> bool list \<Rightarrow> cint \<Rightarrow> cint \<Rightarrow> cint \<Rightarrow> act list" where
  "test_script_pr Do_test_pr sched p v len =
     cork_pr @ [Sent len p 1 v, Slept 10, Sent 1000 0 1 0] @ uncork_pr"
| "test_script_pr Do_test_pr_b sched p v len =
     cork_pr @ [Sent len (p OR 1) 1 v, Slept 10, Sent 1000 1 1 0] @ uncork_pr"
| "test_script_pr Do_test_pr_c sched p v len =
     cork_pr @ [Sent 100 (p OR 1) 1 v, Slept 10, Sent 100 1 1 0, Sent 100 0 1 0] @ uncork_pr"
| "test_script_pr Do_test_pr_x sched p v len =
     [Opt SO_SNDBUF (Int_value 2500)] @ cork_pr @
     [Sent len p 1 v, Sent 1000 p 1 (v - 1)] @ uncork_pr"
| "test_script_pr Do_test_pr_bx sched p v len =
     [Opt SO_SNDBUF (Int_value 2500)] @ cork_pr @
     [Sent len (p OR 1) 1 v, Sent 1000 (p OR 1) 1 (v - 1)] @ uncork_pr"
| "test_script_pr Do_test_pr_cx sched p v len =
     [Opt SO_SNDBUF (Int_value 2500)] @ cork_pr @
     [Sent len (p OR 1) 1 v, Sent 1000 (p OR 1) 1 (v - 1), Sent 1000 p 1 (v - 1)] @ uncork_pr"
| "test_script_pr Do_test_pr_cxx sched p v len =
     [Opt SO_SNDBUF (Int_value 2500)] @ cork_pr @
     [Sent 1 (p OR 1) 1 v, Sent 1 (p OR 1) 1 (v - 1), Sent 1 (p OR 1) 1 v, Sent 1 (p OR 1) 1 v,
      Sent 1 (p OR 1) 1 (v - 1), Slept 10] @
     race_pr sched [Sent 1000 (p OR 1) 1 (v - 1), Sent 1000 p 1 (v - 1)] @ [Slept 3]"
| "test_script_pr Do_test_pr_cxxx sched p v len =
     [Opt SO_SNDBUF (Int_value 2500)] @ cork_pr @
     [Sent 1 (p OR 1) 0 v, Sent 1 (p OR 1) 1 (v - 1), Sent 1 (p OR 1) 2 v, Sent 1 (p OR 1) 3 v,
      Sent 1 (p OR 1) 4 (v - 1), Slept 10] @
     race_pr sched [Sent 1000 (p OR 1) 2 (v - 1), Sent 1000 p 3 (v - 1)] @ [Slept 3]"

definition client_script_pr :: "nat \<Rightarrow> bool list \<Rightarrow> act list" where
  "client_script_pr n sched =
     (let k = sn_cases_pr ! n in
      [Slept 3] @ sk_setup @ [Opt SCTP_PR_SUPPORTED (Assoc_value 0 1)] @
      test_script_pr (the (do_test_pr_pr k)) sched (flags_pr k) (values_pr k ! 0) (length_pr k) @
      [Slept 5, Sent SN_CMD_CLOSE_ASOC 0 0 0, Closed, Slept 5])"

section \<open>The client follows it\<close>

lemma emits_sndbuf [emits_intro]:
  "emits K P P (sn_do_setup_so_sndbuf K) [Opt SO_SNDBUF (Int_value 2500)]"
  unfolding sn_do_setup_so_sndbuf_def by (rule emits_eq, (rule emits_intro | simp)+)

lemma emits_prsctp_support [emits_intro]:
  "emits K P P (sn_enable_asoc_prsctp_support K) [Opt SCTP_PR_SUPPORTED (Assoc_value 0 1)]"
  unfolding sn_enable_asoc_prsctp_support_def by (rule emits_eq, (rule emits_intro | simp)+)

lemma emits_close_pr:
  assumes "n < 11"
  shows "emits K (in_case (of_nat n)) (in_case (of_nat n)) (sn_close_asoc_streams_pr K) cork_pr"
proof -
  have n: "n < 19" using assms by simp
  show ?thesis
    unfolding sn_close_asoc_streams_pr_def
    by (rule emits_the_case_pr [OF n], simp only: case_facts_pr [OF assms] if_False one_neq_zero,
        rule emits_eq, (rule emits_intro | simp)+)
qed

lemma emits_reopen_pr:
  assumes "n < 11"
  shows "emits K (in_case (of_nat n)) (in_case (of_nat n)) (sn_reopen_asoc_streams_pr K) uncork_pr"
proof -
  have n: "n < 19" using assms by simp
  show ?thesis
    unfolding sn_reopen_asoc_streams_pr_def reopen_steps_pr_def
    by (rule emits_the_case_pr [OF n], simp only: case_facts_pr [OF assms] if_False one_neq_zero,
        rule emits_eq, (rule emits_intro | simp)+)
qed

lemma emits_cleanup:
  assumes "n < 11"
  shows "list_all2 (emits K (in_case (of_nat n)) (in_case (of_nat n))) (cleanup_sctp K)
    [[Slept 3], [Ran ''iptables -F''], [], [Slept 10]]"
proof -
  have n: "n < 19" using assms by simp
  have guard: "emits K (in_case (of_nat n)) (in_case (of_nat n))
      (seq the_case_pr (\<lambda>k. if drop_pr k = 0 then return () else run K c)) (act_of c)" for c
    by (rule emits_the_case_pr [OF n], simp only: case_facts_pr [OF assms] if_False one_neq_zero)
      (rule emits_intro, rule refl)
  show ?thesis
    using guard [of "Shell ''iptables -F''"] guard [of "Sleep 10"]
      guard [of "Printf ''all stream data can be transmitted now'' []"]
    by (simp add: cleanup_sctp_def reopen_steps_pr_def emits_run)
qed

lemma emits_send_policy_pr:
  assumes "n < 11" and "unat len \<le> 10240"
  shows "emits K (in_case (of_nat n)) (in_case (of_nat n)) (send_policy_pr K len sid bits lower)
    [Sent len (flags_pr (sn_cases_pr ! n) OR bits) (ucast sid) (values_pr (sn_cases_pr ! n) ! 0 - lower)]"
proof -
  have n: "n < 19" using assms by simp
  show ?thesis
    unfolding send_policy_pr_def
    by (rule emits_the_case_pr [OF n]) (rule emits_sn_send_asoc_msg [OF assms(2)])
qed

lemma emits_send_length_pr:
  assumes "n < 11"
  shows "emits K (in_case (of_nat n)) (in_case (of_nat n)) (send_length_pr K bits)
    [Sent (length_pr (sn_cases_pr ! n)) (flags_pr (sn_cases_pr ! n) OR bits) 1
       (values_pr (sn_cases_pr ! n) ! 0)]"
proof -
  have n: "n < 19" using assms by simp
  show ?thesis
    unfolding send_length_pr_def
    by (rule emits_the_case_pr [OF n], rule emits_eq,
        rule emits_sn_send_asoc_msg [OF case_facts_pr(1) [OF assms]]) simp
qed

lemma emits_race_pr:
  assumes "n < 11" and "emits K (in_case (of_nat n)) (in_case (of_nat n)) m1 [a1]"
    and "emits K (in_case (of_nat n)) (in_case (of_nat n)) m2 [a2]"
  shows "emits K (in_case (of_nat n)) (in_case (of_nat n))
    (in_parallel sched [m1, m2] (cleanup_sctp K)) (race_pr sched [a1, a2])"
  unfolding race_pr_def
  by (rule emits_in_parallel [OF _ emits_cleanup [OF assms(1)]]) (simp add: assms)

lemmas test_defs_pr = sn_do_test_pr_def sn_do_test_pr_b_def sn_do_test_pr_c_def
  sn_do_test_pr_x_def sn_do_test_pr_bx_def sn_do_test_pr_cx_def sn_do_test_pr_cxx_def
  sn_do_test_pr_cxxx_def

lemma emits_call_test_pr:
  assumes "n < 11"
  shows "emits K (in_case (of_nat n)) (in_case (of_nat n)) (call_test_pr K sched (Some fn))
    (let k = sn_cases_pr ! n in
     test_script_pr fn sched (flags_pr k) (values_pr k ! 0) (length_pr k))"
proof -
  note rules = emits_race_pr [OF assms] emits_send_policy_pr [OF assms]
    emits_send_length_pr [OF assms] emits_close_pr [OF assms] emits_reopen_pr [OF assms] emits_intro
  show ?thesis
    by (cases fn; simp only: call_test_pr_def option.case test_fn_pr.case test_defs_pr Let_def;
        rule emits_eq, (rule rules | simp)+)
qed

lemma emits_client_pr:
  assumes "n < 11" and "atoi (argv ! 3) = of_nat n"
  shows "emits K (\<lambda>_. True) (in_case (of_nat n)) (do_client_pr K sched argv) (client_script_pr n sched)"
proof -
  have n: "n < 19" using assms by simp
  obtain fn where fn: "do_test_pr_pr (sn_cases_pr ! n) = Some fn"
    using case_facts_pr(4) [OF assms(1)] by blast
  have start: "emits K (\<lambda>_. True) (in_case (of_nat n))
     (store (\<lambda>_. zero_context\<lparr>sn_c := atoi (argv ! 3)\<rparr>)) []"
    by (rule emits_store) (simp add: assms(2))
  have setup_rule: "emits K (in_case (of_nat n)) (in_case (of_nat n))
    (seq the_case_pr (\<lambda>k. call_setup_pr K (do_setup_pr_pr k))) []"
    by (rule emits_the_case_pr [OF n])
      (simp add: case_facts_pr [OF assms(1)] call_setup_pr_def sn_do_setup_pr_def emits_return)
  have test: "emits K (in_case (of_nat n)) (in_case (of_nat n))
    (seq the_case_pr (\<lambda>k. call_test_pr K sched (do_test_pr_pr k)))
    (let k = sn_cases_pr ! n in
     test_script_pr fn sched (flags_pr k) (values_pr k ! 0) (length_pr k))"
    by (rule emits_the_case_pr [OF n], simp only: fn, rule emits_call_test_pr [OF assms(1)])
  note rules = start setup_rule test emits_intro
  show ?thesis
    unfolding do_client_pr_def
    by (rule emits_eq, (rule rules | simp)+)
      (simp add: client_script_pr_def fn Let_def)
qed

lemma main_pr_client:
  "main_pr K sched [prog, ip, port, c, ''-s''] = do_client_pr K sched [prog, ip, port, c, ''-s'']"
  by (rule ext) (simp add: main_pr_def sn_main_def)

lemma main_pr_client_completes:
  assumes "all_succeed K" and "n < 11" and "atoi c = of_nat n"
  shows "\<exists>t tr. main_pr K sched [prog, ip, port, c, ''-s''] s = Some (Done 0, t) \<and>
    trace t = trace s @ tr \<and> acts tr = client_script_pr n sched"
  unfolding main_pr_client
  by (rule emits_completes, rule emits_client_pr)
    (simp_all add: assms do_client_pr_def seq_return_value)

text \<open>A run that no call stops has the actions of the script, whichever way it is described.\<close>

lemma main_pr_client_acts:
  assumes "all_succeed K" and "n < 11" and "atoi c = of_nat n"
    and "main_pr K sched [prog, ip, port, c, ''-s''] s = Some (r, t)" and "trace t = trace s @ tr"
  shows "acts tr = client_script_pr n sched"
  using main_pr_client_completes [OF assms(1-3), of sched prog ip port s] assms(4,5) by auto

text \<open>
  C4: run as the client of one of its eleven cases, whatever the kernel answers and in whatever
  order the statements of the two threads run, the program always ends and never runs into
  undefined behaviour: either it performs exactly the messages (with their policy, flags, stream
  and value), options, rules and pauses of the script, and returns 0, or a call fails and it stops
  with status -1 after a prefix of the script.
\<close>

theorem prsctp_client_follows_script:
  assumes "n < 11" and "atoi c = of_nat n"
  shows "\<exists>r t tr. main_pr K sched [prog, ip, port, c, ''-s''] s = Some (r, t) \<and>
    trace t = trace s @ tr \<and>
    (case r of
       Done v \<Rightarrow> v = 0 \<and> acts tr = client_script_pr n sched
     | Exit e \<Rightarrow> e = -1 \<and> prefix (acts tr) (client_script_pr n sched) \<and> broke K tr
     | Fault _ \<Rightarrow> False)"
  unfolding main_pr_client
  by (rule emits_whole_run, rule emits_client_pr)
    (simp_all add: assms do_client_pr_def seq_return_value)

theorem prsctp_client_follows_script_witness:
  "\<exists>r t tr. main_pr mailbox [True, False] [''sctp_pr'', ''10.0.0.1'', ''8888'', ''10'', ''-s'']
      \<lparr>mem = zero_context, world = [(13, 0)], trace = []\<rparr> = Some (r, t) \<and>
    trace t = [] @ tr \<and>
    (case r of
       Done v \<Rightarrow> v = 0 \<and> acts tr = client_script_pr 10 [True, False]
     | Exit e \<Rightarrow> e = -1 \<and> prefix (acts tr) (client_script_pr 10 [True, False]) \<and>
         broke mailbox tr
     | Fault _ \<Rightarrow> False)"
  using prsctp_client_follows_script [of 10 "''10''" mailbox "[True, False]" "''sctp_pr''"
      "''10.0.0.1''" "''8888''" "\<lparr>mem = zero_context, world = [(13, 0)], trace = []\<rparr>"]
  by (simp add: atoi_eval)

section \<open>The verdict of the server\<close>

text \<open>The case, the verdict, the number of messages and the sum (\<open>cb[4]\<close>, kept in the bytes of
  \<open>asoc_id\<close>); and what each check does to the last three.\<close>

definition view_pr :: "sn_context \<Rightarrow> cint \<times> clong \<times> clong \<times> clong" where
  "view_pr snc = (sn_c snc, sn_cb1 snc, sn_cb3 snc, sn_tail snc)"

fun checked_pr :: "check_fn_pr \<Rightarrow> clong \<Rightarrow> clong \<times> clong \<times> clong \<Rightarrow> clong \<times> clong \<times> clong" where
  "checked_pr Do_check_pr l (v, k, acc) = (if l = 1000 then 0 else 1, k, acc)"
| "checked_pr Do_check_pr_c l (v, k, acc) =
     (if acc + l = (if k + 1 = 1 then 100 else 200) then 0 else 1, k + 1, acc + l)"
| "checked_pr Do_check_pr_cx l (v, k, acc) =
     (if acc + l = (if k + 1 = 1 then 1000 else 2000) then 0 else 1, k + 1, acc + l)"
| "checked_pr Do_check_pr_cxx l (v, k, acc) =
     (if k + 1 \<in> {1, 2, 3, 4}
      then if acc + l = (if k + 1 = 1 then 1 else if k + 1 = 2 then 2
             else if k + 1 = 3 then 1002 else 2002) then 0 else 1
      else v, k + 1, acc + l)"

abbreviation check_of_pr :: "cint \<Rightarrow> check_fn_pr" where
  "check_of_pr c \<equiv> the (do_check_pr_pr (sn_cases_pr ! unat c))"

fun upd_pr :: "cint \<times> clong \<times> clong \<times> clong \<Rightarrow> input \<Rightarrow> cint \<times> clong \<times> clong \<times> clong" where
  "upd_pr (c, x) (Arrived len sid) =
     (if len = SN_CMD_SET_STRRESET \<or> len = SN_CMD_CLOSE_ASOC then (c, x)
      else (c, checked_pr (check_of_pr c) (to_long len) x))"
| "upd_pr (c, v, k, acc) (Learned a) =
     (c, v, k, push_bit 32 (drop_bit 32 acc) OR ucast a)"

lemma the_case_pr_Done:
  "the_case_pr s = Some (Done k, t) \<Longrightarrow> t = s \<and> k = sn_cases_pr ! unat (sn_c (mem s))"
  by (auto simp: the_case_pr_def run_simps split: if_splits)

lemmas check_defs_pr = sn_do_check_pr_def sn_do_check_pr_c_def sn_do_check_pr_cx_def
  sn_do_check_pr_cxx_def print_expected_pr_def count_and_add_pr_def expect_pr_def

lemma call_check_pr_run:
  "\<exists>t tr. call_check_pr K (Some fn) s = Some (Done (), t) \<and> trace t = trace s @ tr \<and>
     inputs tr = [] \<and> (\<exists>c v. world t = snd (K (Printf c v) (world s))) \<and>
     view_pr (mem t) = (sn_c (mem s), checked_pr fn (sn_cb2 (mem s)) (snd (view_pr (mem s))))"
  by (cases fn) (simp_all add: call_check_pr_def check_defs_pr run_simps view_pr_def, blast+)

lemma check_pr_Done:
  assumes "check_pr K s = Some (Done (), t)"
    and "sn_cb2 (mem s) = to_long len"
    and "len \<noteq> SN_CMD_SET_STRRESET" and "len \<noteq> SN_CMD_CLOSE_ASOC"
  shows "\<exists>tr. trace t = trace s @ tr \<and> inputs tr = [] \<and>
    view_pr (mem t) = upd_pr (view_pr (mem s)) (Arrived len sid)"
proof -
  from assms(1) obtain k where k: "k = sn_cases_pr ! unat (sn_c (mem s))"
    "call_check_pr K (do_check_pr_pr k) s = Some (Done (), t)"
    by (auto simp: check_pr_def elim!: seq_DoneE dest!: the_case_pr_Done)
  then obtain fn where fn: "do_check_pr_pr k = Some fn"
    by (cases "do_check_pr_pr k") (auto simp: call_check_pr_def crash_run)
  from call_check_pr_run [of K fn s] k fn assms(2-4) show ?thesis
    by (auto simp: view_pr_def)
qed

definition ready_pr :: "nat \<Rightarrow> sn_context \<Rightarrow> bool" where
  "ready_pr n snc \<longleftrightarrow> (\<exists>c < 11. sn_c snc = of_nat c)"

lemma check_pr_progress:
  assumes "delivers K inbox" and "ready_pr (Suc n) (mem s)"
  shows "\<exists>t tr. check_pr K s = Some (Done (), t) \<and> trace t = trace s @ tr \<and> inputs tr = [] \<and>
    inbox (world t) = inbox (world s) \<and> ready_pr n (mem t)"
proof -
  from assms(2) obtain c where c: "c < 11" "sn_c (mem s) = of_nat c" by (auto simp: ready_pr_def)
  obtain fn where fn: "do_check_pr_pr (sn_cases_pr ! c) = Some fn"
    using case_facts_pr(5) [OF c(1)] by blast
  have n: "c < 19" using c by simp
  have "check_pr K s = call_check_pr K (Some fn) s"
    by (simp add: check_pr_def run_simps the_case_pr_run [OF n c(2)] fn)
  with call_check_pr_run [of K fn s] c delivers_simps(8) [OF assms(1)] show ?thesis
    by (auto simp: view_pr_def ready_pr_def)
qed

lemma upd_pr_command:
  "upd_pr x (Arrived SN_CMD_SET_STRRESET sid) = x" "upd_pr x (Arrived SN_CMD_CLOSE_ASOC sid) = x"
  by (cases x; simp)+

interpretation pr: live_sn_server K SCTP_ENABLE_RESET_STREAM_REQ "check_pr K" view_pr upd_pr
    "\<lambda>x. fst (snd x)" inbox ready_pr
  for K :: "'w kernel" and inbox :: "'w \<Rightarrow> (cint \<times> cushort) list"
  by unfold_locales
    (erule (1) check_pr_progress | erule (3) check_pr_Done
      | simp add: view_pr_def ready_pr_def upd_pr_command set_asoc_id_def split: prod.split)+

section \<open>The verdict in closed form\<close>

text \<open>The verdict on the lengths of the data messages that arrived, and the sum they are held to.\<close>

fun verdict_fn_pr :: "check_fn_pr \<Rightarrow> clong list \<Rightarrow> clong" where
  "verdict_fn_pr Do_check_pr ls = (if ls \<noteq> [] \<and> last ls = 1000 then 0 else 1)"
| "verdict_fn_pr Do_check_pr_c ls =
     (if sum_list ls = (if length ls = 1 then 100 else 200) then 0 else 1)"
| "verdict_fn_pr Do_check_pr_cx ls =
     (if sum_list ls = (if length ls = 1 then 1000 else 2000) then 0 else 1)"
| "verdict_fn_pr Do_check_pr_cxx ls =
     (if sum_list (take 4 ls) = (if length ls = 1 then 1 else if length ls = 2 then 2
           else if length ls = 3 then 1002 else 2002) then 0 else 1)"

definition verdict_pr :: "cint \<Rightarrow> (cint \<times> cushort) list \<Rightarrow> cint" where
  "verdict_pr c ms = to_int (verdict_fn_pr (check_of_pr c) (data_lengths ms))"

lemma checked_pr_fold:
  assumes "length ls < 2 ^ 64"
  shows "foldl (\<lambda>x l. checked_pr fn l x) (1, 0, 0) ls =
    (verdict_fn_pr fn ls,
     if fn = Do_check_pr then 0 else of_nat (length ls), if fn = Do_check_pr then 0 else sum_list ls)"
  using assms
proof (induction ls rule: rev_induct)
  case Nil
  show ?case by (cases fn) auto
next
  case (snoc l ls)
  let ?n = "length ls"
  have nth: "(of_nat ?n :: clong) + 1 = of_nat j \<longleftrightarrow> Suc ?n = j" if "j < 2 ^ 64" for j
    using of_nat_small_iff [OF _ that, of "Suc ?n"] snoc.prems by (simp add: add.commute)
  have eqs: "(of_nat ?n :: clong) + 1 = 1 \<longleftrightarrow> ?n = 0" "(of_nat ?n :: clong) + 1 = 2 \<longleftrightarrow> ?n = 1"
    "(of_nat ?n :: clong) + 1 = 3 \<longleftrightarrow> ?n = 2" "(of_nat ?n :: clong) + 1 = 4 \<longleftrightarrow> ?n = 3"
    using nth [of 1] nth [of 2] nth [of 3] nth [of 4] by auto
  have eqs0: "(of_nat ?n :: clong) = 0 \<longleftrightarrow> ?n = 0" "(of_nat ?n :: clong) = 1 \<longleftrightarrow> ?n = 1"
    "(of_nat ?n :: clong) = 2 \<longleftrightarrow> ?n = 2" "(of_nat ?n :: clong) = 3 \<longleftrightarrow> ?n = 3"
    using snoc.prems of_nat_small_iff [of ?n 0] of_nat_small_iff [of ?n 1] of_nat_small_iff [of ?n 2]
      of_nat_small_iff [of ?n 3] by auto
  have IH: "foldl (\<lambda>x l. checked_pr fn l x) (1, 0, 0) ls =
    (verdict_fn_pr fn ls,
     if fn = Do_check_pr then 0 else of_nat ?n, if fn = Do_check_pr then 0 else sum_list ls)"
    using snoc by simp
  have len: "(of_nat (length (ls @ [l])) :: clong) = of_nat ?n + 1" by simp
  have "?n = 0 \<or> ?n = 1 \<or> ?n = 2 \<or> ?n = 3 \<or> 4 \<le> ?n" by linarith
  then have sizes: "?n = 0 \<or> ?n = 1 \<or> ?n = 2 \<or> ?n = 3 \<or> (4 \<le> ?n \<and> ls \<noteq> [])"
    by (cases ls) auto
  show ?case
    unfolding foldl_append foldl_Cons foldl_Nil IH len
    using sizes by (cases fn) (elim disjE; simp add: eqs eqs0)+
qed

lemma foldl_upd_pr:
  "foldl upd_pr (c, x) (map (\<lambda>m. Arrived (fst m) (snd m)) ms) =
     (c, foldl (\<lambda>x l. checked_pr (check_of_pr c) l x) x (data_lengths ms))"
  by (induction ms rule: rev_induct) (auto simp: data_lengths_def split: prod.split)

lemma verdict_fold_pr:
  assumes "length ms < 2 ^ 64"
  shows "to_int (fst (snd (foldl upd_pr (c, 1, 0, 0) (map (\<lambda>m. Arrived (fst m) (snd m)) ms)))) =
    verdict_pr c ms"
proof -
  have "length (data_lengths ms) < 2 ^ 64"
    using assms order.strict_trans1 [OF length_filter_le] by (auto simp: data_lengths_def)
  then show ?thesis
    unfolding foldl_upd_pr by (simp add: checked_pr_fold verdict_pr_def)
qed

lemma main_pr_server:
  "main_pr K sched [prog, ip, port, c, ''-l''] =
     sn_serve K SCTP_ENABLE_RESET_STREAM_REQ (check_pr K)
       (zero_context\<lparr>sn_c := atoi c, sn_cb1 := 1\<rparr>) ip port"
  by (rule ext) (simp add: main_pr_def sn_main_def do_server_pr_def)

lemma start_view_pr: "view_pr (zero_context\<lparr>sn_c := c, sn_cb1 := 1\<rparr>) = (c, 1, 0, 0)"
  by (simp add: view_pr_def zero_context_def)

lemma main_pr_verdict:
  assumes "main_pr K sched [prog, ip, port, c, ''-l''] s = Some (Done v, t)"
  shows "\<exists>tr. trace t = trace s @ tr \<and> session (arrivals (inputs tr)) \<and>
    (SN_CMD_SET_STRRESET \<notin> fst ` set (arrivals (inputs tr)) \<and>
     length (arrivals (inputs tr)) < 2 ^ 64 \<longrightarrow> v = verdict_pr (atoi c) (arrivals (inputs tr)))"
proof -
  from pr.sn_serve_verdict [OF assms [unfolded main_pr_server]] obtain tr where tr:
    "trace t = trace s @ tr" "session (arrivals (inputs tr))" "quiet (inputs tr)"
    "v = to_int (fst (snd (foldl upd_pr (atoi c, 1, 0, 0) (inputs tr))))"
    by (auto simp: start_view_pr)
  have "v = verdict_pr (atoi c) (arrivals (inputs tr))"
    if "SN_CMD_SET_STRRESET \<notin> fst ` set (arrivals (inputs tr))"
      and "length (arrivals (inputs tr)) < 2 ^ 64"
    using tr(4) verdict_fold_pr [OF that(2), of "atoi c"]
      quiet_all_arrived [OF tr(3) that(1)] by simp
  with tr show ?thesis by blast
qed

lemma main_pr_returns:
  assumes "delivers K inbox" and "inbox (world s) = ms" and "session ms" and "fst (last ms) \<noteq> -1"
    and "n < 11" and "atoi c = of_nat n"
    and "SN_CMD_SET_STRRESET \<notin> fst ` set ms" and "length ms < 2 ^ 64"
  shows "\<exists>t. main_pr K sched [prog, ip, port, c, ''-l''] s = Some (Done (verdict_pr (atoi c) ms), t)"
proof -
  have "ready_pr (due ms) (zero_context\<lparr>sn_c := atoi c, sn_cb1 := 1\<rparr>)"
    using assms(5,6) by (auto simp: ready_pr_def)
  from pr.sn_serve_returns [OF assms(1-4) this, of ip port] obtain t tr v where run:
    "main_pr K sched [prog, ip, port, c, ''-l''] s = Some (Done v, t)" "trace t = trace s @ tr"
    "arrivals (inputs tr) = ms"
    unfolding main_pr_server by blast
  from main_pr_verdict [OF run(1)] run assms(7,8) show ?thesis by auto
qed

text \<open>
  C5: whatever the kernel does, when the server returns it has seen a whole session; and if no
  message asked it to enable resets (the client of this program never does) and fewer than \<open>2 ^ 64\<close>
  messages arrived, its status is the verdict of the case on the lengths of the data messages: the last one is 1000 bytes long; or
  they add up to what one or two messages of 100 or 1000 bytes do; or the first four do to 1, 2,
  1002 and 2002.
\<close>

theorem prsctp_server_verdict:
  assumes "main_pr K sched [prog, ip, port, c, ''-l''] s = Some (Done v, t)"
  shows "\<exists>tr. trace t = trace s @ tr \<and> session (arrivals (inputs tr)) \<and>
    (SN_CMD_SET_STRRESET \<notin> fst ` set (arrivals (inputs tr)) \<and>
     length (arrivals (inputs tr)) < 2 ^ 64 \<longrightarrow> v = verdict_pr (atoi c) (arrivals (inputs tr)))"
  using assms by (rule main_pr_verdict)

theorem prsctp_server_verdict_witness:
  "\<exists>t tr. main_pr mailbox [] [''sctp_pr'', ''10.0.0.1'', ''8888'', ''8'', ''-l'']
        \<lparr>mem = zero_context, world = [(1000, 1), (1000, 1), (12, 0)], trace = []\<rparr> = Some (Done 0, t) \<and>
      trace t = [] @ tr \<and> session (arrivals (inputs tr)) \<and>
      (SN_CMD_SET_STRRESET \<notin> fst ` set (arrivals (inputs tr)) \<and>
       length (arrivals (inputs tr)) < 2 ^ 64 \<longrightarrow> 0 = verdict_pr 8 (arrivals (inputs tr)))"
proof -
  let ?ms = "[(1000, 1), (1000, 1), (12, 0)] :: (cint \<times> cushort) list"
  let ?s = "\<lparr>mem = zero_context, world = ?ms, trace = []\<rparr>"
  have v: "verdict_pr (atoi ''8'') ?ms = 0"
    by (simp add: verdict_pr_def case_pr_simps data_lengths_def sn_cmds atoi_eval)
  have "\<exists>t. main_pr mailbox [] [''sctp_pr'', ''10.0.0.1'', ''8888'', ''8'', ''-l''] ?s =
      Some (Done (verdict_pr (atoi ''8'') ?ms), t)"
    by (rule main_pr_returns [OF mailbox_delivers, where n = 8])
      (simp_all add: session_def closing_def sn_cmds atoi_eval)
  then obtain t where run: "main_pr mailbox [] [''sctp_pr'', ''10.0.0.1'', ''8888'', ''8'', ''-l''] ?s =
      Some (Done 0, t)"
    unfolding v by blast
  from prsctp_server_verdict [OF run] run show ?thesis
    by (auto simp: atoi_eval)
qed

section \<open>What the script amounts to\<close>

lemma concat_map_interleave:
  "(\<And>y. y \<in> set ys \<Longrightarrow> g y = []) \<Longrightarrow>
   concat (map g (interleave sched xs ys)) = concat (map g xs)"
  by (induction sched xs ys rule: interleave.induct) auto

lemma concat_map_interleave':
  "(\<And>x. x \<in> set xs \<Longrightarrow> g x = []) \<Longrightarrow>
   concat (map g (interleave sched xs ys)) = concat (map g ys)"
  by (induction sched xs ys rule: interleave.induct) auto

lemma messages_race [simp]: "messages (filter P (race_pr sched as)) = messages (filter P as)"
proof -
  have "messages (filter P (race_pr sched as)) =
      concat (map (\<lambda>X. messages (filter P X))
        (interleave sched (map (\<lambda>a. [a]) as) [[Slept 3], [Ran ''iptables -F''], [], [Slept 10]]))"
    by (simp add: race_pr_def filter_concat messages_concat o_def)
  also have "\<dots> = concat (map (\<lambda>X. messages (filter P X)) (map (\<lambda>a. [a]) as))"
    by (rule concat_map_interleave) auto
  also have "\<dots> = messages (filter P as)"
    by (induction as) (auto simp flip: messages_append)
  finally show ?thesis .
qed

lemma shell_of_race:
  assumes "shell_of as = []"
  shows "shell_of (race_pr sched as) = [''iptables -F'']"
proof -
  have each: "shell_of [a] = []" if "a \<in> set as" for a
    using assms that by (induction as rule: shell_of.induct) auto
  have "concat (map shell_of (interleave sched (map (\<lambda>a. [a]) as)
      [[Slept 3], [Ran ''iptables -F''], [], [Slept 10]])) =
    concat (map shell_of [[Slept 3], [Ran ''iptables -F''], [], [Slept 10]])"
    by (rule concat_map_interleave') (use each in auto)
  then show ?thesis
    by (simp add: race_pr_def shell_of_concat)
qed

lemma shell_of_client_pr:
  "n < 11 \<Longrightarrow> shell_of (client_script_pr n sched) =
      [''iptables -A OUTPUT -p sctp --chunk-types any DATA -j DROP'', ''iptables -F'']"
  by (drule less_11_cases, elim disjE)
    (simp_all add: client_script_pr_def case_pr_simps shell_of_race Let_def)

text \<open>
  C25: in every case and under every schedule of the threads, the client's only shell commands are the one
  that adds the rule that drops data chunks and then the one that flushes the rules. A complete run
  runs both and leaves no rule behind; a run that stops in between leaves the rule.
\<close>

theorem prsctp_firewall_restored:
  assumes "n < 11" and "atoi c = of_nat n"
  shows "\<exists>r t tr. main_pr K sched [prog, ip, port, c, ''-s''] s = Some (r, t) \<and>
    trace t = trace s @ tr \<and>
    prefix (shell_of (acts tr))
      [''iptables -A OUTPUT -p sctp --chunk-types any DATA -j DROP'', ''iptables -F''] \<and>
    rules_after [] (acts tr) =
      (if length (shell_of (acts tr)) = 1
       then [''iptables -A OUTPUT -p sctp --chunk-types any DATA -j DROP''] else []) \<and>
    (r = Done 0 \<longrightarrow> length (shell_of (acts tr)) = 2)"
proof -
  let ?add = "''iptables -A OUTPUT -p sctp --chunk-types any DATA -j DROP''"
  obtain r t tr where run: "main_pr K sched [prog, ip, port, c, ''-s''] s = Some (r, t)"
    "trace t = trace s @ tr" and pre: "prefix (acts tr) (client_script_pr n sched)"
    and full: "r = Done 0 \<Longrightarrow> acts tr = client_script_pr n sched"
    using emits_part [OF emits_client_pr [of n "[prog, ip, port, c, ''-s'']" K sched], of s] assms
    unfolding main_pr_client by auto
  have shell: "prefix (shell_of (acts tr)) [?add, ''iptables -F'']"
    using shell_of_prefix [OF pre] by (simp add: shell_of_client_pr [OF assms(1)])
  then have "shell_of (acts tr) \<in> {[], [?add], [?add, ''iptables -F'']}"
    by (auto simp: prefix_Cons)
  then have "rules_after [] (acts tr) = (if length (shell_of (acts tr)) = 1 then [?add] else [])"
    by (subst rules_after_shell) auto
  with run shell full show ?thesis
    by (intro exI [of _ r] exI [of _ t] exI [of _ tr]) (auto simp: shell_of_client_pr [OF assms(1)])
qed

theorem prsctp_firewall_restored_witness:
  "\<exists>r t tr. main_pr mailbox [False, True] [''sctp_pr'', ''10.0.0.1'', ''8888'', ''9'', ''-s'']
      \<lparr>mem = zero_context, world = [(13, 0)], trace = []\<rparr> = Some (r, t) \<and> trace t = [] @ tr \<and>
    (r = Done 0 \<longrightarrow> length (shell_of (acts tr)) = 2)"
  using prsctp_firewall_restored [of 9 "''9''" mailbox "[False, True]" "''sctp_pr''" "''10.0.0.1''" "''8888''"
      "\<lparr>mem = zero_context, world = [(13, 0)], trace = []\<rparr>"]
  by (auto simp: atoi_eval)

section \<open>What the test tells of a kernel\<close>

text \<open>
  Partial reliability: a message with a policy may be abandoned, and in these scripts is meant to be
  when it carries the case's own value: its time to live is over or its retransmissions are used up
  while the rule stands, or messages of a better priority (a smaller value) need the room.
  \<open>surviving_pr\<close> is what the peer of a client on a kernel with these policies receives, \<open>messages\<close>
  what it would receive if every message were reliable.
\<close>

fun expendable :: "cint \<Rightarrow> act \<Rightarrow> bool" where
  "expendable v (Sent len fl sid val) \<longleftrightarrow> fl AND 0x30 \<noteq> 0 \<and> val = v"
| "expendable v _ \<longleftrightarrow> False"

definition surviving_pr :: "nat \<Rightarrow> bool list \<Rightarrow> cint list" where
  "surviving_pr n sched =
     messages (filter (\<lambda>a. \<not> expendable (values_pr (sn_cases_pr ! n) ! 0) a)
       (client_script_pr n sched))"

lemma messages_race' [simp]: "messages (race_pr sched as) = messages as"
  using messages_race [of "\<lambda>_. True"] by simp

text \<open>The lengths of the data messages of each case, and of those that survive.\<close>

definition offered_lengths :: "nat \<Rightarrow> cint list" where
  "offered_lengths n =
     [[1024, 1000], [1024, 1000], [100, 100, 100], [1024, 1000], [1024, 1000], [100, 100, 100],
      [4500, 1000], [4500, 1000], [4500, 1000, 1000],
      [1, 1, 1, 1, 1, 1000, 1000], [1, 1, 1, 1, 1, 1000, 1000]] ! n"

definition surviving_lengths :: "nat \<Rightarrow> cint list" where
  "surviving_lengths n =
     [[1000], [1000], [100, 100], [1000], [1000], [100, 100], [1000], [1000], [1000, 1000],
      [1, 1, 1000, 1000], [1, 1, 1000, 1000]] ! n"

lemma messages_client_pr:
  assumes "n < 11"
  shows "messages (client_script_pr n sched) = offered_lengths n @ [SN_CMD_CLOSE_ASOC]"
    and "surviving_pr n sched = surviving_lengths n @ [SN_CMD_CLOSE_ASOC]"
  using less_11_cases [OF assms]
  by (elim disjE; simp add: client_script_pr_def case_pr_simps offered_lengths_def Let_def)
    (use less_11_cases [OF assms] in \<open>elim disjE; simp add: client_script_pr_def case_pr_simps
      surviving_pr_def surviving_lengths_def Let_def\<close>)

lemma data_lengths_eq:
  assumes "map fst ms = ls @ [SN_CMD_CLOSE_ASOC]" and "11 \<notin> set ls" and "12 \<notin> set ls"
  shows "data_lengths ms = map to_long ls"
proof -
  have "filter (\<lambda>l. l \<notin> {SN_CMD_SET_STRRESET, SN_CMD_CLOSE_ASOC}) ls = ls"
    using assms(2,3) by (auto simp: sn_cmds filter_id_conv)
  then show ?thesis by (simp add: data_lengths_map assms(1))
qed

lemma main_pr_on_lengths:
  assumes "delivers K inbox" and "n < 11" and "atoi c = of_nat n"
    and "map fst (inbox (world s)) = ls @ [SN_CMD_CLOSE_ASOC]"
    and "list_all (\<lambda>l. l \<noteq> 11 \<and> \<not> closing l) ls" and "length ls < 2 ^ 32"
  shows "\<exists>t. main_pr K sched [prog, ip, port, c, ''-l''] s =
    Some (Done (to_int (verdict_fn_pr (check_of_pr (of_nat n)) (map to_long ls))), t)"
proof -
  let ?ms = "inbox (world s)"
  have ses: "session ?ms" and last: "fst (last ?ms) = SN_CMD_CLOSE_ASOC"
    using assms(5) by (auto intro!: session_script [OF assms(4)] simp: list_all_iff)
  have set: "fst ` set ?ms = set ls \<union> {12}"
    using arg_cong [OF assms(4), of set] by (simp add: sn_cmds)
  have quiet: "SN_CMD_SET_STRRESET \<notin> fst ` set ?ms"
    using assms(5) by (auto simp: set sn_cmds list_all_iff)
  have "length ?ms = Suc (length ls)"
    using arg_cong [OF assms(4), of length] by simp
  then have len: "length ?ms < 2 ^ 64" using assms(6) by simp
  have "data_lengths ?ms = map to_long ls"
    using assms(5) by (intro data_lengths_eq [OF assms(4)])
      (auto simp: list_all_iff closing_def sn_cmds)
  with main_pr_returns [OF assms(1) refl ses _ assms(2,3) quiet len, of sched prog ip port] last
  show ?thesis by (auto simp: verdict_pr_def assms(3) sn_cmds)
qed

lemma plain_lengths:
  assumes "n < 11"
  shows "list_all (\<lambda>l. l \<noteq> 11 \<and> \<not> closing l) (offered_lengths n)"
    and "list_all (\<lambda>l. l \<noteq> 11 \<and> \<not> closing l) (surviving_lengths n)"
    and "length (offered_lengths n) < 2 ^ 32" and "length (surviving_lengths n) < 2 ^ 32"
  using less_11_cases [OF assms]
  by (elim disjE; simp add: offered_lengths_def surviving_lengths_def closing_def sn_cmds)+

lemma verdict_surviving:
  "n < 11 \<Longrightarrow> verdict_fn_pr (check_of_pr (of_nat n)) (map to_long (surviving_lengths n)) = 0"
  by (drule less_11_cases) (elim disjE; simp add: surviving_lengths_def case_pr_simps)

lemma verdict_offered:
  "n < 11 \<Longrightarrow> verdict_fn_pr (check_of_pr (of_nat n)) (map to_long (offered_lengths n)) =
     (if n \<in> {2, 5, 8, 9, 10} then 1 else 0)"
  by (drule less_11_cases) (elim disjE; simp add: offered_lengths_def case_pr_simps)

text \<open>
  Every case passes when what arrives is what is left of the client's messages without those its
  policy lets it abandon; when all of them arrive, only the five cases with a counting check fail.
\<close>

lemma main_pr_on_surviving:
  assumes "delivers K inbox" and "n < 11" and "atoi c = of_nat n"
    and "map fst (inbox (world s)) = surviving_pr n sched"
  shows "\<exists>t. main_pr K sched' [prog, ip, port, c, ''-l''] s = Some (Done 0, t)"
  using main_pr_on_lengths [OF assms(1-4) [unfolded messages_client_pr(2) [OF assms(2)]]
      plain_lengths(2,4) [OF assms(2)]]
  by (simp add: verdict_surviving [OF assms(2)])

lemma main_pr_on_offered:
  assumes "delivers K inbox" and "n < 11" and "atoi c = of_nat n"
    and "map fst (inbox (world s)) = messages (client_script_pr n sched)"
  shows "\<exists>t. main_pr K sched' [prog, ip, port, c, ''-l''] s =
    Some (Done (if n \<in> {2, 5, 8, 9, 10} then 1 else 0), t)"
  using main_pr_on_lengths [OF assms(1-4) [unfolded messages_client_pr(1) [OF assms(2)]]
      plain_lengths(1,3) [OF assms(2)]]
  by (cases "n \<in> {2, 5, 8, 9, 10}") (simp_all add: verdict_offered [OF assms(2)])

section \<open>The sum outside its array\<close>

text \<open>
  C36: the checks that count keep their sum in \<open>cb[4]\<close>, which the array does not have: each message
  they look at adds its length to the association id of the server's context.
\<close>

theorem prsctp_check_changes_asoc_id:
  assumes "check_pr K s = Some (Done (), t)" and "sn_c (mem s) \<in> {2, 5, 8, 9, 10}"
  shows "asoc_id (mem t) = asoc_id (mem s) + to_int (sn_cb2 (mem s))"
proof -
  from assms(1) obtain k where k: "k = sn_cases_pr ! unat (sn_c (mem s))"
    "call_check_pr K (do_check_pr_pr k) s = Some (Done (), t)"
    by (auto simp: check_pr_def elim!: seq_DoneE dest!: the_case_pr_Done)
  with assms(2) have "do_check_pr_pr k \<in> {Some Do_check_pr_c, Some Do_check_pr_cx, Some Do_check_pr_cxx}"
    by (auto simp: case_pr_simps)
  with k(2) have "sn_tail (mem t) = sn_tail (mem s) + sn_cb2 (mem s)"
    by (auto simp: call_check_pr_def check_defs_pr run_simps split: if_splits)
  then show ?thesis by (simp add: asoc_id_def to_int_add)
qed

theorem prsctp_check_changes_asoc_id_witness:
  "\<exists>t. check_pr mailbox \<lparr>mem = zero_context\<lparr>sn_c := 2, sn_cb2 := 100, sn_tail := 7\<rparr>,
      world = [], trace = []\<rparr> = Some (Done (), t) \<and> asoc_id (mem t) = 107"
proof -
  let ?s = "\<lparr>mem = zero_context\<lparr>sn_c := 2, sn_cb2 := 100, sn_tail := 7\<rparr>, world = [], trace = []\<rparr>
    :: (sn_context, (cint \<times> cushort) list) machine"
  have k: "the_case_pr ?s = Some (Done (sn_cases_pr ! 2), ?s)"
    using the_case_pr_run [of 2 ?s] by simp
  have "\<exists>t. check_pr mailbox ?s = Some (Done (), t)"
    using call_check_pr_run [of mailbox Do_check_pr_c ?s]
    by (auto simp: check_pr_def seq_run k case_pr_simps)
  then obtain t where t: "check_pr mailbox ?s = Some (Done (), t)" by blast
  have "asoc_id (mem t) = asoc_id (mem ?s) + to_int (sn_cb2 (mem ?s))"
    by (rule prsctp_check_changes_asoc_id [OF t]) simp
  with t show ?thesis by (simp add: asoc_id_def)
qed

section \<open>Cases that do not exist\<close>

text \<open>
  The number of the case is not checked: once the socket is there the client looks it up in the table, outside
  of which the access is undefined; the last eight entries of the table hold null pointers.
\<close>

lemma null_cases_pr: "11 \<le> k \<Longrightarrow> k < 19 \<Longrightarrow> sn_cases_pr ! k = null_case_pr"
  by (simp add: sn_cases_pr_def SN_CASE_MAX_pr_def nth_append)

lemma main_pr_no_case:
  assumes "all_succeed K"
  shows "sint (atoi c) < 0 \<or> 19 \<le> sint (atoi c) \<Longrightarrow>
      \<exists>t. main_pr K sched [prog, ip, port, c, ''-s''] s = Some (Fault Out_of_bounds, t)"
    and "11 \<le> sint (atoi c) \<Longrightarrow> sint (atoi c) < 19 \<Longrightarrow>
      \<exists>t. main_pr K sched [prog, ip, port, c, ''-s''] s = Some (Fault Null_call, t)"
proof -
  obtain t where t: "sn_c (mem t) = atoi c" and
    opens: "\<forall>ms. block (run K (Sleep 3) # store (\<lambda>_. zero_context\<lparr>sn_c := atoi c\<rparr>) #
      sn_create_asoc_sk K ip port # ms) s = block ms t"
    using client_opens [OF assms] by blast
  let ?argv = "[prog, ip, port, c, ''-s'']"
  obtain ms where run: "main_pr K sched ?argv s =
      seq (block (seq the_case_pr (\<lambda>k. call_setup_pr K (do_setup_pr_pr k)) # ms)) (\<lambda>_. return 0) t"
    by (simp add: main_pr_client do_client_pr_def seq_run opens del: block.simps)
  show "\<exists>t. main_pr K sched ?argv s = Some (Fault Out_of_bounds, t)"
    if "sint (atoi c) < 0 \<or> 19 \<le> sint (atoi c)"
    using that unfolding run by (auto simp: run_simps the_case_pr_def t SN_CASE_MAX_pr_def)
  show "\<exists>t. main_pr K sched ?argv s = Some (Fault Null_call, t)"
    if "11 \<le> sint (atoi c)" "sint (atoi c) < 19"
  proof -
    have "sn_cases_pr ! unat (atoi c) = null_case_pr"
      using that by (intro null_cases_pr) (auto simp: unat_nonneg)
    with that show ?thesis
      unfolding run by (simp add: run_simps the_case_pr_def t SN_CASE_MAX_pr_def
          call_setup_pr_def null_case_pr_def)
  qed
qed

end
