(* ===== verification/Ndata.thy ===== *)
theory Ndata
  imports Sn_Socket
begin

text \<open>
  \<open>testcase/conformance/ndatasched/sctp_ndata.c\<close>: the test of the stream schedulers (RFC 8260). The
  client sets a scheduler and the values of the streams, fills the streams while the peer cannot
  answer, and lets go; in the conformance cases the server checks the order of the streams the
  messages arrive on, in the others it counts messages or bytes. The member \<open>sched\<close> of the context
  of this program, the number of the case, is the field \<open>sn_c\<close>. The functions the program shares
  word for word with \<open>strreset.c\<close> are abbreviations of the common definitions.
\<close>

section \<open>The functions shared with the other programs\<close>

type_synonym sn_context_nd = sn_context

abbreviation sn_get_asoc_id_nd :: "'w kernel \<Rightarrow> cint \<Rightarrow> ('w, cint) sn" where
  "sn_get_asoc_id_nd \<equiv> sn_get_asoc_id"
abbreviation sn_enable_asoc_strreset_nd :: "'w kernel \<Rightarrow> ('w, unit) sn" where
  "sn_enable_asoc_strreset_nd K \<equiv> sn_enable_asoc_strreset K SCTP_ENABLE_RESET_STREAM_REQ"
abbreviation sn_enable_sk_recvinfo_nd :: "'w kernel \<Rightarrow> ('w, unit) sn" where
  "sn_enable_sk_recvinfo_nd \<equiv> sn_enable_sk_recvinfo"
abbreviation sn_do_setup_frag_interleave_nd :: "'w kernel \<Rightarrow> ('w, unit) sn" where
  "sn_do_setup_frag_interleave_nd \<equiv> sn_do_setup_frag_interleave"
abbreviation sn_do_setup_strm_interleave_nd :: "'w kernel \<Rightarrow> ('w, unit) sn" where
  "sn_do_setup_strm_interleave_nd \<equiv> sn_do_setup_strm_interleave"
abbreviation sn_create_asoc_sk_nd :: "'w kernel \<Rightarrow> string \<Rightarrow> string \<Rightarrow> ('w, unit) sn" where
  "sn_create_asoc_sk_nd \<equiv> sn_create_asoc_sk"
abbreviation sn_create_listen_sk_nd :: "'w kernel \<Rightarrow> string \<Rightarrow> string \<Rightarrow> ('w, unit) sn" where
  "sn_create_listen_sk_nd \<equiv> sn_create_listen_sk"
abbreviation sn_send_asoc_cmd_nd :: "'w kernel \<Rightarrow> cint \<Rightarrow> ('w, unit) sn" where
  "sn_send_asoc_cmd_nd K msg_len \<equiv> sn_send_asoc_cmd K msg_len msg_len"
abbreviation sn_get_peer_cmd_nd :: "'w kernel \<Rightarrow> ('w, cint) sn" where
  "sn_get_peer_cmd_nd \<equiv> sn_get_peer_cmd"
abbreviation sn_enable_peer_strreset_nd :: "'w kernel \<Rightarrow> ('w, unit) sn" where
  "sn_enable_peer_strreset_nd K \<equiv> sn_send_asoc_cmd_nd K SN_CMD_SET_STRRESET"
abbreviation sn_send_asoc_msg_nd :: "'w kernel \<Rightarrow> cint \<Rightarrow> cint \<Rightarrow> cint \<Rightarrow> ('w, unit) sn" where
  "sn_send_asoc_msg_nd K msg_len sid flags \<equiv> sn_send_asoc_msg K msg_len sid flags 0"
abbreviation sn_send_peer_ack_nd :: "'w kernel \<Rightarrow> ('w, unit) sn" where
  "sn_send_peer_ack_nd \<equiv> sn_send_peer_ack"
abbreviation sn_close_asoc_sk_nd :: "'w kernel \<Rightarrow> ('w, unit) sn" where
  "sn_close_asoc_sk_nd K \<equiv> sn_close_asoc_sk K SN_CMD_CLOSE_ASOC"

section \<open>The case table\<close>

definition SCTP_SS_FCFS :: cint where "SCTP_SS_FCFS = 0"
definition SCTP_SS_PRIO :: cint where "SCTP_SS_PRIO = 1"
definition SCTP_SS_RR :: cint where "SCTP_SS_RR = 2"

lemmas nd_schedulers = SCTP_SS_FCFS_def SCTP_SS_PRIO_def SCTP_SS_RR_def

datatype setup_fn_nd = Do_setup_sched
datatype value_fn_nd = Do_setup_schedvalue | Do_prio_setup_schedvalue
  | Do_prio_stress_setup_schedvalue | Do_rr_setup_schedvalue
datatype test_fn_nd = Do_sched_tests | Do_prio_sched_tests | Do_prio_sched_tests_x
  | Do_prio_sched_tests_y | Do_prio_stress_sched_tests | Do_prio_small_sched_tests
  | Do_prio_fuzz_sched_tests | Do_prio_fuzzb_sched_tests
datatype assert_fn_nd = Do_assert_tests | Do_prio_assert_tests | Do_prio_stress_assert_tests
  | Do_prio_small_assert_tests | Do_prio_fuzz_assert_tests

record sn_case_nd =
  sched_nd :: cint
  sched_cork :: cint
  sched_sids :: "cint list"
  do_setup_sched :: setup_fn_nd
  do_setup_schedvalue :: value_fn_nd
  do_sched_tests :: test_fn_nd
  do_assert_tests :: assert_fn_nd

text \<open>A conformance case, with the streams expected; and the others, whose table is all zero.\<close>

definition conf_case :: "cint \<Rightarrow> cint list \<Rightarrow> value_fn_nd \<Rightarrow> sn_case_nd" where
  "conf_case sched sids vals =
     \<lparr>sched_nd = sched, sched_cork = 1, sched_sids = sids, do_setup_sched = Do_setup_sched,
      do_setup_schedvalue = vals, do_sched_tests = Do_sched_tests, do_assert_tests = Do_assert_tests\<rparr>"

definition load_case :: "cint \<Rightarrow> value_fn_nd \<Rightarrow> test_fn_nd \<Rightarrow> assert_fn_nd \<Rightarrow> sn_case_nd" where
  "load_case sched vals test assert =
     \<lparr>sched_nd = sched, sched_cork = 0, sched_sids = replicate 9 0, do_setup_sched = Do_setup_sched,
      do_setup_schedvalue = vals, do_sched_tests = test, do_assert_tests = assert\<rparr>"

definition SN_CASE_MAX_nd :: nat where "SN_CASE_MAX_nd = 21"

definition sn_cases_nd :: "sn_case_nd list" where
  "sn_cases_nd =
     [conf_case SCTP_SS_PRIO [3, 3, 3, 2, 2, 2, 1, 1, 1] Do_setup_schedvalue,
      conf_case SCTP_SS_PRIO [3, 3, 3, 1, 2, 1, 2, 1, 2] Do_prio_setup_schedvalue,
      load_case SCTP_SS_PRIO Do_prio_stress_setup_schedvalue Do_prio_sched_tests Do_prio_assert_tests,
      load_case SCTP_SS_PRIO Do_prio_stress_setup_schedvalue Do_prio_stress_sched_tests
        Do_prio_stress_assert_tests,
      load_case SCTP_SS_PRIO Do_prio_stress_setup_schedvalue Do_prio_small_sched_tests
        Do_prio_small_assert_tests,
      load_case SCTP_SS_PRIO Do_prio_stress_setup_schedvalue Do_prio_fuzz_sched_tests
        Do_prio_fuzz_assert_tests,
      load_case SCTP_SS_PRIO Do_prio_stress_setup_schedvalue Do_prio_fuzzb_sched_tests
        Do_prio_fuzz_assert_tests,
      conf_case SCTP_SS_RR [1, 2, 3, 1, 2, 3, 1, 2, 3] Do_rr_setup_schedvalue,
      load_case SCTP_SS_RR Do_rr_setup_schedvalue Do_prio_sched_tests Do_prio_assert_tests,
      load_case SCTP_SS_RR Do_prio_stress_setup_schedvalue Do_prio_stress_sched_tests
        Do_prio_stress_assert_tests,
      load_case SCTP_SS_RR Do_prio_stress_setup_schedvalue Do_prio_small_sched_tests
        Do_prio_small_assert_tests,
      load_case SCTP_SS_RR Do_prio_stress_setup_schedvalue Do_prio_fuzz_sched_tests
        Do_prio_fuzz_assert_tests,
      load_case SCTP_SS_RR Do_prio_stress_setup_schedvalue Do_prio_fuzzb_sched_tests
        Do_prio_fuzz_assert_tests,
      conf_case SCTP_SS_FCFS [1, 1, 1, 2, 2, 2, 3, 3, 3] Do_rr_setup_schedvalue,
      load_case SCTP_SS_FCFS Do_rr_setup_schedvalue Do_prio_sched_tests Do_prio_assert_tests,
      load_case SCTP_SS_FCFS Do_prio_stress_setup_schedvalue Do_prio_stress_sched_tests
        Do_prio_stress_assert_tests,
      load_case SCTP_SS_FCFS Do_prio_stress_setup_schedvalue Do_prio_small_sched_tests
        Do_prio_small_assert_tests,
      load_case SCTP_SS_FCFS Do_prio_stress_setup_schedvalue Do_prio_fuzz_sched_tests
        Do_prio_fuzz_assert_tests,
      load_case SCTP_SS_FCFS Do_prio_stress_setup_schedvalue Do_prio_fuzz_sched_tests
        Do_prio_fuzz_assert_tests,
      load_case SCTP_SS_FCFS Do_rr_setup_schedvalue Do_prio_sched_tests_x Do_prio_assert_tests,
      load_case SCTP_SS_FCFS Do_rr_setup_schedvalue Do_prio_sched_tests_y Do_prio_assert_tests]"

text \<open>\<open>sn_cases[snc->sched]\<close>, an access outside the table being undefined.\<close>

definition the_case_nd :: "('w, sn_case_nd) sn" where
  "the_case_nd =
     seq load (\<lambda>snc.
       if 0 \<le> sint (sn_c snc) \<and> sint (sn_c snc) < int SN_CASE_MAX_nd
       then return (sn_cases_nd ! unat (sn_c snc))
       else crash Out_of_bounds)"

section \<open>The scheduler and the values of the streams\<close>

definition sn_do_setup_sched :: "'w kernel \<Rightarrow> ('w, unit) sn" where
  "sn_do_setup_sched K =
     seq the_case_nd (\<lambda>k.
       block [
         seq load (\<lambda>snc.
           must K (Setsockopt (sn_fd snc) SCTP_STREAM_SCHEDULER (Assoc_value (asoc_id snc) (sched_nd k)))
             (\<lambda>v. v \<noteq> 0) ''setsockopt''),
         seq load (\<lambda>snc.
           seq (or_die K (Getsockopt (sn_fd snc) SCTP_STREAM_SCHEDULER) (\<lambda>v. v \<noteq> 0) ''getsockopt'')
             (\<lambda>r. run K (Printf ''ss sched: %d, expected: %d''
               [to_long (r_val r), to_long (sched_nd k)])))])"

text \<open>The body of the loop of the three functions that set values of streams.\<close>

definition set_stream_value :: "'w kernel \<Rightarrow> nat \<Rightarrow> nat \<Rightarrow> ('w, unit) sn" where
  "set_stream_value K stream val =
     block [
       seq load (\<lambda>snc.
         must K (Setsockopt (sn_fd snc) SCTP_STREAM_SCHEDULER_VALUE
             (Stream_value (asoc_id snc) (of_nat stream) (of_nat val)))
           (\<lambda>v. v \<noteq> 0) ''setsockopt''),
       seq load (\<lambda>snc.
         seq (or_die K (Getsockopt (sn_fd snc) SCTP_STREAM_SCHEDULER_VALUE) (\<lambda>v. v \<noteq> 0) ''getsockopt'')
           (\<lambda>r. run K (Printf ''ss schedvalue: %d, expected: %d'' [to_long (r_val r), of_nat val])))]"

definition sn_do_setup_schedvalue :: "'w kernel \<Rightarrow> ('w, unit) sn" where
  "sn_do_setup_schedvalue K = for_loop 1 4 (\<lambda>stream. set_stream_value K stream (10 - stream))"

definition sn_do_prio_setup_schedvalue :: "'w kernel \<Rightarrow> ('w, unit) sn" where
  "sn_do_prio_setup_schedvalue K =
     for_loop 1 4 (\<lambda>stream. set_stream_value K stream ((10 - stream) div 8 + 8))"

definition sn_do_prio_stress_setup_schedvalue :: "'w kernel \<Rightarrow> ('w, unit) sn" where
  "sn_do_prio_stress_setup_schedvalue K =
     for_loop 0 10 (\<lambda>stream. set_stream_value K stream (10 - stream))"

definition sn_do_rr_setup_schedvalue :: "'w kernel \<Rightarrow> ('w, unit) sn" where
  "sn_do_rr_setup_schedvalue K = return ()"

section \<open>The tests the client runs\<close>

definition sn_do_sched_tests :: "'w kernel \<Rightarrow> ('w, unit) sn" where
  "sn_do_sched_tests K =
     for_loop 1 4 (\<lambda>stream. for_loop 0 3 (\<lambda>count. sn_send_asoc_msg_nd K 1024 (of_nat stream) 0))"

definition sn_do_prio_sched_tests :: "'w kernel \<Rightarrow> ('w, unit) sn" where
  "sn_do_prio_sched_tests K =
     block [
       repeat_loop 10000
         (for_loop 0 10 (\<lambda>stream.
           for_loop 0 10 (\<lambda>count. sn_send_asoc_msg_nd K 1024 (of_nat stream) 0))),
       run K (Sleep 10)]"

definition sn_do_prio_sched_tests_x :: "'w kernel \<Rightarrow> ('w, unit) sn" where
  "sn_do_prio_sched_tests_x K =
     block [
       repeat_loop 10000
         (for_loop 0 10 (\<lambda>stream.
           for_loop 0 10 (\<lambda>count. sn_send_asoc_msg_nd K 1024 (of_nat stream) 1))),
       run K (Sleep 10)]"

definition sn_do_prio_sched_tests_y :: "'w kernel \<Rightarrow> ('w, unit) sn" where
  "sn_do_prio_sched_tests_y K =
     block [
       repeat_loop 10000
         (for_loop 0 10 (\<lambda>stream.
           for_loop 0 5 (\<lambda>count.
             block [
               sn_send_asoc_msg_nd K 1024 (of_nat stream) 0,
               sn_send_asoc_msg_nd K 1024 (of_nat stream) 1]))),
       run K (Sleep 10)]"

definition sn_do_prio_stress_sched_tests :: "'w kernel \<Rightarrow> ('w, unit) sn" where
  "sn_do_prio_stress_sched_tests K =
     block [
       repeat_loop 1000
         (for_loop 0 10 (\<lambda>stream.
           for_loop 0 10 (\<lambda>count. sn_send_asoc_msg_nd K 10240 (of_nat stream) 0))),
       run K (Sleep 10)]"

definition sn_do_prio_small_sched_tests :: "'w kernel \<Rightarrow> ('w, unit) sn" where
  "sn_do_prio_small_sched_tests K =
     block [
       repeat_loop 1000
         (for_loop 0 10 (\<lambda>stream.
           for_loop 0 10 (\<lambda>count. sn_send_asoc_msg_nd K 64 (of_nat stream) 0))),
       run K (Sleep 10)]"

text \<open>\<open>rand()\<close> gives an \<open>int\<close> between 0 and \<open>RAND_MAX\<close>, which is \<open>2 ^ 31 - 1\<close>.\<close>

definition rand_nd :: "'w kernel \<Rightarrow> ('w, cint) sn" where
  "rand_nd K = seq (sys K Rand) (\<lambda>r. return (take_bit 31 (r_ret r)))"

definition srand_time :: "'w kernel \<Rightarrow> ('w, unit) sn" where
  "srand_time K = seq (sys K Time) (\<lambda>r. run K (Srand (to_int (r_time r))))"

definition send_random :: "'w kernel \<Rightarrow> cint \<Rightarrow> nat \<Rightarrow> ('w, unit) sn" where
  \<comment> \<open>\<open>int msg_len = rand() % range + 20; sn_send_asoc_msg(snc, msg_len, stream, 0);\<close>\<close>
  "send_random K range_len stream =
     seq (rand_nd K) (\<lambda>x. sn_send_asoc_msg_nd K (x mod range_len + 20) (of_nat stream) 0)"

definition sn_do_prio_fuzz_sched_tests :: "'w kernel \<Rightarrow> ('w, unit) sn" where
  "sn_do_prio_fuzz_sched_tests K =
     block [
       srand_time K,
       repeat_loop 10000
         (for_loop 0 10 (\<lambda>stream. for_loop 0 10 (\<lambda>count. send_random K 1500 stream))),
       run K (Sleep 10)]"

definition call_setup_nd :: "'w kernel \<Rightarrow> setup_fn_nd \<Rightarrow> ('w, unit) sn" where
  "call_setup_nd K f = (case f of Do_setup_sched \<Rightarrow> sn_do_setup_sched K)"

definition call_value_nd :: "'w kernel \<Rightarrow> value_fn_nd \<Rightarrow> ('w, unit) sn" where
  "call_value_nd K f =
     (case f of
        Do_setup_schedvalue \<Rightarrow> sn_do_setup_schedvalue K
      | Do_prio_setup_schedvalue \<Rightarrow> sn_do_prio_setup_schedvalue K
      | Do_prio_stress_setup_schedvalue \<Rightarrow> sn_do_prio_stress_setup_schedvalue K
      | Do_rr_setup_schedvalue \<Rightarrow> sn_do_rr_setup_schedvalue K)"

definition sn_do_prio_fuzzb_sched_tests :: "'w kernel \<Rightarrow> ('w, unit) sn" where
  "sn_do_prio_fuzzb_sched_tests K =
     block [
       srand_time K,
       repeat_loop 10000
         (block [
           seq (rand_nd K) (\<lambda>x. store (\<lambda>snc. snc\<lparr>sn_c := x mod of_nat SN_CASE_MAX_nd\<rparr>)),
           seq the_case_nd (\<lambda>k. call_setup_nd K (do_setup_sched k)),
           seq the_case_nd (\<lambda>k. call_value_nd K (do_setup_schedvalue k)),
           for_loop 0 10 (\<lambda>stream. for_loop 0 10 (\<lambda>count. send_random K 3000 stream))]),
       run K (Sleep 10)]"

definition call_test_nd :: "'w kernel \<Rightarrow> test_fn_nd \<Rightarrow> ('w, unit) sn" where
  "call_test_nd K f =
     (case f of
        Do_sched_tests \<Rightarrow> sn_do_sched_tests K
      | Do_prio_sched_tests \<Rightarrow> sn_do_prio_sched_tests K
      | Do_prio_sched_tests_x \<Rightarrow> sn_do_prio_sched_tests_x K
      | Do_prio_sched_tests_y \<Rightarrow> sn_do_prio_sched_tests_y K
      | Do_prio_stress_sched_tests \<Rightarrow> sn_do_prio_stress_sched_tests K
      | Do_prio_small_sched_tests \<Rightarrow> sn_do_prio_small_sched_tests K
      | Do_prio_fuzz_sched_tests \<Rightarrow> sn_do_prio_fuzz_sched_tests K
      | Do_prio_fuzzb_sched_tests \<Rightarrow> sn_do_prio_fuzzb_sched_tests K)"

section \<open>The firewall around a test\<close>

definition sn_close_asoc_streams_nd :: "'w kernel \<Rightarrow> ('w, unit) sn" where
  "sn_close_asoc_streams_nd K =
     seq the_case_nd (\<lambda>k.
       if sched_cork k = 0 then return ()
       else block [
         run K (Shell ''iptables -A INPUT -p sctp -j DROP''),
         seq load (\<lambda>snc.
           seq (sys K (Setsockopt (sn_fd snc) SCTP_RESET_STREAMS
               (Reset_streams (asoc_id snc) SCTP_STREAM_RESET_OUTGOING 0))) (\<lambda>r.
             if r_ret r \<noteq> 0 then
               seq (block [
                 run K (Shell ''iptables -F''),
                 run K (Perror ''setsockopt'')]) (\<lambda>_. exit_with (-1))
             else return ())),
         run K (Printf ''all stream are closed'' [])])"

definition sn_reopen_asoc_streams_nd :: "'w kernel \<Rightarrow> ('w, unit) sn" where
  "sn_reopen_asoc_streams_nd K =
     seq the_case_nd (\<lambda>k.
       if sched_cork k = 0 then return ()
       else block [
         run K (Shell ''iptables -F''),
         run K (Printf ''all stream are reopened'' []),
         run K (Sleep 10)])"

section \<open>The checks the server makes\<close>

definition sn_do_assert_tests :: "'w kernel \<Rightarrow> ('w, unit) sn" where
  \<comment> \<open>\<open>sids[snc->cb[0]]\<close>, an access outside the table being undefined\<close>
  "sn_do_assert_tests K =
     seq the_case_nd (\<lambda>k. seq load (\<lambda>snc.
       if 0 \<le> sint (sn_cb0 snc) \<and> sint (sn_cb0 snc) < int (length (sched_sids k)) then
         (let sid = sched_sids k ! unat (sn_cb0 snc) in
          block [
            if ucast (sn_sri_stream snc) \<noteq> sid then
              block [
                store (\<lambda>snc. snc\<lparr>sn_cb1 := 1\<rparr>),
                run K (Printf ''unexpected sid packet !!!'' [])]
            else return (),
            run K (Printf ''sid: %d, expected: %d'' [ucast (sn_sri_stream snc), to_long sid]),
            store (\<lambda>snc. snc\<lparr>sn_cb0 := sn_cb0 snc + 1\<rparr>)])
       else crash Out_of_bounds))"

text \<open>\<open>printf("PERF: ...", q / (end - snc->cb[3]))\<close>: the dividend and the seconds are recorded.\<close>

definition print_perf :: "'w kernel \<Rightarrow> clong \<Rightarrow> ('w, unit) sn" where
  "print_perf K q =
     seq (sys K Time) (\<lambda>r. seq load (\<lambda>snc.
       run K (Printf ''PERF: %lf mb/s'' [q, r_time r - sn_cb3 snc])))"

definition start_time :: "'w kernel \<Rightarrow> ('w, unit) sn" where
  "start_time K = seq (sys K Time) (\<lambda>r. store (\<lambda>snc. snc\<lparr>sn_cb3 := r_time r\<rparr>))"

definition sn_do_prio_assert_tests :: "'w kernel \<Rightarrow> ('w, unit) sn" where
  "sn_do_prio_assert_tests K =
     block [
       store (\<lambda>snc. snc\<lparr>sn_cb0 := sn_cb0 snc + 1\<rparr>),
       seq load (\<lambda>snc.
         if sn_cb0 snc = 1 then start_time K
         else if sn_cb0 snc = 1000000 then print_perf K 8000
         else return ())]"

text \<open>The same function for 100000 messages of 10240 bytes and of 64 bytes.\<close>

definition count_bytes_nd :: "'w kernel \<Rightarrow> clong \<Rightarrow> clong \<Rightarrow> ('w, unit) sn" where
  "count_bytes_nd K limit q =
     block [
       store (\<lambda>snc. snc\<lparr>sn_cb0 := sn_cb0 snc + sn_cb2 snc\<rparr>),
       seq load (\<lambda>snc.
         if sn_cb3 snc = 0 then start_time K
         else if sn_cb0 snc = limit then print_perf K q
         else return ())]"

definition sn_do_prio_stress_assert_tests :: "'w kernel \<Rightarrow> ('w, unit) sn" where
  "sn_do_prio_stress_assert_tests K = count_bytes_nd K 1024000000 8000"

definition sn_do_prio_small_assert_tests :: "'w kernel \<Rightarrow> ('w, unit) sn" where
  "sn_do_prio_small_assert_tests K = count_bytes_nd K 6400000 50"

definition sn_do_prio_fuzz_assert_tests :: "'w kernel \<Rightarrow> ('w, unit) sn" where
  "sn_do_prio_fuzz_assert_tests K =
     block [
       store (\<lambda>snc. snc\<lparr>sn_cb0 := sn_cb0 snc + sn_cb2 snc\<rparr>),
       seq load (\<lambda>snc.
         run K (Printf ''sid: %d, len: %d, total_len: %d''
           [ucast (sn_sri_stream snc), sn_cb2 snc, sn_cb0 snc]))]"

definition call_assert_nd :: "'w kernel \<Rightarrow> assert_fn_nd \<Rightarrow> ('w, unit) sn" where
  "call_assert_nd K f =
     (case f of
        Do_assert_tests \<Rightarrow> sn_do_assert_tests K
      | Do_prio_assert_tests \<Rightarrow> sn_do_prio_assert_tests K
      | Do_prio_stress_assert_tests \<Rightarrow> sn_do_prio_stress_assert_tests K
      | Do_prio_small_assert_tests \<Rightarrow> sn_do_prio_small_assert_tests K
      | Do_prio_fuzz_assert_tests \<Rightarrow> sn_do_prio_fuzz_assert_tests K)"

section \<open>The two programs\<close>

definition do_client_nd :: "'w kernel \<Rightarrow> string list \<Rightarrow> ('w, cint) sn" where
  "do_client_nd K argv =
     seq (block [
       run K (Sleep 3),
       store (\<lambda>_. zero_context\<lparr>sn_c := atoi (argv ! 3)\<rparr>),
       sn_create_asoc_sk_nd K (argv ! 1) (argv ! 2),
       seq the_case_nd (\<lambda>k. call_setup_nd K (do_setup_sched k)),
       seq the_case_nd (\<lambda>k. call_value_nd K (do_setup_schedvalue k)),
       sn_enable_asoc_strreset_nd K,
       sn_enable_peer_strreset_nd K,
       sn_close_asoc_streams_nd K,
       seq the_case_nd (\<lambda>k. call_test_nd K (do_sched_tests k)),
       sn_reopen_asoc_streams_nd K,
       sn_close_asoc_sk_nd K]) (\<lambda>_. return 0)"

definition check_nd :: "'w kernel \<Rightarrow> ('w, unit) sn" where
  \<comment> \<open>\<open>sn_cases[snc.sched].do_assert_tests(&snc)\<close>\<close>
  "check_nd K = seq the_case_nd (\<lambda>k. call_assert_nd K (do_assert_tests k))"

definition do_server_nd :: "'w kernel \<Rightarrow> string list \<Rightarrow> ('w, cint) sn" where
  "do_server_nd K argv =
     sn_serve K SCTP_ENABLE_RESET_STREAM_REQ (check_nd K)
       (zero_context\<lparr>sn_c := atoi (argv ! 3)\<rparr>) (argv ! 1) (argv ! 2)"

definition main_nd :: "'w kernel \<Rightarrow> string list \<Rightarrow> ('w, cint) sn" where
  "main_nd K = sn_main K (do_server_nd K) (do_client_nd K)"

end
