(* ===== verification/C_Scripts.thy ===== *)
theory C_Scripts
  imports C_Logic
begin

text \<open>
  What a program asks of the kernel when that depends on random numbers: not one list of actions
  but a set of them, a language, put together by concatenation. \<open>performs\<close> generalises \<open>emits\<close> to
  a language; a program that stops early has performed a prefix of a word of it, and may have flushed
  the firewall after a failed request to reset streams.
\<close>

named_theorems performs_intro "which languages of actions a program performs"

section \<open>Languages\<close>

definition conc :: "'a list set \<Rightarrow> 'a list set \<Rightarrow> 'a list set" where
  "conc A B = {a @ b | a b. a \<in> A \<and> b \<in> B}"

primrec conc_list :: "'a list set list \<Rightarrow> 'a list set" where
  "conc_list [] = {[]}"
| "conc_list (A # As) = conc A (conc_list As)"

lemma conc_single [simp]: "conc {a} {b} = {a @ b}"
  by (auto simp: conc_def)

lemma conc_Nil [simp]: "conc {[]} B = B" "conc A {[]} = A"
  by (auto simp: conc_def)

lemma conc_empty [simp]: "conc A B = {} \<longleftrightarrow> A = {} \<or> B = {}"
  by (auto simp: conc_def)

lemma concI: "a \<in> A \<Longrightarrow> b \<in> B \<Longrightarrow> a @ b \<in> conc A B"
  by (auto simp: conc_def)

lemma conc_assoc: "conc (conc A B) C = conc A (conc B C)"
  unfolding conc_def by (auto, metis append_assoc, metis append_assoc)

lemma conc_list_empty [simp]: "conc_list As = {} \<longleftrightarrow> {} \<in> set As"
  by (induction As) auto

lemma conc_list_ne: "(\<And>A. A \<in> set As \<Longrightarrow> A \<noteq> {}) \<Longrightarrow> conc_list As \<noteq> {}"
  by (simp, blast)

lemma conc_list_single [simp]: "conc_list (map (\<lambda>x. {f x}) xs) = {concat (map f xs)}"
  by (induction xs) auto

lemma conc_list_replicate_single [simp]: "conc_list (replicate n {a}) = {concat (replicate n a)}"
  by (induction n) auto

text \<open>A property of words that concatenation keeps holds of a concatenation of languages.\<close>

lemma conc_list_induct:
  assumes "w \<in> conc_list As" and "P []"
    and "\<And>A a b. A \<in> set As \<Longrightarrow> a \<in> A \<Longrightarrow> P b \<Longrightarrow> P (a @ b)"
  shows "P w"
  using assms by (induction As arbitrary: w) (auto simp: conc_def)

lemma conc_list_flatten:
  assumes "w \<in> conc_list As"
  shows "\<exists>ws. w = concat ws \<and> list_all2 (\<in>) ws As"
  using assms
proof (induction As arbitrary: w)
  case Nil
  then show ?case by simp
next
  case (Cons A As)
  then obtain a b where "w = a @ b" "a \<in> A" "b \<in> conc_list As" by (auto simp: conc_def)
  with Cons.IH obtain ws where "b = concat ws" "list_all2 (\<in>) ws As" by blast
  with \<open>w = a @ b\<close> \<open>a \<in> A\<close> show ?case by (intro exI [of _ "a # ws"]) simp
qed

section \<open>Stopping early\<close>

abbreviation reset_request :: act where
  "reset_request \<equiv> Opt SCTP_RESET_STREAMS (Reset_streams 0 2 0)"

definition stopped :: "act list \<Rightarrow> act list \<Rightarrow> bool" where
  "stopped L A \<longleftrightarrow>
     prefix A L \<or> (\<exists>B. prefix (B @ [reset_request]) L \<and> A = B @ [reset_request, Ran ''iptables -F''])"

lemma stopped_prefix: "prefix A L \<Longrightarrow> stopped L A"
  by (simp add: stopped_def)

lemma stopped_append_right: "stopped L A \<Longrightarrow> stopped (L @ M) A"
  unfolding stopped_def
  by (elim disjE exE conjE) (simp_all only: prefix_append_right simp_thms, blast intro: prefix_append_right)

lemma stopped_append_left: "stopped L A \<Longrightarrow> stopped (M @ L) (M @ A)"
  unfolding stopped_def
proof (elim disjE exE conjE)
  fix B
  assume "prefix (B @ [reset_request]) L" and "A = B @ [reset_request, Ran ''iptables -F'']"
  then have "prefix ((M @ B) @ [reset_request]) (M @ L)"
    and "M @ A = (M @ B) @ [reset_request, Ran ''iptables -F'']" by simp_all
  then show "prefix (M @ A) (M @ L) \<or> (\<exists>B. prefix (B @ [reset_request]) (M @ L) \<and>
      M @ A = B @ [reset_request, Ran ''iptables -F''])" by blast
qed simp

section \<open>The judgement \<open>performs\<close>\<close>

definition performs ::
  "'w kernel \<Rightarrow> ('c \<Rightarrow> bool) \<Rightarrow> ('c \<Rightarrow> bool) \<Rightarrow> ('c, 'w, 'a) prog \<Rightarrow> act list set \<Rightarrow> bool" where
  "performs K P R m A \<longleftrightarrow>
     (\<forall>s. P (mem s) \<longrightarrow>
        (\<exists>r t tr. m s = Some (r, t) \<and> trace t = trace s @ tr \<and>
           (case r of
              Done a \<Rightarrow> R (mem t) \<and> acts tr \<in> A
            | Exit e \<Rightarrow> e = -1 \<and> (\<exists>L \<in> A. stopped L (acts tr)) \<and> broke K tr
            | Fault _ \<Rightarrow> False)))"

lemma performsI:
  assumes "\<And>s. P (mem s) \<Longrightarrow> \<exists>r t tr. m s = Some (r, t) \<and> trace t = trace s @ tr \<and>
     (case r of
        Done a \<Rightarrow> R (mem t) \<and> acts tr \<in> A
      | Exit e \<Rightarrow> e = -1 \<and> (\<exists>L \<in> A. stopped L (acts tr)) \<and> broke K tr
      | Fault _ \<Rightarrow> False)"
  shows "performs K P R m A"
  using assms unfolding performs_def by blast

lemma performsE:
  assumes "performs K P R m A" and "P (mem s)"
  obtains (Done) a t tr where "m s = Some (Done a, t)" "trace t = trace s @ tr"
      "R (mem t)" "acts tr \<in> A"
    | (Exit) t tr L where "m s = Some (Exit (-1), t)" "trace t = trace s @ tr"
      "L \<in> A" "stopped L (acts tr)" "broke K tr"
proof -
  obtain r t tr where *: "m s = Some (r, t)" "trace t = trace s @ tr"
    "case r of
        Done a \<Rightarrow> R (mem t) \<and> acts tr \<in> A
      | Exit e \<Rightarrow> e = -1 \<and> (\<exists>L \<in> A. stopped L (acts tr)) \<and> broke K tr
      | Fault _ \<Rightarrow> False"
    using assms unfolding performs_def by blast
  then show thesis
    using that by (cases r) auto
qed

lemma performs_eq: "performs K P R m A \<Longrightarrow> A = B \<Longrightarrow> performs K P R m B"
  by simp

lemma performs_emits:
  assumes "emits K P R m L"
  shows "performs K P R m {L}"
proof (rule performsI)
  fix s :: "('b, 'a) machine"
  assume "P (mem s)"
  with assms show "\<exists>r t tr. m s = Some (r, t) \<and> trace t = trace s @ tr \<and>
     (case r of
        Done a \<Rightarrow> R (mem t) \<and> acts tr \<in> {L}
      | Exit e \<Rightarrow> e = -1 \<and> (\<exists>L \<in> {L}. stopped L (acts tr)) \<and> broke K tr
      | Fault _ \<Rightarrow> False)"
    by (cases rule: emitsE) (auto intro: stopped_prefix)
qed

lemma performs_weaken:
  assumes m: "performs K P R m A" and pre: "\<And>x. P' x \<Longrightarrow> P x" and post: "\<And>x. R x \<Longrightarrow> R' x"
    and sub: "A \<subseteq> B"
  shows "performs K P' R' m B"
proof (rule performsI)
  fix s :: "('b, 'a) machine"
  assume "P' (mem s)"
  then have "P (mem s)" by (rule pre)
  with m show "\<exists>r t tr. m s = Some (r, t) \<and> trace t = trace s @ tr \<and>
     (case r of
        Done a \<Rightarrow> R' (mem t) \<and> acts tr \<in> B
      | Exit e \<Rightarrow> e = -1 \<and> (\<exists>L \<in> B. stopped L (acts tr)) \<and> broke K tr
      | Fault _ \<Rightarrow> False)"
    by (cases rule: performsE) (use post sub in auto)
qed

lemma performs_seq [performs_intro]:
  assumes m: "performs K P Q m A" and f: "\<And>a. performs K Q R (f a) B" and ne: "B \<noteq> {}"
  shows "performs K P R (seq m f) (conc A B)"
proof (rule performsI)
  fix s :: "('b, 'a) machine"
  assume "P (mem s)"
  with m show "\<exists>r t tr. seq m f s = Some (r, t) \<and> trace t = trace s @ tr \<and>
     (case r of
        Done a \<Rightarrow> R (mem t) \<and> acts tr \<in> conc A B
      | Exit e \<Rightarrow> e = -1 \<and> (\<exists>L \<in> conc A B. stopped L (acts tr)) \<and> broke K tr
      | Fault _ \<Rightarrow> False)"
  proof (cases rule: performsE)
    case (Done a t tr)
    note one = Done
    from f [of a] one(3) show ?thesis
    proof (cases rule: performsE)
      case (Done b u tr')
      with one show ?thesis by (simp add: run_simps concI)
    next
      case (Exit u tr' L)
      from concI [OF one(4) Exit(3)] stopped_append_left [OF Exit(4), of "acts tr"]
      have "\<exists>L \<in> conc A B. stopped L (acts (tr @ tr'))" by auto
      with one Exit show ?thesis by (auto simp: run_simps)
    qed
  next
    case (Exit t tr L)
    obtain b where "b \<in> B" using ne by blast
    from concI [OF Exit(3) this] stopped_append_right [OF Exit(4), of b]
    have "\<exists>L \<in> conc A B. stopped L (acts tr)" by blast
    with Exit show ?thesis by (auto simp: run_simps)
  qed
qed

lemma performs_block_Nil [performs_intro]: "performs K P P (block []) {[]}"
  by (rule performs_emits) (rule emits_block_Nil)

lemma performs_block_Cons [performs_intro]:
  "performs K P Q m A \<Longrightarrow> performs K Q R (block ms) B \<Longrightarrow> B \<noteq> {} \<Longrightarrow>
   performs K P R (block (m # ms)) (conc A B)"
  unfolding block.simps by (rule performs_seq)

lemma performs_block_map:
  assumes "\<And>x. x \<in> set xs \<Longrightarrow> performs K P P (f x) (A x)" and "\<And>x. x \<in> set xs \<Longrightarrow> A x \<noteq> {}"
  shows "performs K P P (block (map f xs)) (conc_list (map A xs))"
  using assms
proof (induction xs)
  case Nil
  show ?case using performs_block_Nil by simp
next
  case (Cons x xs)
  have "performs K P P (f x) (A x)" and "performs K P P (block (map f xs)) (conc_list (map A xs))"
    using Cons by auto
  moreover have "conc_list (map A xs) \<noteq> {}"
    using Cons.prems(2) by auto
  ultimately show ?case by (simp add: performs_seq)
qed

lemma performs_for [performs_intro]:
  "(\<And>i. a \<le> i \<Longrightarrow> i < b \<Longrightarrow> performs K P P (f i) (A i)) \<Longrightarrow> (\<And>i. A i \<noteq> {}) \<Longrightarrow>
   performs K P P (for_loop a b f) (conc_list (map A [a..<b]))"
  unfolding for_loop_def by (rule performs_block_map) auto

lemma performs_repeat [performs_intro]:
  assumes "performs K P P m A" and "A \<noteq> {}"
  shows "performs K P P (repeat_loop n m) (conc_list (replicate n A))"
proof (induction n)
  case 0
  show ?case using performs_emits [OF emits_return] by simp
next
  case (Suc n)
  have "conc_list (replicate n A) \<noteq> {}" using assms(2) by auto
  with Suc assms(1) show ?case by (simp add: performs_seq)
qed

lemma performs_whole_run:
  assumes "performs K (\<lambda>_. True) R m A" and "\<And>a t. m s = Some (Done a, t) \<Longrightarrow> a = v"
  shows "\<exists>r t tr. m s = Some (r, t) \<and> trace t = trace s @ tr \<and>
    (case r of
       Done x \<Rightarrow> x = v \<and> acts tr \<in> A
     | Exit e \<Rightarrow> e = -1 \<and> (\<exists>L \<in> A. stopped L (acts tr)) \<and> broke K tr
     | Fault _ \<Rightarrow> False)"
  using assms(1) TrueI by (cases rule: performsE [where s = s]) (auto simp: assms(2))

lemma stopped_messages: "stopped L A \<Longrightarrow> prefix (messages A) (messages L)"
  unfolding stopped_def by (auto dest!: messages_prefix simp: prefix_append_right)

lemma performs_part:
  assumes "performs K (\<lambda>_. True) R m A"
  shows "\<exists>r t tr. m s = Some (r, t) \<and> trace t = trace s @ tr \<and>
    (\<exists>L \<in> A. stopped L (acts tr) \<and> ((\<exists>a. r = Done a) \<longrightarrow> acts tr = L))"
  using assms TrueI
  by (cases rule: performsE [where s = s]) (auto intro: bexI [of _ "acts tr" for tr] stopped_prefix)

lemma performs_completes:
  assumes "performs K (\<lambda>_. True) R m A" and "all_succeed K"
    and "\<And>a t. m s = Some (Done a, t) \<Longrightarrow> a = v"
  shows "\<exists>t tr. m s = Some (Done v, t) \<and> trace t = trace s @ tr \<and> acts tr \<in> A"
  using assms(1) TrueI
  by (cases rule: performsE [where s = s]) (auto simp: assms(3) all_succeed_broke [OF assms(2)])

end
