(* ===== verification/Ndata_Props.thy ===== *)
theory Ndata_Props
  imports Ndata C_Scripts
begin

text \<open>
  The client of the scheduler test: what it asks of the kernel in each of its 21 cases, the random ones
  included, under any random numbers; and that there is nothing to run beyond the table.
\<close>

section \<open>Looking a case up\<close>

lemma less_21_cases:
  "(n::nat) < 21 \<Longrightarrow> n = 20 \<or> n = 19 \<or> n = 18 \<or> n = 17 \<or> n = 16 \<or> n = 15 \<or> n = 14 \<or>
    n = 13 \<or> n = 12 \<or> n = 11 \<or> n = 10 \<or> n = 9 \<or> n = 8 \<or> n = 7 \<or>
    n = 6 \<or> n = 5 \<or> n = 4 \<or> n = 3 \<or> n = 2 \<or> n = 1 \<or> n = 0"
  by arith

lemma the_case_nd_run:
  assumes "n < 21" and "sn_c (mem s) = of_nat n"
  shows "the_case_nd s = Some (Done (sn_cases_nd ! n), s)"
  using assms by (simp add: the_case_nd_def run_simps SN_CASE_MAX_nd_def)

lemma emits_the_case_nd:
  assumes "n < 21" and "emits K (in_case (of_nat n)) R (f (sn_cases_nd ! n)) L"
  shows "emits K (in_case (of_nat n)) R (seq the_case_nd f) L"
  using assms(2) unfolding emits_def by (simp add: seq_Done [OF the_case_nd_run [OF assms(1)]])

lemma performs_the_case_nd:
  assumes "n < 21" and "performs K (in_case (of_nat n)) R (f (sn_cases_nd ! n)) A"
  shows "performs K (in_case (of_nat n)) R (seq the_case_nd f) A"
  using assms(2) unfolding performs_def by (simp add: seq_Done [OF the_case_nd_run [OF assms(1)]])

lemma sn_cases_nd_nth:
  "sn_cases_nd ! 0 = conf_case 1 [3, 3, 3, 2, 2, 2, 1, 1, 1] Do_setup_schedvalue"
  "sn_cases_nd ! 1 = conf_case 1 [3, 3, 3, 1, 2, 1, 2, 1, 2] Do_prio_setup_schedvalue"
  "sn_cases_nd ! 2 =
     load_case 1 Do_prio_stress_setup_schedvalue Do_prio_sched_tests Do_prio_assert_tests"
  "sn_cases_nd ! 3 =
     load_case 1 Do_prio_stress_setup_schedvalue Do_prio_stress_sched_tests Do_prio_stress_assert_tests"
  "sn_cases_nd ! 4 =
     load_case 1 Do_prio_stress_setup_schedvalue Do_prio_small_sched_tests Do_prio_small_assert_tests"
  "sn_cases_nd ! 5 =
     load_case 1 Do_prio_stress_setup_schedvalue Do_prio_fuzz_sched_tests Do_prio_fuzz_assert_tests"
  "sn_cases_nd ! 6 =
     load_case 1 Do_prio_stress_setup_schedvalue Do_prio_fuzzb_sched_tests Do_prio_fuzz_assert_tests"
  "sn_cases_nd ! 7 = conf_case 2 [1, 2, 3, 1, 2, 3, 1, 2, 3] Do_rr_setup_schedvalue"
  "sn_cases_nd ! 8 =
     load_case 2 Do_rr_setup_schedvalue Do_prio_sched_tests Do_prio_assert_tests"
  "sn_cases_nd ! 9 =
     load_case 2 Do_prio_stress_setup_schedvalue Do_prio_stress_sched_tests Do_prio_stress_assert_tests"
  "sn_cases_nd ! 10 =
     load_case 2 Do_prio_stress_setup_schedvalue Do_prio_small_sched_tests Do_prio_small_assert_tests"
  "sn_cases_nd ! 11 =
     load_case 2 Do_prio_stress_setup_schedvalue Do_prio_fuzz_sched_tests Do_prio_fuzz_assert_tests"
  "sn_cases_nd ! 12 =
     load_case 2 Do_prio_stress_setup_schedvalue Do_prio_fuzzb_sched_tests Do_prio_fuzz_assert_tests"
  "sn_cases_nd ! 13 = conf_case 0 [1, 1, 1, 2, 2, 2, 3, 3, 3] Do_rr_setup_schedvalue"
  "sn_cases_nd ! 14 =
     load_case 0 Do_rr_setup_schedvalue Do_prio_sched_tests Do_prio_assert_tests"
  "sn_cases_nd ! 15 =
     load_case 0 Do_prio_stress_setup_schedvalue Do_prio_stress_sched_tests Do_prio_stress_assert_tests"
  "sn_cases_nd ! 16 =
     load_case 0 Do_prio_stress_setup_schedvalue Do_prio_small_sched_tests Do_prio_small_assert_tests"
  "sn_cases_nd ! 17 =
     load_case 0 Do_prio_stress_setup_schedvalue Do_prio_fuzz_sched_tests Do_prio_fuzz_assert_tests"
  "sn_cases_nd ! 18 =
     load_case 0 Do_prio_stress_setup_schedvalue Do_prio_fuzz_sched_tests Do_prio_fuzz_assert_tests"
  "sn_cases_nd ! 19 =
     load_case 0 Do_rr_setup_schedvalue Do_prio_sched_tests_x Do_prio_assert_tests"
  "sn_cases_nd ! 20 =
     load_case 0 Do_rr_setup_schedvalue Do_prio_sched_tests_y Do_prio_assert_tests"
  by (simp_all add: sn_cases_nd_def nd_schedulers)

lemmas case_nd_simps = sn_cases_nd_nth sn_cases_nd_nth(2) [unfolded One_nat_def]
  conf_case_def load_case_def

section \<open>The scripts of the client\<close>

text \<open>The values each function sets, one stream after the other.\<close>

abbreviation value_of_stream :: "nat \<Rightarrow> nat \<Rightarrow> act" where
  "value_of_stream i v \<equiv> Opt SCTP_STREAM_SCHEDULER_VALUE (Stream_value 0 (of_nat i) (of_nat v))"

fun value_script :: "value_fn_nd \<Rightarrow> act list" where
  "value_script Do_setup_schedvalue = [value_of_stream 1 9, value_of_stream 2 8, value_of_stream 3 7]"
| "value_script Do_prio_setup_schedvalue =
     [value_of_stream 1 9, value_of_stream 2 9, value_of_stream 3 8]"
| "value_script Do_prio_stress_setup_schedvalue = map (\<lambda>i. value_of_stream i (10 - i)) [0..<10]"
| "value_script Do_rr_setup_schedvalue = []"

text \<open>One round of messages over the ten streams, \<open>word i\<close> being what stream \<open>i\<close> gets.\<close>

definition over_streams :: "(nat \<Rightarrow> act list) \<Rightarrow> act list" where
  "over_streams word = concat (map word [0..<10])"

abbreviation data_nd :: "cint \<Rightarrow> cint \<Rightarrow> nat \<Rightarrow> act" where
  "data_nd len fl i \<equiv> Sent len fl (of_nat i) 0"

text \<open>Ten messages of random length on each of the ten streams.\<close>

definition random_data :: "nat \<Rightarrow> nat \<Rightarrow> act list set" where
  "random_data bound i = {[data_nd len 0 i] | len. 20 \<le> unat len \<and> unat len < bound}"

definition random_round :: "nat \<Rightarrow> act list set" where
  "random_round bound = conc_list (map (\<lambda>i. conc_list (map (\<lambda>_. random_data bound i) [0..<10])) [0..<10])"

text \<open>A round of the second random test sets the scheduler and the values of one of the cases.\<close>

definition random_case_round :: "act list set" where
  "random_case_round =
     (\<Union>m \<in> {..<21}. conc {Opt SCTP_STREAM_SCHEDULER (Assoc_value 0 (sched_nd (sn_cases_nd ! m)))
         # value_script (do_setup_schedvalue (sn_cases_nd ! m))} (random_round 3020))"

fun test_scripts :: "test_fn_nd \<Rightarrow> act list set" where
  "test_scripts Do_sched_tests = {concat (map (\<lambda>i. replicate 3 (data_nd 1024 0 i)) [1..<4])}"
| "test_scripts Do_prio_sched_tests =
     {concat (replicate 10000 (over_streams (\<lambda>i. replicate 10 (data_nd 1024 0 i)))) @ [Slept 10]}"
| "test_scripts Do_prio_sched_tests_x =
     {concat (replicate 10000 (over_streams (\<lambda>i. replicate 10 (data_nd 1024 1 i)))) @ [Slept 10]}"
| "test_scripts Do_prio_sched_tests_y =
     {concat (replicate 10000 (over_streams (\<lambda>i.
        concat (replicate 5 [data_nd 1024 0 i, data_nd 1024 1 i])))) @ [Slept 10]}"
| "test_scripts Do_prio_stress_sched_tests =
     {concat (replicate 1000 (over_streams (\<lambda>i. replicate 10 (data_nd 10240 0 i)))) @ [Slept 10]}"
| "test_scripts Do_prio_small_sched_tests =
     {concat (replicate 1000 (over_streams (\<lambda>i. replicate 10 (data_nd 64 0 i)))) @ [Slept 10]}"
| "test_scripts Do_prio_fuzz_sched_tests =
     conc (conc_list (replicate 10000 (random_round 1520))) {[Slept 10]}"
| "test_scripts Do_prio_fuzzb_sched_tests =
     conc (conc_list (replicate 10000 random_case_round)) {[Slept 10]}"

definition close_script_nd :: "cint \<Rightarrow> act list" where
  "close_script_nd cork =
     (if cork = 0 then [] else [Ran ''iptables -A INPUT -p sctp -j DROP'', reset_request])"

text \<open>After the second random test any case may be the current one.\<close>

definition reopen_scripts_nd :: "sn_case_nd \<Rightarrow> act list set" where
  "reopen_scripts_nd k =
     (if do_sched_tests k = Do_prio_fuzzb_sched_tests then {[], [Ran ''iptables -F'', Slept 10]}
      else if sched_cork k = 0 then {[]}
      else {[Ran ''iptables -F'', Slept 10]})"

definition client_start_nd :: "sn_case_nd \<Rightarrow> act list" where
  "client_start_nd k =
     [Slept 3] @ sk_setup @ [Opt SCTP_STREAM_SCHEDULER (Assoc_value 0 (sched_nd k))] @
     value_script (do_setup_schedvalue k) @
     [Opt SCTP_ENABLE_STREAM_RESET (Assoc_value 0 1), Sent SN_CMD_SET_STRRESET 0 0 0] @
     close_script_nd (sched_cork k)"

definition client_scripts_nd :: "nat \<Rightarrow> act list set" where
  "client_scripts_nd n =
     (let k = sn_cases_nd ! n in
      conc {client_start_nd k}
        (conc (test_scripts (do_sched_tests k))
          (conc (reopen_scripts_nd k) {[Sent SN_CMD_CLOSE_ASOC 0 0 0, Closed, Slept 5]})))"

section \<open>The client follows them\<close>

lemma ucast_of_nat_short: "(ucast (of_nat i :: cint) :: cushort) = of_nat i"
  by transfer (simp add: take_bit_of_nat)

lemma emits_set_stream_value [emits_intro]:
  "emits K P P (set_stream_value K i v) [value_of_stream i v]"
  unfolding set_stream_value_def by (rule emits_eq, (rule emits_intro | simp)+)

lemma emits_call_setup_nd:
  assumes "n < 21"
  shows "emits K (in_case (of_nat n)) (in_case (of_nat n))
    (seq the_case_nd (\<lambda>k. call_setup_nd K (do_setup_sched k)))
    [Opt SCTP_STREAM_SCHEDULER (Assoc_value 0 (sched_nd (sn_cases_nd ! n)))]"
proof -
  have "emits K (in_case (of_nat n)) (in_case (of_nat n)) (sn_do_setup_sched K)
    [Opt SCTP_STREAM_SCHEDULER (Assoc_value 0 (sched_nd (sn_cases_nd ! n)))]"
    unfolding sn_do_setup_sched_def
    by (rule emits_the_case_nd [OF assms], rule emits_eq, (rule emits_intro | simp)+)
  then show ?thesis
    by (intro emits_the_case_nd [OF assms]) (simp add: call_setup_nd_def split: setup_fn_nd.split)
qed

lemma emits_call_value_nd: "emits K P P (call_value_nd K f) (value_script f)"
proof (cases f)
  case Do_setup_schedvalue
  then show ?thesis
    by (simp add: call_value_nd_def sn_do_setup_schedvalue_def)
      (rule emits_eq, (rule emits_intro)+, simp add: upt_rec)
next
  case Do_prio_setup_schedvalue
  then show ?thesis
    by (simp add: call_value_nd_def sn_do_prio_setup_schedvalue_def)
      (rule emits_eq, (rule emits_intro)+, simp add: upt_rec)
next
  case Do_prio_stress_setup_schedvalue
  then show ?thesis
    by (simp add: call_value_nd_def sn_do_prio_stress_setup_schedvalue_def)
      (rule emits_eq, (rule emits_intro)+, simp)
next
  case Do_rr_setup_schedvalue
  then show ?thesis
    by (simp add: call_value_nd_def sn_do_rr_setup_schedvalue_def emits_return)
qed

lemma emits_value_case_nd:
  assumes "n < 21"
  shows "emits K (in_case (of_nat n)) (in_case (of_nat n))
    (seq the_case_nd (\<lambda>k. call_value_nd K (do_setup_schedvalue k)))
    (value_script (do_setup_schedvalue (sn_cases_nd ! n)))"
  by (rule emits_the_case_nd [OF assms]) (rule emits_call_value_nd)

lemma emits_data_nd [emits_intro]:
  "unat len \<le> 10240 \<Longrightarrow> emits K P P (sn_send_asoc_msg_nd K len (of_nat i) fl) [data_nd len fl i]"
  by (rule emits_eq, erule emits_sn_send_asoc_msg) (simp add: ucast_of_nat_short)

lemmas test_defs_nd = sn_do_sched_tests_def sn_do_prio_sched_tests_def
  sn_do_prio_sched_tests_x_def sn_do_prio_sched_tests_y_def sn_do_prio_stress_sched_tests_def
  sn_do_prio_small_sched_tests_def

text \<open>The tests whose messages are fixed.\<close>

lemma emits_times:
  "emits K P P m A \<Longrightarrow> emits K P P (for_loop 0 n (\<lambda>_. m)) (concat (replicate n A))"
  by (rule emits_eq, rule emits_for, assumption) (simp add: map_replicate_const)

lemma emits_times_1: "emits K P P m [a] \<Longrightarrow> emits K P P (for_loop 0 n (\<lambda>_. m)) (replicate n a)"
  by (drule emits_times) simp

lemma emits_rounds:
  assumes "\<And>i. emits K P P (f i) (word i)"
  shows "emits K P P (block [repeat_loop n (for_loop 0 10 f), run K (Sleep 10)])
    (concat (replicate n (over_streams word)) @ [Slept 10])"
proof -
  have "emits K P P (for_loop 0 10 f) (over_streams word)"
    unfolding over_streams_def by (rule emits_for) (rule assms)
  then have "emits K P P (repeat_loop n (for_loop 0 10 f)) (concat (replicate n (over_streams word)))"
    by (rule emits_repeat)
  moreover have "emits K P P (block [run K (Sleep 10)]) ([Slept 10] @ [])"
    by (rule emits_block_Cons [OF emits_run emits_block_Nil]) simp
  ultimately show ?thesis
    by (subst append_Nil2 [symmetric, of "[Slept 10]"]) (rule emits_block_Cons)
qed

lemma emits_pair_nd:
  "unat len \<le> 10240 \<Longrightarrow>
   emits K P P (block [sn_send_asoc_msg_nd K len (of_nat i) 0, sn_send_asoc_msg_nd K len (of_nat i) 1])
     [data_nd len 0 i, data_nd len 1 i]"
  by (rule emits_eq, (rule emits_block_Cons emits_block_Nil emits_data_nd | assumption)+) simp

lemma performs_fixed_test:
  assumes "fn \<noteq> Do_prio_fuzz_sched_tests" and "fn \<noteq> Do_prio_fuzzb_sched_tests"
  shows "performs K P P (call_test_nd K fn) (test_scripts fn)"
proof -
  have len: "unat (1024 :: cint) \<le> 10240" "unat (10240 :: cint) \<le> 10240" "unat (64 :: cint) \<le> 10240"
    by simp_all
  note rules = emits_rounds emits_times_1 emits_times emits_data_nd emits_pair_nd emits_for len
  show ?thesis
    using assms
    by (cases fn; simp only: call_test_nd_def test_fn_nd.case test_defs_nd test_scripts.simps simp_thms)
      (rule performs_emits, (rule rules)+)+
qed

text \<open>The random tests.\<close>

lemma random_length:
  fixes x r :: cint
  assumes "unat r \<le> 3000" and "0 < unat r"
  shows "20 \<le> unat (x mod r + 20)" and "unat (x mod r + 20) < unat r + 20"
proof -
  have m: "unat (x mod r) < unat r" using assms by (simp add: unat_mod)
  then have "unat (x mod r + 20) = unat (x mod r) + 20"
    using assms by (simp add: unat_word_ariths)
  with m show "20 \<le> unat (x mod r + 20)" and "unat (x mod r + 20) < unat r + 20" by simp_all
qed

lemma random_case: "\<exists>m < 21. (x :: cint) mod of_nat SN_CASE_MAX_nd = of_nat m"
proof -
  have "unat (x mod 21) < 21" by (simp add: unat_mod)
  moreover have "x mod 21 = of_nat (unat (x mod 21))" by (simp only: of_nat_unat ucast_id)
  ultimately show ?thesis by (auto simp: SN_CASE_MAX_nd_def)
qed

lemma random_data_ne: "20 < bound \<Longrightarrow> random_data bound i \<noteq> {}"
  by (auto simp: random_data_def intro!: exI [of _ 20])

lemma random_round_ne: "20 < bound \<Longrightarrow> random_round bound \<noteq> {}"
  unfolding random_round_def
  by (intro conc_list_ne, unfold set_map, elim imageE, hypsubst, intro conc_list_ne)
    (auto simp: random_data_ne)

lemma random_case_round_ne: "random_case_round \<noteq> {}"
proof -
  have "random_round 3020 \<noteq> {}" by (rule random_round_ne) simp
  then show ?thesis by (auto simp: random_case_round_def intro!: exI [of _ 0])
qed

lemma performs_send_random:
  assumes "unat r \<le> 3000" and "0 < unat r" and "bound = unat r + 20"
  shows "performs K P P (send_random K r i) (random_data bound i)"
proof -
  have send: "performs K P P (sn_send_asoc_msg_nd K (x mod r + 20) (of_nat i) 0) (random_data bound i)" for x
  proof (rule performs_weaken [OF performs_emits])
    show "emits K P P (sn_send_asoc_msg_nd K (x mod r + 20) (of_nat i) 0) [data_nd (x mod r + 20) 0 i]"
      using random_length(2) [OF assms(1,2), of x] assms(1) by (intro emits_data_nd) simp
    show "{[data_nd (x mod r + 20) 0 i]} \<subseteq> random_data bound i"
      using random_length [OF assms(1,2), of x] assms(3) by (auto simp: random_data_def)
  qed
  have "performs K P P (rand_nd K) {[]}"
    unfolding rand_nd_def
    by (rule performs_emits, rule emits_eq, (rule emits_intro | simp)+)
  then have "performs K P P (send_random K r i) (conc {[]} (random_data bound i))"
    unfolding send_random_def
    by (rule performs_seq) (use send random_data_ne assms in auto)
  then show ?thesis by simp
qed

lemma performs_random_round:
  assumes "unat r \<le> 3000" and "0 < unat r" and "bound = unat r + 20"
  shows "performs K P P (for_loop 0 10 (\<lambda>stream. for_loop 0 10 (\<lambda>count. send_random K r stream)))
    (random_round bound)"
proof -
  have ne: "random_data bound i \<noteq> {}" for i
    using assms(2,3) by (intro random_data_ne) simp
  then have "conc_list (map (\<lambda>_. random_data bound i) [0..<10]) \<noteq> {}" for i
    by (intro conc_list_ne) auto
  then show ?thesis
    unfolding random_round_def
    by (intro performs_for performs_send_random [OF assms] ne)
qed

lemma performs_sleep: "performs K P P (block [run K (Sleep n)]) {[Slept n]}"
  by (rule performs_eq, rule performs_block_Cons [OF performs_emits [OF emits_run] performs_block_Nil])
    simp_all

lemma performs_srand: "performs K P P (srand_time K) {[]}"
  unfolding srand_time_def
  by (rule performs_emits, rule emits_eq, (rule emits_intro | simp)+)

lemma performs_fuzz: "performs K P P (sn_do_prio_fuzz_sched_tests K) (test_scripts Do_prio_fuzz_sched_tests)"
proof -
  have ne: "random_round 1520 \<noteq> {}" by (rule random_round_ne) simp
  have "performs K P P (repeat_loop 10000
      (for_loop 0 10 (\<lambda>stream. for_loop 0 10 (\<lambda>count. send_random K 1500 stream))))
      (conc_list (replicate 10000 (random_round 1520)))"
    by (intro performs_repeat performs_random_round) (simp_all add: ne)
  then have "performs K P P (sn_do_prio_fuzz_sched_tests K)
      (conc {[]} (conc (conc_list (replicate 10000 (random_round 1520))) {[Slept 10]}))"
    unfolding sn_do_prio_fuzz_sched_tests_def
    by (intro performs_block_Cons [OF performs_srand] performs_block_Cons [OF _ performs_sleep])
      (use ne in auto)
  then show ?thesis by simp
qed

text \<open>The case of the context is any of the table's.\<close>

definition some_case :: "sn_context \<Rightarrow> bool" where
  "some_case snc \<longleftrightarrow> (\<exists>m < 21. sn_c snc = of_nat m)"

lemma performs_some_case:
  assumes "\<And>m. m < 21 \<Longrightarrow> performs K (in_case (of_nat m)) R f A"
  shows "performs K some_case R f A"
  using assms unfolding performs_def some_case_def by blast

text \<open>What a round of the second random test does after it has chosen a case.\<close>

abbreviation chosen_round :: "'w kernel \<Rightarrow> ('w, unit) sn" where
  "chosen_round K \<equiv> block [
     seq the_case_nd (\<lambda>k. call_setup_nd K (do_setup_sched k)),
     seq the_case_nd (\<lambda>k. call_value_nd K (do_setup_schedvalue k)),
     for_loop 0 10 (\<lambda>stream. for_loop 0 10 (\<lambda>count. send_random K 3000 stream))]"

lemma performs_chosen_round:
  assumes "m < 21"
  shows "performs K (in_case (of_nat m)) (in_case (of_nat m)) (chosen_round K) random_case_round"
proof (rule performs_weaken)
  have ne: "random_round 3020 \<noteq> {}" by (rule random_round_ne) simp
  show "performs K (in_case (of_nat m)) (in_case (of_nat m)) (chosen_round K)
    (conc {[Opt SCTP_STREAM_SCHEDULER (Assoc_value 0 (sched_nd (sn_cases_nd ! m)))]}
      (conc {value_script (do_setup_schedvalue (sn_cases_nd ! m))}
        (conc (random_round 3020) {[]})))"
    by (rule performs_block_Cons [OF performs_emits [OF emits_call_setup_nd [OF assms]]
          performs_block_Cons [OF performs_emits [OF emits_value_case_nd [OF assms]]
            performs_block_Cons [OF performs_random_round performs_block_Nil]]])
      (simp_all add: ne)
  show "conc {[Opt SCTP_STREAM_SCHEDULER (Assoc_value 0 (sched_nd (sn_cases_nd ! m)))]}
      (conc {value_script (do_setup_schedvalue (sn_cases_nd ! m))}
        (conc (random_round 3020) {[]})) \<subseteq> random_case_round"
    using assms by (auto simp: random_case_round_def simp flip: conc_assoc)
qed simp_all

lemma performs_random_case_round:
  "performs K some_case some_case
     (block [
       seq (rand_nd K) (\<lambda>x. store (\<lambda>snc. snc\<lparr>sn_c := x mod of_nat SN_CASE_MAX_nd\<rparr>)),
       seq the_case_nd (\<lambda>k. call_setup_nd K (do_setup_sched k)),
       seq the_case_nd (\<lambda>k. call_value_nd K (do_setup_schedvalue k)),
       for_loop 0 10 (\<lambda>stream. for_loop 0 10 (\<lambda>count. send_random K 3000 stream))])
     random_case_round"
proof -
  have rest: "performs K (in_case (of_nat m)) some_case (chosen_round K) random_case_round" if "m < 21" for m
    by (rule performs_weaken [OF performs_chosen_round [OF that]]) (use that in \<open>auto simp: some_case_def\<close>)
  have pick: "performs K some_case some_case
      (seq (store (\<lambda>snc. snc\<lparr>sn_c := x mod of_nat SN_CASE_MAX_nd\<rparr>)) (\<lambda>_. chosen_round K)) random_case_round" for x
  proof -
    obtain m where m: "m < 21" "x mod of_nat SN_CASE_MAX_nd = of_nat m"
      using random_case [of x] by blast
    have "performs K some_case (in_case (of_nat m))
        (store (\<lambda>snc. snc\<lparr>sn_c := x mod of_nat SN_CASE_MAX_nd\<rparr>)) {[]}"
      by (rule performs_emits, rule emits_store) (simp add: m(2))
    from performs_seq [OF this rest [OF m(1)] random_case_round_ne] show ?thesis by simp
  qed
  have "performs K some_case some_case (rand_nd K) {[]}"
    unfolding rand_nd_def
    by (rule performs_emits, rule emits_eq, (rule emits_intro | simp)+)
  from performs_seq [OF this pick random_case_round_ne]
  show ?thesis by (simp add: seq_assoc)
qed

lemma performs_fuzzb:
  "performs K some_case some_case (sn_do_prio_fuzzb_sched_tests K) (test_scripts Do_prio_fuzzb_sched_tests)"
proof -
  have "performs K some_case some_case (sn_do_prio_fuzzb_sched_tests K)
      (conc {[]} (conc (conc_list (replicate 10000 random_case_round)) {[Slept 10]}))"
    unfolding sn_do_prio_fuzzb_sched_tests_def
    by (intro performs_block_Cons [OF performs_srand] performs_block_Cons [OF _ performs_sleep]
        performs_repeat performs_random_case_round)
      (use random_case_round_ne in auto)
  then show ?thesis by simp
qed

text \<open>Around the tests.\<close>

lemma performs_close_nd:
  assumes "n < 21"
  shows "performs K (in_case (of_nat n)) (in_case (of_nat n)) (sn_close_asoc_streams_nd K)
    {close_script_nd (sched_cork (sn_cases_nd ! n))}"
proof -
  let ?reset = "seq load (\<lambda>snc.
      seq (sys K (Setsockopt (sn_fd snc) SCTP_RESET_STREAMS
          (Reset_streams (asoc_id snc) SCTP_STREAM_RESET_OUTGOING 0))) (\<lambda>r.
        if r_ret r \<noteq> 0 then
          seq (block [run K (Shell ''iptables -F''), run K (Perror ''setsockopt'')]) (\<lambda>_. exit_with (-1))
        else return ()))"
  have reset: "performs K P P ?reset {[reset_request]}" for P
    by (rule performsI)
      (auto simp: run_simps SCTP_STREAM_RESET_OUTGOING_def failed_def stopped_def)
  have "performs K P P (block [run K (Shell ''iptables -A INPUT -p sctp -j DROP''), ?reset,
      run K (Printf ''all stream are closed'' [])])
    (conc {[Ran ''iptables -A INPUT -p sctp -j DROP'']} (conc {[reset_request]} (conc {[]} {[]})))" for P
    by (rule performs_block_Cons [OF performs_emits [OF emits_run] performs_block_Cons [OF reset
            performs_block_Cons [OF performs_emits [OF emits_run] performs_block_Nil]]]) simp_all
  then show ?thesis
    unfolding sn_close_asoc_streams_nd_def close_script_nd_def
    by (intro performs_the_case_nd [OF assms])
      (simp add: performs_emits [OF emits_return])
qed

lemma emits_reopen_nd:
  assumes "m < 21"
  shows "emits K (in_case (of_nat m)) (in_case (of_nat m)) (sn_reopen_asoc_streams_nd K)
    (if sched_cork (sn_cases_nd ! m) = 0 then [] else [Ran ''iptables -F'', Slept 10])"
  unfolding sn_reopen_asoc_streams_nd_def
  by (rule emits_the_case_nd [OF assms]) (simp, intro conjI impI; rule emits_eq, (rule emits_intro | simp)+)

lemma performs_reopen_some:
  "performs K some_case some_case (sn_reopen_asoc_streams_nd K) {[], [Ran ''iptables -F'', Slept 10]}"
  by (rule performs_some_case, rule performs_weaken [OF performs_emits [OF emits_reopen_nd]])
    (auto simp: some_case_def)

lemma performs_test_and_reopen:
  assumes "n < 21"
  shows "performs K (in_case (of_nat n)) some_case
    (block [seq the_case_nd (\<lambda>k. call_test_nd K (do_sched_tests k)),
       sn_reopen_asoc_streams_nd K, sn_close_asoc_sk_nd K])
    (let k = sn_cases_nd ! n in conc (test_scripts (do_sched_tests k))
       (conc (reopen_scripts_nd k) {[Sent SN_CMD_CLOSE_ASOC 0 0 0, Closed, Slept 5]}))"
proof -
  let ?fn = "do_sched_tests (sn_cases_nd ! n)"
  let ?last = "{[Sent SN_CMD_CLOSE_ASOC 0 0 0, Closed, Slept 5]}"
  have some: "some_case x" if "in_case (of_nat n) x" for x
    using that assms by (auto simp: some_case_def)
  have close: "performs K P P (block [sn_close_asoc_sk_nd K]) ?last" for P
    by (rule performs_eq, rule performs_block_Cons [OF performs_emits [OF emits_sn_close_asoc_sk]
          performs_block_Nil]) simp_all
  show ?thesis
  proof (cases "?fn = Do_prio_fuzzb_sched_tests")
    case True
    have "performs K (in_case (of_nat n)) some_case (seq the_case_nd (\<lambda>k. call_test_nd K (do_sched_tests k)))
        (test_scripts ?fn)"
      unfolding True
      by (rule performs_the_case_nd [OF assms], simp only: True call_test_nd_def test_fn_nd.case,
          rule performs_weaken [OF performs_fuzzb some _ order_refl])
    from performs_block_Cons [OF this performs_block_Cons [OF performs_reopen_some close]]
    show ?thesis using True by (simp add: reopen_scripts_nd_def)
  next
    case False
    have "performs K P P (call_test_nd K ?fn) (test_scripts ?fn)" for P
      using False performs_fixed_test [of ?fn] performs_fuzz
      by (cases "?fn = Do_prio_fuzz_sched_tests") (simp_all add: call_test_nd_def)
    then have "performs K (in_case (of_nat n)) (in_case (of_nat n))
        (seq the_case_nd (\<lambda>k. call_test_nd K (do_sched_tests k))) (test_scripts ?fn)"
      by (rule performs_the_case_nd [OF assms])
    from performs_block_Cons [OF this performs_block_Cons [OF
          performs_emits [OF emits_reopen_nd [OF assms]] close]]
    have "performs K (in_case (of_nat n)) (in_case (of_nat n))
      (block [seq the_case_nd (\<lambda>k. call_test_nd K (do_sched_tests k)),
         sn_reopen_asoc_streams_nd K, sn_close_asoc_sk_nd K])
      (let k = sn_cases_nd ! n in conc (test_scripts ?fn) (conc (reopen_scripts_nd k) ?last))"
      using False by (auto simp: reopen_scripts_nd_def Let_def)
    from performs_weaken [OF this _ some subset_refl] show ?thesis by (simp add: Let_def)
  qed
qed

lemma emits_client_start_nd:
  assumes "n < 21" and "atoi (argv ! 3) = of_nat n"
  shows "performs K (\<lambda>_. True) (in_case (of_nat n))
    (block [
       run K (Sleep 3),
       store (\<lambda>_. zero_context\<lparr>sn_c := atoi (argv ! 3)\<rparr>),
       sn_create_asoc_sk_nd K (argv ! 1) (argv ! 2),
       seq the_case_nd (\<lambda>k. call_setup_nd K (do_setup_sched k)),
       seq the_case_nd (\<lambda>k. call_value_nd K (do_setup_schedvalue k)),
       sn_enable_asoc_strreset_nd K,
       sn_enable_peer_strreset_nd K,
       sn_close_asoc_streams_nd K]) {client_start_nd (sn_cases_nd ! n)}"
proof -
  have start: "emits K (\<lambda>_. True) (in_case (of_nat n))
     (store (\<lambda>_. zero_context\<lparr>sn_c := atoi (argv ! 3)\<rparr>)) []"
    by (rule emits_store) (simp add: assms(2))
  note setup_rule = emits_call_setup_nd [OF assms(1)] and value_rule = emits_value_case_nd [OF assms(1)]
  have peer: "emits K P P (sn_enable_peer_strreset_nd K) [Sent SN_CMD_SET_STRRESET 0 0 0]" for P
    by (rule emits_sn_send_asoc_cmd) (simp add: sn_cmds)
  show ?thesis
    by (rule performs_eq, rule performs_block_Cons [OF performs_emits [OF emits_run]
        performs_block_Cons [OF performs_emits [OF start]
        performs_block_Cons [OF performs_emits [OF emits_sn_create_asoc_sk]
        performs_block_Cons [OF performs_emits [OF setup_rule]
        performs_block_Cons [OF performs_emits [OF value_rule]
        performs_block_Cons [OF performs_emits [OF emits_sn_enable_asoc_strreset]
        performs_block_Cons [OF performs_emits [OF peer]
        performs_block_Cons [OF performs_close_nd [OF assms(1)] performs_block_Nil]]]]]]]])
      (simp_all add: client_start_nd_def SCTP_ENABLE_RESET_STREAM_REQ_def)
qed

lemma block_append: "block (xs @ ys) = seq (block xs) (\<lambda>_. block ys)"
  by (induction xs) (simp_all add: seq_assoc)

lemma reopen_scripts_ne: "reopen_scripts_nd k \<noteq> {}"
  by (simp add: reopen_scripts_nd_def)

lemma test_scripts_ne: "test_scripts fn \<noteq> {}"
proof -
  have "random_round 1520 \<noteq> {}" by (rule random_round_ne) simp
  then show ?thesis using random_case_round_ne by (cases fn) auto
qed

lemma performs_client_nd:
  assumes "n < 21" and "atoi (argv ! 3) = of_nat n"
  shows "performs K (\<lambda>_. True) some_case (do_client_nd K argv) (client_scripts_nd n)"
proof -
  note parts = performs_seq [OF emits_client_start_nd [OF assms, of K]
      performs_test_and_reopen [OF assms(1), of K]]
  have "performs K (\<lambda>_. True) some_case (do_client_nd K argv) (conc (client_scripts_nd n) {[]})"
    unfolding do_client_nd_def
  proof (rule performs_seq)
    show "performs K (\<lambda>_. True) some_case (block [
       run K (Sleep 3),
       store (\<lambda>_. zero_context\<lparr>sn_c := atoi (argv ! 3)\<rparr>),
       sn_create_asoc_sk_nd K (argv ! 1) (argv ! 2),
       seq the_case_nd (\<lambda>k. call_setup_nd K (do_setup_sched k)),
       seq the_case_nd (\<lambda>k. call_value_nd K (do_setup_schedvalue k)),
       sn_enable_asoc_strreset_nd K,
       sn_enable_peer_strreset_nd K,
       sn_close_asoc_streams_nd K,
       seq the_case_nd (\<lambda>k. call_test_nd K (do_sched_tests k)),
       sn_reopen_asoc_streams_nd K,
       sn_close_asoc_sk_nd K]) (client_scripts_nd n)"
      using parts [unfolded block_append [symmetric] append.simps]
      by (simp del: block.simps add: client_scripts_nd_def Let_def test_scripts_ne reopen_scripts_ne)
  qed (simp_all add: performs_emits [OF emits_return])
  then show ?thesis by simp
qed

lemma main_nd_client: "main_nd K [prog, ip, port, c, ''-s''] = do_client_nd K [prog, ip, port, c, ''-s'']"
  by (rule ext) (simp add: main_nd_def sn_main_def)

lemma main_nd_client_completes:
  assumes "all_succeed K" and "n < 21" and "atoi c = of_nat n"
  shows "\<exists>t tr. main_nd K [prog, ip, port, c, ''-s''] s = Some (Done 0, t) \<and> trace t = trace s @ tr \<and>
    acts tr \<in> client_scripts_nd n"
  unfolding main_nd_client
  by (rule performs_completes, rule performs_client_nd)
    (simp_all add: assms do_client_nd_def seq_return_value)

lemma main_nd_client_part:
  assumes "n < 21" and "atoi c = of_nat n"
  shows "\<exists>r t tr. main_nd K [prog, ip, port, c, ''-s''] s = Some (r, t) \<and> trace t = trace s @ tr \<and>
    (\<exists>L \<in> client_scripts_nd n. stopped L (acts tr) \<and> ((\<exists>a. r = Done a) \<longrightarrow> acts tr = L))"
  unfolding main_nd_client by (rule performs_part, rule performs_client_nd) (simp_all add: assms)

text \<open>
  C6: run as the client of one of its 21 cases, whatever the kernel and the random generator
  answer, the program always ends and never runs into undefined behaviour: either it performs one
  of the scripts of the case (one, where nothing is random; in the random cases, 1000000 messages of 20
  to 1519 bytes, or 10000 times the scheduler and the values of one of the 21 cases and a hundred
  messages of 20 to 3019 bytes) and returns 0, or a call fails and it stops with status -1 after
  a prefix of a script, flushing the rules if that call was the request to reset the streams.
\<close>

theorem ndata_client_follows_script:
  assumes "n < 21" and "atoi c = of_nat n"
  shows "\<exists>r t tr. main_nd K [prog, ip, port, c, ''-s''] s = Some (r, t) \<and> trace t = trace s @ tr \<and>
    (case r of
       Done v \<Rightarrow> v = 0 \<and> acts tr \<in> client_scripts_nd n
     | Exit e \<Rightarrow> e = -1 \<and> (\<exists>L \<in> client_scripts_nd n. stopped L (acts tr)) \<and> broke K tr
     | Fault _ \<Rightarrow> False)"
  unfolding main_nd_client
  by (rule performs_whole_run, rule performs_client_nd)
    (simp_all add: assms do_client_nd_def seq_return_value)

theorem ndata_client_follows_script_witness:
  "\<exists>r t tr. main_nd mailbox [''sctp_ndata'', ''10.0.0.1'', ''8888'', ''7'', ''-s'']
      \<lparr>mem = zero_context, world = [(13, 0), (13, 0)], trace = []\<rparr> = Some (r, t) \<and>
    trace t = [] @ tr \<and>
    (case r of
       Done v \<Rightarrow> v = 0 \<and> acts tr \<in> client_scripts_nd 7
     | Exit e \<Rightarrow> e = -1 \<and> (\<exists>L \<in> client_scripts_nd 7. stopped L (acts tr)) \<and> broke mailbox tr
     | Fault _ \<Rightarrow> False)"
  using ndata_client_follows_script [of 7 "''7''" mailbox "''sctp_ndata''" "''10.0.0.1''" "''8888''"
      "\<lparr>mem = zero_context, world = [(13, 0), (13, 0)], trace = []\<rparr>"]
  by (simp add: atoi_eval)

section \<open>Cases that do not exist\<close>

text \<open>
  The number of the case is not checked: once the socket is there the client looks it up in the table, outside
  of which the access is undefined.
\<close>

lemma main_nd_no_case:
  assumes "all_succeed K"
  shows "sint (atoi c) < 0 \<or> 21 \<le> sint (atoi c) \<Longrightarrow>
      \<exists>t. main_nd K [prog, ip, port, c, ''-s''] s = Some (Fault Out_of_bounds, t)"
proof -
  obtain t where t: "sn_c (mem t) = atoi c" and
    opens: "\<forall>ms. block (run K (Sleep 3) # store (\<lambda>_. zero_context\<lparr>sn_c := atoi c\<rparr>) #
      sn_create_asoc_sk K ip port # ms) s = block ms t"
    using client_opens [OF assms] by blast
  let ?argv = "[prog, ip, port, c, ''-s'']"
  obtain ms where run: "main_nd K ?argv s =
      seq (block (seq the_case_nd (\<lambda>k. call_setup_nd K (do_setup_sched k)) # ms)) (\<lambda>_. return 0) t"
    by (simp add: main_nd_client do_client_nd_def seq_run opens del: block.simps)
  show "\<exists>t. main_nd K ?argv s = Some (Fault Out_of_bounds, t)"
    if "sint (atoi c) < 0 \<or> 21 \<le> sint (atoi c)"
    using that unfolding run by (auto simp: run_simps the_case_nd_def t SN_CASE_MAX_nd_def)
qed

end
