(* ===== verification/Ndata_Verdict.thy ===== *)
theory Ndata_Verdict
  imports Ndata_Props
begin

text \<open>
  The server of the scheduler test: its verdict is whether the streams that arrive are the first
  ones of the case's table. The tables are
  the orders in which the schedulers of RFC 8260 transmit what the client's script queues.
\<close>

section \<open>The verdict\<close>

text \<open>
  The case, the counter \<open>cb[0]\<close> and the verdict \<open>cb[1]\<close>, wrapped so that what a message does to
  them can be undefined.
\<close>

definition view_nd :: "sn_context \<Rightarrow> (cint \<times> clong \<times> clong) option" where
  "view_nd snc = Some (sn_c snc, sn_cb0 snc, sn_cb1 snc)"

abbreviation the_nd :: "cint \<Rightarrow> sn_case_nd" where
  "the_nd c \<equiv> sn_cases_nd ! unat c"

definition conformance :: "cint \<Rightarrow> bool" where
  "conformance c \<longleftrightarrow> do_assert_tests (the_nd c) = Do_assert_tests"

fun asserted :: "assert_fn_nd \<Rightarrow> cint list \<Rightarrow> cint \<Rightarrow> cushort \<Rightarrow> clong \<times> clong \<Rightarrow> (clong \<times> clong) option" where
  "asserted Do_assert_tests sids len sid (i, v) =
     (if 0 \<le> sint i \<and> sint i < int (length sids)
      then Some (i + 1, if ucast sid = sids ! unat i then v else 1) else None)"
| "asserted Do_prio_assert_tests sids len sid (i, v) = Some (i + 1, v)"
| "asserted _ sids len sid (i, v) = Some (i + to_long len, v)"

fun upd_nd :: "(cint \<times> clong \<times> clong) option \<Rightarrow> input \<Rightarrow> (cint \<times> clong \<times> clong) option" where
  "upd_nd (Some (c, x)) (Arrived len sid) =
     (if len = SN_CMD_SET_STRRESET \<or> len = SN_CMD_CLOSE_ASOC then Some (c, x)
      else map_option (Pair c)
        (asserted (do_assert_tests (the_nd c)) (sched_sids (the_nd c)) len sid x))"
| "upd_nd v _ = v"

lemma upd_nd_command:
  "upd_nd x (Arrived SN_CMD_SET_STRRESET sid) = x" "upd_nd x (Arrived SN_CMD_CLOSE_ASOC sid) = x"
  "upd_nd x (Learned a) = x"
  by (cases x; auto)+

lemma the_case_nd_Done:
  "the_case_nd s = Some (Done k, t) \<Longrightarrow> t = s \<and> k = the_nd (sn_c (mem s))"
  by (auto simp: the_case_nd_def run_simps split: if_splits)

lemmas assert_defs_nd = sn_do_assert_tests_def sn_do_prio_assert_tests_def
  sn_do_prio_stress_assert_tests_def sn_do_prio_small_assert_tests_def
  sn_do_prio_fuzz_assert_tests_def count_bytes_nd_def start_time_def print_perf_def

lemma call_assert_nd_Done:
  assumes "call_assert_nd K (do_assert_tests (the_nd (sn_c (mem s)))) s = Some (Done (), t)"
    and "sn_cb2 (mem s) = to_long len" and "sn_sri_stream (mem s) = sid"
    and "len \<noteq> SN_CMD_SET_STRRESET" and "len \<noteq> SN_CMD_CLOSE_ASOC"
  shows "\<exists>tr. trace t = trace s @ tr \<and> inputs tr = [] \<and>
    view_nd (mem t) = upd_nd (view_nd (mem s)) (Arrived len sid)"
proof (cases "do_assert_tests (the_nd (sn_c (mem s)))")
  case Do_assert_tests
  with assms show ?thesis
    by (auto simp: call_assert_nd_def sn_do_assert_tests_def seq_run load_run Let_def run_simps
        view_nd_def dest!: the_case_nd_Done split: if_splits option.splits result.splits)
qed (use assms in \<open>auto simp: call_assert_nd_def assert_defs_nd run_simps view_nd_def
    split: if_splits\<close>)

lemma check_nd_Done:
  assumes "check_nd K s = Some (Done (), t)"
    and "sn_cb2 (mem s) = to_long len" and "sn_sri_stream (mem s) = sid"
    and "len \<noteq> SN_CMD_SET_STRRESET" and "len \<noteq> SN_CMD_CLOSE_ASOC"
  shows "\<exists>tr. trace t = trace s @ tr \<and> inputs tr = [] \<and>
    view_nd (mem t) = upd_nd (view_nd (mem s)) (Arrived len sid)"
proof -
  from assms(1) have "call_assert_nd K (do_assert_tests (the_nd (sn_c (mem s)))) s = Some (Done (), t)"
    by (auto simp: check_nd_def elim!: seq_DoneE dest!: the_case_nd_Done)
  from call_assert_nd_Done [OF this assms(2-5)] show ?thesis .
qed

text \<open>In a conformance case there must be room in the table for the messages still to come.\<close>

definition ready_nd :: "nat \<Rightarrow> sn_context \<Rightarrow> bool" where
  "ready_nd n snc \<longleftrightarrow> some_case snc \<and>
     (conformance (sn_c snc) \<longrightarrow> (\<exists>i. i + n \<le> 9 \<and> sn_cb0 snc = of_nat i))"

lemma sids_length:
  "n < 21 \<Longrightarrow> length (sched_sids (sn_cases_nd ! n)) = 9"
  by (drule less_21_cases, elim disjE) (simp_all add: case_nd_simps)

lemma check_nd_progress:
  assumes "delivers K inbox" and "ready_nd (Suc n) (mem s)"
  shows "\<exists>t tr. check_nd K s = Some (Done (), t) \<and> trace t = trace s @ tr \<and> inputs tr = [] \<and>
    inbox (world t) = inbox (world s) \<and> ready_nd n (mem t)"
proof -
  from assms(2) obtain c where c: "c < 21" "sn_c (mem s) = of_nat c"
    by (auto simp: ready_nd_def some_case_def)
  note look = the_case_nd_run [OF c] and inbox = delivers_simps(8) [OF assms(1)]
  have unat_c: "unat (of_nat c :: cint) = c" using c(1) by simp
  have some: "some_case x" if "sn_c x = of_nat c" for x
    using that c(1) by (auto simp: some_case_def)
  show ?thesis
  proof (cases "do_assert_tests (sn_cases_nd ! c)")
    case Do_assert_tests
    with assms(2) c unat_c obtain i where i: "i + Suc n \<le> 9" "sn_cb0 (mem s) = of_nat i"
      by (auto simp: ready_nd_def conformance_def)
    then have small: "sint (of_nat i :: clong) = int i" "unat (of_nat i :: clong) = i"
      by (simp_all add: unat_of_nat sint_uint uint_nat signed_take_bit_int_eq_self)
    have "\<exists>j. j + n \<le> 9 \<and> (of_nat i :: clong) + 1 = of_nat j"
      using i(1) by (intro exI [of _ "Suc i"]) simp
    with Do_assert_tests i small show ?thesis
      by (auto simp: check_nd_def call_assert_nd_def sn_do_assert_tests_def run_simps look c
          sids_length [OF c(1)] Let_def inbox ready_nd_def some)
  qed (use c in \<open>auto simp: check_nd_def call_assert_nd_def assert_defs_nd run_simps look
        inbox ready_nd_def some conformance_def unat_c\<close>)
qed

interpretation nd: live_sn_server K SCTP_ENABLE_RESET_STREAM_REQ "check_nd K" view_nd upd_nd
    "\<lambda>x. snd (snd (the x))" inbox ready_nd
  for K :: "'w kernel" and inbox :: "'w \<Rightarrow> (cint \<times> cushort) list"
  by unfold_locales
    (erule (1) check_nd_progress | erule (4) check_nd_Done
      | simp add: view_nd_def ready_nd_def some_case_def upd_nd_command)+

section \<open>The verdict in closed form\<close>

definition data_sids :: "(cint \<times> cushort) list \<Rightarrow> cushort list" where
  "data_sids ms = map snd (filter (\<lambda>m. fst m \<notin> {SN_CMD_SET_STRRESET, SN_CMD_CLOSE_ASOC}) ms)"

lemma due_sids: "due ms = length (data_sids ms)"
  by (simp add: due_def data_lengths_def data_sids_def)

definition verdict_nd :: "cint \<Rightarrow> (cint \<times> cushort) list \<Rightarrow> cint" where
  "verdict_nd c ms =
     (if conformance c \<and> \<not> prefix (map ucast (data_sids ms)) (sched_sids (the_nd c)) then 1 else 0)"

lemma prefix_snoc_nth: "prefix (xs @ [x]) ys \<longleftrightarrow> prefix xs ys \<and> length xs < length ys \<and> ys ! length xs = x"
proof
  assume *: "prefix (xs @ [x]) ys"
  then obtain zs where "ys = (xs @ [x]) @ zs" by (auto elim: prefixE)
  then show "prefix xs ys \<and> length xs < length ys \<and> ys ! length xs = x" by auto
next
  assume *: "prefix xs ys \<and> length xs < length ys \<and> ys ! length xs = x"
  then obtain zs where zs: "ys = xs @ zs" by (auto elim: prefixE)
  with * have "zs \<noteq> []" and "hd zs = x" by (auto simp: nth_append hd_conv_nth)
  with zs show "prefix (xs @ [x]) ys" by (cases zs) auto
qed

lemma foldl_upd_nd_None: "foldl upd_nd None xs = None"
  by (induction xs) (auto simp: upd_nd.simps)

lemma foldl_upd_nd:
  assumes "do_assert_tests (the_nd c) = Do_assert_tests" and "length (sched_sids (the_nd c)) = 9"
  shows "foldl upd_nd (Some (c, 0, 0)) xs =
    (let sids = map ucast (data_sids (arrivals xs)) in
     if length sids \<le> 9
     then Some (c, of_nat (length sids), if prefix sids (sched_sids (the_nd c)) then 0 else 1)
     else None)"
proof (induction xs rule: rev_induct)
  case Nil
  show ?case by (simp add: data_sids_def)
next
  case (snoc x xs)
  let ?sids = "map ucast (data_sids (arrivals xs)) :: cint list"
  show ?case
  proof (cases x)
    case (Learned a)
    with snoc show ?thesis by (simp add: upd_nd_command)
  next
    case (Arrived len sid)
    show ?thesis
    proof (cases "len = SN_CMD_SET_STRRESET \<or> len = SN_CMD_CLOSE_ASOC")
      case True
      with snoc Arrived show ?thesis by (auto simp: upd_nd_command data_sids_def)
    next
      case False
      then have sids: "map ucast (data_sids (arrivals (xs @ [x]))) = ?sids @ [ucast sid]"
        by (simp add: Arrived data_sids_def)
      consider "length ?sids < 9" | "length ?sids = 9" | "9 < length ?sids" by linarith
      then show ?thesis
      proof cases
        case 1
        then have small: "sint (of_nat (length ?sids) :: clong) = int (length ?sids)"
          "unat (of_nat (length ?sids) :: clong) = length ?sids"
          by (simp_all add: unat_of_nat sint_uint uint_nat signed_take_bit_int_eq_self)
        with 1 snoc False Arrived assms show ?thesis
          unfolding sids by (auto simp: Let_def prefix_snoc_nth add.commute)
      next
        case 2
        then have "sint (of_nat (length ?sids) :: clong) = 9"
          by (simp add: sint_uint uint_nat signed_take_bit_int_eq_self)
        with 2 snoc False Arrived assms show ?thesis
          unfolding sids by (simp add: Let_def)
      next
        case 3
        with snoc Arrived show ?thesis unfolding sids by (simp add: Let_def)
      qed
    qed
  qed
qed

lemma foldl_upd_nd_other:
  assumes "do_assert_tests (the_nd c) \<noteq> Do_assert_tests"
  shows "\<exists>i. foldl upd_nd (Some (c, 0, 0)) xs = Some (c, i, 0)"
proof (induction xs rule: rev_induct)
  case Nil
  show ?case by simp
next
  case (snoc x xs)
  then obtain i where "foldl upd_nd (Some (c, 0, 0)) xs = Some (c, i, 0)" by blast
  with assms show ?case by (cases x; cases "do_assert_tests (the_nd c)") auto
qed

lemma main_nd_server:
  "main_nd K [prog, ip, port, c, ''-l''] =
     sn_serve K SCTP_ENABLE_RESET_STREAM_REQ (check_nd K) (zero_context\<lparr>sn_c := atoi c\<rparr>) ip port"
  by (rule ext) (simp add: main_nd_def sn_main_def do_server_nd_def)

lemma start_view_nd: "view_nd (zero_context\<lparr>sn_c := c\<rparr>) = Some (c, 0, 0)"
  by (simp add: view_nd_def zero_context_def)

lemma main_nd_verdict:
  assumes "main_nd K [prog, ip, port, c, ''-l''] s = Some (Done v, t)"
    and "atoi c = of_nat n" and "n < 21"
  shows "\<exists>tr. trace t = trace s @ tr \<and> session (arrivals (inputs tr)) \<and>
    (conformance (atoi c) \<longrightarrow> length (data_sids (arrivals (inputs tr))) \<le> 9) \<and>
    v = verdict_nd (atoi c) (arrivals (inputs tr))"
proof -
  from nd.sn_serve_verdict [OF assms(1) [unfolded main_nd_server]] obtain tr where tr:
    "trace t = trace s @ tr" "session (arrivals (inputs tr))"
    "foldl upd_nd (Some (atoi c, 0, 0)) (inputs tr) \<in> range view_nd"
    "v = to_int (snd (snd (the (foldl upd_nd (Some (atoi c, 0, 0)) (inputs tr)))))"
    by (auto simp: start_view_nd)
  have len: "length (sched_sids (the_nd (atoi c))) = 9"
    using sids_length [OF assms(3)] assms(2,3) by simp
  show ?thesis
  proof (cases "conformance (atoi c)")
    case True
    then have conf: "do_assert_tests (the_nd (atoi c)) = Do_assert_tests"
      by (simp add: conformance_def)
    note fold = foldl_upd_nd [OF conf len, of "inputs tr"]
    have "length (data_sids (arrivals (inputs tr))) \<le> 9"
      using tr(3) unfolding fold by (auto simp: Let_def view_nd_def split: if_splits)
    with tr True fold show ?thesis by (auto simp: Let_def verdict_nd_def)
  next
    case False
    then obtain i where "foldl upd_nd (Some (atoi c, 0, 0)) (inputs tr) = Some (atoi c, i, 0)"
      using foldl_upd_nd_other [of "atoi c" "inputs tr"] by (auto simp: conformance_def)
    then have "v = 0" unfolding tr(4) by simp
    with tr(1,2) False show ?thesis by (auto simp: verdict_nd_def)
  qed
qed

lemma main_nd_returns:
  assumes "delivers K inbox" and "inbox (world s) = ms" and "session ms" and "fst (last ms) \<noteq> -1"
    and "n < 21" and "atoi c = of_nat n" and "conformance (atoi c) \<Longrightarrow> length (data_sids ms) \<le> 9"
  shows "\<exists>t. main_nd K [prog, ip, port, c, ''-l''] s = Some (Done (verdict_nd (atoi c) ms), t)"
proof -
  have "ready_nd (due ms) (zero_context\<lparr>sn_c := atoi c\<rparr>)"
    using assms(5-7) by (auto simp: ready_nd_def some_case_def due_sids zero_context_def intro: exI [of _ 0])
  from nd.sn_serve_returns [OF assms(1-4) this, of ip port] obtain t tr v where run:
    "main_nd K [prog, ip, port, c, ''-l''] s = Some (Done v, t)" "trace t = trace s @ tr"
    "arrivals (inputs tr) = ms"
    unfolding main_nd_server by blast
  from main_nd_verdict [OF run(1) assms(6,5)] run show ?thesis by auto
qed

text \<open>
  C7: whatever the kernel does, when the server of a case returns it has seen a whole session; in
  a conformance case it has looked at no more than the nine messages its table has room for, and
  its status is 0 exactly when the streams they arrived on are the first ones of the table; in
  the other cases the status is always 0.
\<close>

theorem ndata_server_verdict:
  assumes "main_nd K [prog, ip, port, c, ''-l''] s = Some (Done v, t)"
    and "atoi c = of_nat n" and "n < 21"
  shows "\<exists>tr. trace t = trace s @ tr \<and> session (arrivals (inputs tr)) \<and>
    (conformance (atoi c) \<longrightarrow> length (data_sids (arrivals (inputs tr))) \<le> 9) \<and>
    v = verdict_nd (atoi c) (arrivals (inputs tr))"
  using assms by (rule main_nd_verdict)

theorem ndata_server_verdict_witness:
  "\<exists>v t tr. main_nd mailbox [''sctp_ndata'', ''10.0.0.1'', ''8888'', ''7'', ''-l'']
        \<lparr>mem = zero_context, world = [(11, 0), (1024, 1), (1024, 2), (12, 0)], trace = []\<rparr> =
        Some (Done v, t) \<and>
      trace t = [] @ tr \<and> session (arrivals (inputs tr)) \<and>
      (conformance 7 \<longrightarrow> length (data_sids (arrivals (inputs tr))) \<le> 9) \<and>
      v = verdict_nd 7 (arrivals (inputs tr))"
proof -
  let ?ms = "[(11, 0), (1024, 1), (1024, 2), (12, 0)] :: (cint \<times> cushort) list"
  have "\<exists>t. main_nd mailbox [''sctp_ndata'', ''10.0.0.1'', ''8888'', ''7'', ''-l'']
      \<lparr>mem = zero_context, world = ?ms, trace = []\<rparr> = Some (Done (verdict_nd (atoi ''7'') ?ms), t)"
    by (rule main_nd_returns [OF mailbox_delivers, where n = 7])
      (simp_all add: session_def closing_def sn_cmds atoi_eval data_sids_def)
  then obtain t where run: "main_nd mailbox [''sctp_ndata'', ''10.0.0.1'', ''8888'', ''7'', ''-l'']
      \<lparr>mem = zero_context, world = ?ms, trace = []\<rparr> = Some (Done (verdict_nd (atoi ''7'') ?ms), t)"
    by blast
  from ndata_server_verdict [OF run, of 7] run show ?thesis
    by (auto simp: atoi_eval)
qed

section \<open>The schedulers of RFC 8260\<close>

text \<open>
  A reference for what a sender transmits, from the actions of a script: the scheduler and values
  last set, the streams of the messages queued while the firewall keeps acknowledgements away, and
  then one message after the other, chosen by the scheduler.
\<close>

fun scheduler_in :: "cint \<Rightarrow> act list \<Rightarrow> cint" where
  "scheduler_in p [] = p"
| "scheduler_in p (Opt SCTP_STREAM_SCHEDULER (Assoc_value a v) # as) = scheduler_in v as"
| "scheduler_in p (_ # as) = scheduler_in p as"

fun values_in :: "(cushort \<Rightarrow> cushort) \<Rightarrow> act list \<Rightarrow> cushort \<Rightarrow> cushort" where
  "values_in f [] = f"
| "values_in f (Opt SCTP_STREAM_SCHEDULER_VALUE (Stream_value a i v) # as) = values_in (f(i := v)) as"
| "values_in f (_ # as) = values_in f as"

fun queued :: "bool \<Rightarrow> act list \<Rightarrow> cushort list" where
  "queued held [] = []"
| "queued held (Ran c # as) = queued (prefix ''iptables -A'' c) as"
| "queued held (Sent len fl sid v # as) = (if held then sid # queued held as else queued held as)"
| "queued held (_ # as) = queued held as"

text \<open>Round robin: the next stream after the last one served, cyclically.\<close>

definition next_round_robin :: "cushort \<Rightarrow> cushort list \<Rightarrow> cushort" where
  "next_round_robin prev q =
     (let later = filter (\<lambda>i. prev < i) q in if later = [] then min_list q else min_list later)"

text \<open>First come, first served; the smallest value first, in turn where values are equal; in turn.\<close>

definition next_stream :: "cint \<Rightarrow> (cushort \<Rightarrow> cushort) \<Rightarrow> cushort \<Rightarrow> cushort list \<Rightarrow> cushort" where
  "next_stream p val prev q =
     (if p = SCTP_SS_PRIO then
        next_round_robin prev (filter (\<lambda>i. val i = min_list (map val q)) q)
      else if p = SCTP_SS_RR then next_round_robin prev q
      else hd q)"

primrec transmit :: "nat \<Rightarrow> cint \<Rightarrow> (cushort \<Rightarrow> cushort) \<Rightarrow> cushort \<Rightarrow> cushort list \<Rightarrow> cushort list" where
  "transmit 0 p val prev q = []"
| "transmit (Suc n) p val prev q =
     (let i = next_stream p val prev q in i # transmit n p val i (remove1 i q))"

definition transmission_order :: "act list \<Rightarrow> cushort list" where
  "transmission_order L =
     (let q = queued False L in
      transmit (length q) (scheduler_in 0 L) (values_in (\<lambda>_. 0) L) 0 q)"

lemma scheduler_in_append [simp]: "scheduler_in p (as @ bs) = scheduler_in (scheduler_in p as) bs"
  by (induction p as rule: scheduler_in.induct) auto

lemma values_in_append [simp]: "values_in f (as @ bs) = values_in (values_in f as) bs"
  by (induction f as rule: values_in.induct) (simp_all only: values_in.simps append.simps)

lemma conformance_scripts:
  assumes "n \<in> {0, 1, 7, 13}"
  shows "client_scripts_nd n = {client_start_nd (sn_cases_nd ! n) @
     [data_nd 1024 0 1, data_nd 1024 0 1, data_nd 1024 0 1, data_nd 1024 0 2, data_nd 1024 0 2,
      data_nd 1024 0 2, data_nd 1024 0 3, data_nd 1024 0 3, data_nd 1024 0 3] @
     [Ran ''iptables -F'', Slept 10, Sent SN_CMD_CLOSE_ASOC 0 0 0, Closed, Slept 5]}"
proof -
  have three_each: "concat (map (\<lambda>i. replicate 3 (data_nd 1024 0 i)) [1..<4]) =
    [data_nd 1024 0 1, data_nd 1024 0 1, data_nd 1024 0 1, data_nd 1024 0 2, data_nd 1024 0 2,
     data_nd 1024 0 2, data_nd 1024 0 3, data_nd 1024 0 3, data_nd 1024 0 3]"
    by (simp add: upt_rec eval_nat_numeral)
  have "do_sched_tests (sn_cases_nd ! n) = Do_sched_tests" "sched_cork (sn_cases_nd ! n) = 1"
    using assms by (auto simp: case_nd_simps)
  then show ?thesis
    by (simp only: client_scripts_nd_def reopen_scripts_nd_def test_scripts.simps three_each Let_def)
      simp
qed

lemma queued_conformance:
  assumes "n \<in> {0, 1, 7, 13}" and "L \<in> client_scripts_nd n"
  shows "queued False L = [1, 1, 1, 2, 2, 2, 3, 3, 3]"
    and "scheduler_in p L = sched_nd (sn_cases_nd ! n)"
    and "values_in f L = values_in f (value_script (do_setup_schedvalue (sn_cases_nd ! n)))"
proof -
  let ?data = "[data_nd 1024 0 1, data_nd 1024 0 1, data_nd 1024 0 1, data_nd 1024 0 2,
    data_nd 1024 0 2, data_nd 1024 0 2, data_nd 1024 0 3, data_nd 1024 0 3, data_nd 1024 0 3] @
    [Ran ''iptables -F'', Slept 10, Sent SN_CMD_CLOSE_ASOC 0 0 0, Closed, Slept 5]"
  have L: "L = client_start_nd (sn_cases_nd ! n) @ ?data"
    using assms(2) by (simp add: conformance_scripts [OF assms(1)])
  have "queued False (client_start_nd (sn_cases_nd ! n) @ ?data) = queued True ?data"
    using assms(1) by (auto simp: client_start_nd_def case_nd_simps close_script_nd_def)
  then show "queued False L = [1, 1, 1, 2, 2, 2, 3, 3, 3]"
    unfolding L by simp
  show "scheduler_in p L = sched_nd (sn_cases_nd ! n)"
    using assms(1) unfolding L
    by (auto simp: client_start_nd_def case_nd_simps close_script_nd_def)
  show "values_in f L = values_in f (value_script (do_setup_schedvalue (sn_cases_nd ! n)))"
    unfolding L by (simp add: client_start_nd_def close_script_nd_def)
qed

lemma transmit_tables:
  "transmit 9 1 ((\<lambda>_. 0)(1 := 9, 2 := 8, 3 := 7)) 0 [1, 1, 1, 2, 2, 2, 3, 3, 3] =
     [3, 3, 3, 2, 2, 2, 1, 1, 1]"
  "transmit 9 1 ((\<lambda>_. 0)(1 := 9, 2 := 9, 3 := 8)) 0 [1, 1, 1, 2, 2, 2, 3, 3, 3] =
     [3, 3, 3, 1, 2, 1, 2, 1, 2]"
  "transmit 9 2 (\<lambda>_. 0) 0 [1, 1, 1, 2, 2, 2, 3, 3, 3] = [1, 2, 3, 1, 2, 3, 1, 2, 3]"
  "transmit 9 0 (\<lambda>_. 0) 0 [1, 1, 1, 2, 2, 2, 3, 3, 3] = [1, 1, 1, 2, 2, 2, 3, 3, 3]"
  by code_simp+

lemma table_is_transmission_order:
  assumes "n \<in> {0, 1, 7, 13}" and "L \<in> client_scripts_nd n"
  shows "map ucast (transmission_order L) = sched_sids (sn_cases_nd ! n)"
proof -
  have nine: "length [1, 1, 1, 2, 2, 2, 3, 3, 3 :: cushort] = 9" by simp
  have "transmission_order L = transmit 9 (sched_nd (sn_cases_nd ! n))
      (values_in (\<lambda>_. 0) (value_script (do_setup_schedvalue (sn_cases_nd ! n)))) 0
      [1, 1, 1, 2, 2, 2, 3, 3, 3]"
    by (simp only: transmission_order_def queued_conformance [OF assms] Let_def nine)
  with assms(1) show ?thesis
    by (elim insertE) (simp_all add: case_nd_simps transmit_tables del: transmit.simps)
qed

text \<open>
  C10: in each conformance case the table of streams the server expects is the order in which a
  sender with the scheduler and the values that the client has set by the end of its run transmits the messages
  that it has queued: first come first served, round robin, and by priority, in turn where priorities are
  equal.
\<close>

theorem ndata_tables_are_rfc8260:
  assumes "all_succeed K" and "n \<in> {0, 1, 7, 13}" and "atoi c = of_nat n"
  shows "\<exists>t tr. main_nd K [prog, ip, port, c, ''-s''] s = Some (Done 0, t) \<and> trace t = trace s @ tr \<and>
    map ucast (transmission_order (acts tr)) = sched_sids (sn_cases_nd ! n)"
proof -
  have "n < 21" using assms(2) by auto
  from main_nd_client_completes [OF assms(1) this assms(3), of prog ip port s]
  show ?thesis using table_is_transmission_order [OF assms(2)] by blast
qed

theorem ndata_tables_are_rfc8260_witness:
  "\<exists>t tr. main_nd quiet_kernel [''sctp_ndata'', ''10.0.0.1'', ''8888'', ''1'', ''-s'']
      \<lparr>mem = zero_context, world = (), trace = []\<rparr> = Some (Done 0, t) \<and> trace t = [] @ tr \<and>
    map ucast (transmission_order (acts tr)) = ([3, 3, 3, 1, 2, 1, 2, 1, 2] :: cint list)"
  using ndata_tables_are_rfc8260 [OF quiet_kernel_all_succeed, of 1 "''1''" "''sctp_ndata''" "''10.0.0.1''"
      "''8888''" "\<lparr>mem = zero_context, world = (), trace = []\<rparr>"]
  by (simp add: atoi_eval case_nd_simps)

text \<open>
  A server of a conformance case passes exactly when the streams of the data are the first ones that a sender
  with the client's scheduler transmits.
\<close>

lemma main_nd_on_streams:
  assumes "delivers K inbox" and "n \<in> {0, 1, 7, 13}" and "atoi c = of_nat n"
    and "L \<in> client_scripts_nd n" and "length sids \<le> 9"
    and "inbox (world s) = (SN_CMD_SET_STRRESET, 0) # map (Pair 1024) sids @ [(SN_CMD_CLOSE_ASOC, 0)]"
  shows "\<exists>t. main_nd K [prog, ip, port, c, ''-l''] s =
    Some (Done (if prefix sids (transmission_order L) then 0 else 1), t)"
proof -
  let ?ms = "inbox (world s)"
  have n: "n < 21" using assms(2) by auto
  have conf: "conformance (atoi c)"
    using assms(2) by (auto simp: conformance_def assms(3) case_nd_simps)
  have sids: "data_sids ?ms = sids"
    by (simp add: assms(6) data_sids_def sn_cmds filter_map o_def)
  have "map fst ?ms = (SN_CMD_SET_STRRESET # map (\<lambda>_. 1024) sids) @ [SN_CMD_CLOSE_ASOC]"
    by (simp add: assms(6) o_def)
  then have ses: "session ?ms" and last: "fst (last ?ms) = SN_CMD_CLOSE_ASOC"
    using session_script [of ?ms "SN_CMD_SET_STRRESET # map (\<lambda>_. 1024) sids"]
    by (simp_all add: list_all_iff closing_def sn_cmds)
  have narrow: "(ucast (ucast x :: cint) :: cushort) = x" for x
    by transfer simp
  have map_back: "map ucast (map ucast xs :: cint list) = (xs :: cushort list)" for xs
    by (induction xs) (simp_all add: narrow)
  have map_prefix: "prefix (map ucast xs :: cint list) (map ucast ys) \<longleftrightarrow> prefix (xs :: cushort list) ys" for xs ys
    using map_mono_prefix [of "map ucast xs :: cint list" "map ucast ys" "ucast :: cint \<Rightarrow> cushort"]
      map_mono_prefix [of xs ys "ucast :: cushort \<Rightarrow> cint"] unfolding map_back by blast
  have "prefix (map ucast sids) (sched_sids (the_nd (atoi c))) \<longleftrightarrow> prefix sids (transmission_order L)"
    using n by (simp add: assms(3) map_prefix
        flip: table_is_transmission_order [OF assms(2,4)])
  then have "verdict_nd (atoi c) ?ms = (if prefix sids (transmission_order L) then 0 else 1)"
    by (simp add: verdict_nd_def conf sids)
  with main_nd_returns [OF assms(1) refl ses _ n assms(3), of prog ip port] last assms(5) show ?thesis
    by (auto simp: sids sn_cmds)
qed

end
