(* ===== verification/Ndata_Traffic.thy ===== *)
theory Ndata_Traffic
  imports Ndata_Verdict
begin

text \<open>
  The traffic of the scheduler test, in all of its 21 cases: no data message is as short as a
  command or longer than the buffers; how many messages the performance cases send, and of what length; the
  firewall is left as it was found.
\<close>

section \<open>The lengths of the messages\<close>

definition plain_length :: "cint \<Rightarrow> bool" where
  "plain_length d \<longleftrightarrow> 20 \<le> unat d \<and> unat d \<le> 10240"

definition plain_word :: "act list \<Rightarrow> bool" where
  "plain_word w \<longleftrightarrow> list_all plain_length (messages w) \<and> shell_of w = []"

lemma plain_word_append: "plain_word a \<Longrightarrow> plain_word b \<Longrightarrow> plain_word (a @ b)"
  by (simp add: plain_word_def)

lemma plain_word_simps [simp]: "plain_word []" "plain_word [Slept n]"
  "plain_word (Opt p x # as) = plain_word as" "plain_word (Sent l fl i v # as) = (plain_length l \<and> plain_word as)"
  by (auto simp: plain_word_def)

lemma plain_word_concat: "list_all plain_word ws \<Longrightarrow> plain_word (concat ws)"
  by (induction ws) (auto simp: plain_word_append)

lemma plain_word_conc_list:
  assumes "w \<in> conc_list As" and "\<And>A a. A \<in> set As \<Longrightarrow> a \<in> A \<Longrightarrow> plain_word a"
  shows "plain_word w"
  by (rule conc_list_induct [OF assms(1)]) (auto intro: plain_word_append assms(2))

lemma plain_lengths_nd [simp]: "plain_length 1024" "plain_length 10240" "plain_length 64"
  by (simp_all add: plain_length_def)

lemma plain_value_script [simp]: "plain_word (value_script f)"
proof -
  have "plain_word (map (\<lambda>i. value_of_stream i (g i)) xs)" for g xs
    by (induction xs) auto
  then show ?thesis by (cases f) auto
qed

lemma plain_random_round:
  assumes "w \<in> random_round bound" and "bound \<le> 10240"
  shows "plain_word w"
proof (rule plain_word_conc_list [OF assms(1) [unfolded random_round_def]])
  fix A a
  assume "A \<in> set (map (\<lambda>i. conc_list (map (\<lambda>_. random_data bound i) [0..<10])) [0..<10])" and "a \<in> A"
  then obtain i where "a \<in> conc_list (map (\<lambda>_. random_data bound i) [0..<10])" by auto
  then show "plain_word a"
    by (rule plain_word_conc_list) (use assms(2) in \<open>auto simp: random_data_def plain_length_def\<close>)
qed

lemma plain_over_streams: "(\<And>i. plain_word (word i)) \<Longrightarrow> plain_word (over_streams word)"
  unfolding over_streams_def by (rule plain_word_concat) (simp add: list_all_iff)

lemma plain_replicate: "plain_word [a] \<Longrightarrow> plain_word (replicate n a)"
  by (induction n) (auto dest: plain_word_append)

lemma plain_repeat: "plain_word w \<Longrightarrow> plain_word (concat (replicate n w))"
  by (rule plain_word_concat) (simp add: list_all_iff)

lemma plain_test_scripts: "w \<in> test_scripts fn \<Longrightarrow> plain_word w"
proof (cases fn)
  case Do_prio_fuzz_sched_tests
  assume "w \<in> test_scripts fn"
  with Do_prio_fuzz_sched_tests obtain v where "w = v @ [Slept 10]"
    "v \<in> conc_list (replicate 10000 (random_round 1520))" by (auto simp: conc_def)
  moreover from this(2) have "plain_word v"
    by (rule plain_word_conc_list) (auto intro: plain_random_round)
  ultimately show ?thesis by (simp add: plain_word_append)
next
  case Do_prio_fuzzb_sched_tests
  assume "w \<in> test_scripts fn"
  with Do_prio_fuzzb_sched_tests obtain v where "w = v @ [Slept 10]"
    "v \<in> conc_list (replicate 10000 random_case_round)" by (auto simp: conc_def)
  moreover from this(2) have "plain_word v"
    by (rule plain_word_conc_list)
      (auto simp: random_case_round_def conc_def intro!: plain_word_append
        dest: plain_random_round [where bound = 3020, simplified])
  ultimately show ?thesis by (simp add: plain_word_append)
qed (auto intro!: plain_word_append plain_repeat plain_over_streams plain_replicate plain_word_concat
    simp: list_all_iff)

lemma client_script_parts:
  assumes "L \<in> client_scripts_nd n" and "n < 21"
  obtains w r where "plain_word w" and "r \<in> reopen_scripts_nd (sn_cases_nd ! n)"
    and "w \<in> test_scripts (do_sched_tests (sn_cases_nd ! n))"
    and "L = client_start_nd (sn_cases_nd ! n) @ w @ r @ [Sent SN_CMD_CLOSE_ASOC 0 0 0, Closed, Slept 5]"
proof -
  let ?k = "sn_cases_nd ! n"
  from assms(1) obtain w r where "w \<in> test_scripts (do_sched_tests ?k)" "r \<in> reopen_scripts_nd ?k"
    "L = client_start_nd ?k @ w @ r @ [Sent SN_CMD_CLOSE_ASOC 0 0 0, Closed, Slept 5]"
    unfolding client_scripts_nd_def Let_def conc_def by blast
  with that plain_test_scripts show thesis by blast
qed

lemma client_start_facts:
  "messages (client_start_nd k) = [SN_CMD_SET_STRRESET]"
  "shell_of (client_start_nd k) =
     (if sched_cork k = 0 then [] else [''iptables -A INPUT -p sctp -j DROP''])"
proof -
  have only: "messages (map (\<lambda>i. value_of_stream i (g i)) xs) = []" for g xs
    by (induction xs) auto
  have "messages (value_script f) = []" for f
    by (cases f) (simp_all only: value_script.simps only messages.simps)
  moreover have "shell_of (value_script f) = []" for f
    using plain_value_script [of f] by (simp add: plain_word_def)
  ultimately show "messages (client_start_nd k) = [SN_CMD_SET_STRRESET]"
    "shell_of (client_start_nd k) =
       (if sched_cork k = 0 then [] else [''iptables -A INPUT -p sctp -j DROP''])"
    by (simp_all add: client_start_nd_def close_script_nd_def)
qed

lemma reopen_facts:
  assumes "r \<in> reopen_scripts_nd k"
  shows "messages r = []"
    and "shell_of r = [] \<and> (sched_cork k = 0 \<or> do_sched_tests k = Do_prio_fuzzb_sched_tests) \<or>
      shell_of r = [''iptables -F'']"
  using assms by (auto simp: reopen_scripts_nd_def split: if_splits)

lemma script_messages:
  assumes "n < 21" and "L \<in> client_scripts_nd n"
  shows "\<exists>ds. messages L = SN_CMD_SET_STRRESET # ds @ [SN_CMD_CLOSE_ASOC] \<and>
    list_all (\<lambda>d. 20 \<le> unat d \<and> unat d \<le> 10240) ds"
proof -
  obtain w r where parts: "plain_word w" "r \<in> reopen_scripts_nd (sn_cases_nd ! n)"
    "L = client_start_nd (sn_cases_nd ! n) @ w @ r @ [Sent SN_CMD_CLOSE_ASOC 0 0 0, Closed, Slept 5]"
    by (rule client_script_parts [OF assms(2,1)])
  then have "messages L = SN_CMD_SET_STRRESET # messages w @ [SN_CMD_CLOSE_ASOC]"
    by (simp add: client_start_facts reopen_facts)
  with parts(1) show ?thesis
    by (auto simp: plain_word_def plain_length_def list_all_iff)
qed

text \<open>
  C28: in every case, whatever the kernel and the random generator give, a client sends at most one request to enable
  resets, then data messages, then at most one request to close, and all of these if it returns; each data message has
  at least 20 bytes, so that the server can take none for a command, and at most the 10240 of the buffer it is
  sent from.
\<close>

theorem ndata_data_is_never_a_command:
  assumes "n < 21" and "atoi c = of_nat n"
  shows "\<exists>r t tr ds. main_nd K [prog, ip, port, c, ''-s''] s = Some (r, t) \<and> trace t = trace s @ tr \<and>
    prefix (messages (acts tr)) (SN_CMD_SET_STRRESET # ds @ [SN_CMD_CLOSE_ASOC]) \<and>
    list_all (\<lambda>d. 20 \<le> unat d \<and> unat d \<le> 10240) ds \<and>
    (r = Done 0 \<longrightarrow> messages (acts tr) = SN_CMD_SET_STRRESET # ds @ [SN_CMD_CLOSE_ASOC])"
proof -
  obtain r t tr L where run: "main_nd K [prog, ip, port, c, ''-s''] s = Some (r, t)" "trace t = trace s @ tr"
    and L: "L \<in> client_scripts_nd n" "stopped L (acts tr)" "r = Done 0 \<Longrightarrow> acts tr = L"
    using main_nd_client_part [OF assms, of K prog ip port s] by blast
  from script_messages [OF assms(1) L(1)] obtain ds where
    ds: "messages L = SN_CMD_SET_STRRESET # ds @ [SN_CMD_CLOSE_ASOC]"
      "list_all (\<lambda>d. 20 \<le> unat d \<and> unat d \<le> 10240) ds" by blast
  from run ds stopped_messages [OF L(2)] L(3) show ?thesis
    by (intro exI [of _ r] exI [of _ t] exI [of _ tr] exI [of _ ds]) auto
qed

theorem ndata_data_is_never_a_command_witness:
  "\<exists>r t tr ds. main_nd mailbox [''sctp_ndata'', ''10.0.0.1'', ''8888'', ''12'', ''-s'']
      \<lparr>mem = zero_context, world = [(13, 0), (13, 0)], trace = []\<rparr> = Some (r, t) \<and> trace t = [] @ tr \<and>
    prefix (messages (acts tr)) (11 # ds @ [12]) \<and> list_all (\<lambda>d. 20 \<le> unat d \<and> unat d \<le> 10240) ds"
  using ndata_data_is_never_a_command [of 12 "''12''" mailbox "''sctp_ndata''" "''10.0.0.1''" "''8888''"
      "\<lparr>mem = zero_context, world = [(13, 0), (13, 0)], trace = []\<rparr>"]
  by (auto simp: atoi_eval sn_cmds)

section \<open>The firewall\<close>

lemma shell_of_script:
  assumes "n < 21" and "L \<in> client_scripts_nd n"
  shows "shell_of L \<in> {[], [''iptables -F''],
    [''iptables -A INPUT -p sctp -j DROP'', ''iptables -F'']}"
proof -
  obtain w r where parts: "plain_word w" "r \<in> reopen_scripts_nd (sn_cases_nd ! n)"
    "L = client_start_nd (sn_cases_nd ! n) @ w @ r @ [Sent SN_CMD_CLOSE_ASOC 0 0 0, Closed, Slept 5]"
    by (rule client_script_parts [OF assms(2,1)])
  have "do_sched_tests (sn_cases_nd ! n) = Do_prio_fuzzb_sched_tests \<Longrightarrow> sched_cork (sn_cases_nd ! n) = 0"
    using less_21_cases [OF assms(1)] by (elim disjE) (simp_all add: case_nd_simps)
  with parts reopen_facts(2) [OF parts(2)] show ?thesis
    by (auto simp: client_start_facts plain_word_def)
qed

lemma prefix_of_two: "prefix xs [a, b] \<Longrightarrow> xs \<in> {[], [a], [a, b]}"
  by (cases xs) (auto simp: prefix_Cons)

lemma rules_after_stopped:
  assumes "shell_of L \<in> {[], [''iptables -F''],
    [''iptables -A INPUT -p sctp -j DROP'', ''iptables -F'']}" and "stopped L A"
  shows "rules_after [] A \<in> {[], [''iptables -A INPUT -p sctp -j DROP'']}"
    and "\<not> prefix A L \<Longrightarrow> rules_after [] A = []"
proof -
  have flushed: "rules_after rs (B @ [reset_request, Ran ''iptables -F'']) = []" for rs B
    by simp
  show "\<not> prefix A L \<Longrightarrow> rules_after [] A = []"
    using assms(2) flushed by (auto simp: stopped_def)
  have "rules_after [] A \<in> {[], [''iptables -A INPUT -p sctp -j DROP'']}" if "prefix A L"
  proof -
    have "shell_of A \<in> {[], [''iptables -F''], [''iptables -A INPUT -p sctp -j DROP''],
        [''iptables -A INPUT -p sctp -j DROP'', ''iptables -F'']}"
      using assms(1) shell_of_prefix [OF that] prefix_of_two [of "shell_of A"]
      by (auto simp: prefix_Cons)
    then show ?thesis
      by (subst rules_after_shell) auto
  qed
  with \<open>\<not> prefix A L \<Longrightarrow> rules_after [] A = []\<close>
  show "rules_after [] A \<in> {[], [''iptables -A INPUT -p sctp -j DROP'']}" by auto
qed

text \<open>
  C26: in every case, a client that returns leaves no rule behind; one that stops early leaves at most the
  one rule it added.
\<close>

theorem ndata_firewall:
  assumes "n < 21" and "atoi c = of_nat n"
  shows "\<exists>r t tr. main_nd K [prog, ip, port, c, ''-s''] s = Some (r, t) \<and> trace t = trace s @ tr \<and>
    rules_after [] (acts tr) \<in> {[], [''iptables -A INPUT -p sctp -j DROP'']} \<and>
    (r = Done 0 \<longrightarrow> rules_after [] (acts tr) = [])"
proof -
  obtain r t tr L where run: "main_nd K [prog, ip, port, c, ''-s''] s = Some (r, t)" "trace t = trace s @ tr"
    and L: "L \<in> client_scripts_nd n" "stopped L (acts tr)" "r = Done 0 \<Longrightarrow> acts tr = L"
    using main_nd_client_part [OF assms, of K prog ip port s] by blast
  note shell = shell_of_script [OF assms(1) L(1)]
  have "rules_after [] L = []"
    using shell by (subst rules_after_shell) auto
  with run rules_after_stopped(1) [OF shell L(2)] L(3) show ?thesis
    by (intro exI [of _ r] exI [of _ t] exI [of _ tr]) auto
qed

theorem ndata_firewall_witness:
  "\<exists>r t tr. main_nd mailbox [''sctp_ndata'', ''10.0.0.1'', ''8888'', ''0'', ''-s'']
      \<lparr>mem = zero_context, world = [(13, 0), (13, 0)], trace = []\<rparr> = Some (r, t) \<and> trace t = [] @ tr \<and>
    (r = Done 0 \<longrightarrow> rules_after [] (acts tr) = [])"
  using ndata_firewall [of 0 "''0''" mailbox "''sctp_ndata''" "''10.0.0.1''" "''8888''"
      "\<lparr>mem = zero_context, world = [(13, 0), (13, 0)], trace = []\<rparr>"]
  by (auto simp: atoi_eval)

section \<open>The performance cases\<close>

lemma messages_rounds:
  assumes "\<And>i. messages (word i) = replicate 10 d"
  shows "messages (concat (replicate n (over_streams word))) = replicate (n * 100) d"
proof -
  have "messages (over_streams word) = replicate 100 d"
    by (simp add: over_streams_def messages_concat o_def assms map_replicate_const
        concat_replicate_replicate)
  then show ?thesis
    by (simp add: messages_concat concat_replicate_replicate)
qed

fun load_of :: "test_fn_nd \<Rightarrow> cint list" where
  "load_of Do_prio_stress_sched_tests = replicate 100000 10240"
| "load_of Do_prio_small_sched_tests = replicate 100000 64"
| "load_of _ = replicate 1000000 1024"

lemma messages_load:
  assumes "fn \<in> {Do_prio_sched_tests, Do_prio_sched_tests_x, Do_prio_sched_tests_y,
      Do_prio_stress_sched_tests, Do_prio_small_sched_tests}" and "w \<in> test_scripts fn"
  shows "messages w = load_of fn"
proof -
  have y: "messages (concat (replicate 5 [data_nd 1024 0 i, data_nd 1024 1 i])) = replicate 10 1024" for i
  proof -
    have "messages (concat (replicate 5 [data_nd 1024 0 i, data_nd 1024 1 i])) =
        concat (replicate 5 (replicate 2 1024))"
      by (simp add: messages_concat numeral_2_eq_2)
    then show ?thesis by (simp only: concat_replicate_replicate) simp
  qed
  show ?thesis
    using assms
    by (elim insertE; simp only: test_scripts.simps singleton_iff)
      (simp_all only: messages_append messages_rounds y messages_replicate, simp_all)
qed

lemma messages_performance:
  assumes "n < 21" and "L \<in> client_scripts_nd n"
    and "do_sched_tests (sn_cases_nd ! n) \<in> {Do_prio_sched_tests, Do_prio_sched_tests_x,
      Do_prio_sched_tests_y, Do_prio_stress_sched_tests, Do_prio_small_sched_tests}"
  shows "messages L = SN_CMD_SET_STRRESET # load_of (do_sched_tests (sn_cases_nd ! n)) @ [SN_CMD_CLOSE_ASOC]"
proof -
  let ?fn = "do_sched_tests (sn_cases_nd ! n)"
  obtain w r where parts: "r \<in> reopen_scripts_nd (sn_cases_nd ! n)" "w \<in> test_scripts ?fn"
    "L = client_start_nd (sn_cases_nd ! n) @ w @ r @ [Sent SN_CMD_CLOSE_ASOC 0 0 0, Closed, Slept 5]"
    by (rule client_script_parts [OF assms(2,1)])
  then show ?thesis
    by (simp add: client_start_facts reopen_facts messages_load [OF assms(3) parts(2)])
qed

end
