(* ===== verification/Ndata_Session.thy ===== *)
theory Ndata_Session
  imports Ndata_Traffic
begin

text \<open>
  Whole sessions of the scheduler test's server on a kernel that delivers: the performance cases, in
  which it reports the throughput once, at the last data message of the client's script; and the
  conformance cases with more messages than the table has room for.
\<close>

section \<open>One message\<close>

text \<open>After how many data messages the throughput was reported, each time it was.\<close>

fun is_perf :: "call \<Rightarrow> bool" where
  "is_perf (Printf c vs) \<longleftrightarrow> c = ''PERF: %lf mb/s''"
| "is_perf _ \<longleftrightarrow> False"

fun perf_reports :: "nat \<Rightarrow> (call \<times> reply) list \<Rightarrow> nat list" where
  "perf_reports k [] = []"
| "perf_reports k ((c, r) # tr) =
     (if is_perf c then k # perf_reports k tr
      else perf_reports (k + length (data_lengths (arrivals (input_of c r)))) tr)"

lemma data_lengths_append: "data_lengths (ms @ ns) = data_lengths ms @ data_lengths ns"
  by (simp add: data_lengths_def)

lemma is_perf_input: "is_perf c \<Longrightarrow> input_of c r = []"
  by (cases c) auto

lemma data_lengths_Nil [simp]: "data_lengths [] = []"
  by (simp add: data_lengths_def)

lemma perf_reports_append:
  "perf_reports k (tr @ tr') =
     perf_reports k tr @ perf_reports (k + length (data_lengths (arrivals (inputs tr)))) tr'"
proof (induction k tr rule: perf_reports.induct)
  case (2 k c r tr)
  then show ?case
    by (auto simp: data_lengths_append is_perf_input add.assoc)
qed simp

text \<open>The fields of the context that a check goes by.\<close>

abbreviation same_fields :: "sn_context \<Rightarrow> sn_context \<Rightarrow> bool" where
  "same_fields x y \<equiv> sn_c x = sn_c y \<and> sn_cb0 x = sn_cb0 y \<and> sn_cb1 x = sn_cb1 y \<and> sn_cb3 x = sn_cb3 y"

lemma receive_delivers:
  assumes "delivers K inbox" and "inbox (world s) = m # ms" and "fst m \<noteq> -1"
  shows "\<exists>t tr. sn_get_peer_cmd K s = Some (Done (fst m), t) \<and> trace t = trace s @ tr \<and>
    inputs tr = [Arrived (fst m) (snd m)] \<and> (\<forall>k. perf_reports k tr = []) \<and> inbox (world t) = ms \<and>
    same_fields (mem t) (mem s) \<and> sn_sri_stream (mem t) = snd m"
  using delivers_recv [OF assms(1,2)] assms(3)
  by (simp add: sn_get_peer_cmd_def run_simps)

lemma enable_delivers:
  assumes "delivers K inbox"
  shows "\<exists>t tr. sn_enable_asoc_strreset K features s = Some (Done (), t) \<and> trace t = trace s @ tr \<and>
    arrivals (inputs tr) = [] \<and> (\<forall>k. perf_reports k tr = []) \<and> inbox (world t) = inbox (world s) \<and>
    same_fields (mem t) (mem s)"
  by (simp add: sn_enable_asoc_strreset_def sn_get_asoc_id_def run_simps delivers_simps [OF assms])

lemma ack_delivers:
  assumes "delivers K inbox"
  shows "\<exists>t tr. sn_send_peer_ack K s = Some (Done (), t) \<and> trace t = trace s @ tr \<and>
    inputs tr = [] \<and> (\<forall>k. perf_reports k tr = []) \<and> inbox (world t) = inbox (world s) \<and> mem t = mem s"
  by (simp add: sn_send_peer_ack_def sn_send_asoc_msg_def send_from_def sn_cmds run_simps
      delivers_simps [OF assms])

text \<open>A round of the loop for each kind of message.\<close>

lemma enable_round:
  assumes "delivers K inbox" and "inbox (world s) = m # ms" and "fst m = SN_CMD_SET_STRRESET"
  shows "\<exists>t tr. serve_step K features check s = Some (Done SN_CMD_SET_STRRESET, t) \<and> trace t = trace s @ tr \<and>
    arrivals (inputs tr) = [m] \<and> (\<forall>k. perf_reports k tr = []) \<and> inbox (world t) = ms \<and>
    same_fields (mem t) (mem s)"
proof -
  have "fst m \<noteq> -1" using assms(3) by (simp add: sn_cmds)
  from receive_delivers [OF assms(1,2) this] obtain u tr where one:
    "sn_get_peer_cmd K s = Some (Done (fst m), u)" "trace u = trace s @ tr" "inputs tr = [Arrived (fst m) (snd m)]"
    "\<forall>k. perf_reports k tr = []" "inbox (world u) = ms" "same_fields (mem u) (mem s)" by blast
  from enable_delivers [OF assms(1), of features u] obtain v tr' where two:
    "sn_enable_asoc_strreset K features u = Some (Done (), v)" "trace v = trace u @ tr'"
    "arrivals (inputs tr') = []" "\<forall>k. perf_reports k tr' = []" "inbox (world v) = inbox (world u)"
    "same_fields (mem v) (mem u)" by blast
  from ack_delivers [OF assms(1), of v] obtain t tr'' where
    "sn_send_peer_ack K v = Some (Done (), t)" "trace t = trace v @ tr''" "inputs tr'' = []"
    "\<forall>k. perf_reports k tr'' = []" "inbox (world t) = inbox (world v)" "mem t = mem v" by blast
  with one two assms(3) show ?thesis
    by (intro exI [of _ t] exI [of _ "tr @ tr' @ tr''"])
      (simp add: serve_step_def seq_Done return_run perf_reports_append prod_eq_iff)
qed

lemma close_round:
  assumes "delivers K inbox" and "inbox (world s) = m # ms" and "fst m = SN_CMD_CLOSE_ASOC"
  shows "\<exists>t tr. serve_step K features check s = Some (Done (-1), t) \<and> trace t = trace s @ tr \<and>
    arrivals (inputs tr) = [m] \<and> (\<forall>k. perf_reports k tr = [])"
proof -
  have "fst m \<noteq> -1" using assms(3) by (simp add: sn_cmds)
  from receive_delivers [OF assms(1,2) this] obtain u tr where one:
    "sn_get_peer_cmd K s = Some (Done (fst m), u)" "trace u = trace s @ tr" "inputs tr = [Arrived (fst m) (snd m)]"
    "\<forall>k. perf_reports k tr = []" by blast
  from ack_delivers [OF assms(1), of u] obtain t tr' where
    "sn_send_peer_ack K u = Some (Done (), t)" "trace t = trace u @ tr'" "inputs tr' = []"
    "\<forall>k. perf_reports k tr' = []" by blast
  with one assms(3) show ?thesis
    by (intro exI [of _ t] exI [of _ "tr @ tr'"])
      (simp add: serve_step_def seq_Done return_run perf_reports_append sn_cmds prod_eq_iff)
qed

lemma data_round:
  assumes "delivers K inbox" and "inbox (world s) = m # ms"
    and "fst m \<notin> {SN_CMD_SET_STRRESET, SN_CMD_CLOSE_ASOC, -1}"
  shows "\<exists>u tr. serve_step K features check s = seq check (\<lambda>_. return (fst m)) u \<and> trace u = trace s @ tr \<and>
    arrivals (inputs tr) = [m] \<and> (\<forall>k. perf_reports k tr = []) \<and> inbox (world u) = ms \<and>
    same_fields (mem u) (mem s) \<and> sn_cb2 (mem u) = to_long (fst m) \<and> sn_sri_stream (mem u) = snd m"
proof -
  from receive_delivers [OF assms(1,2)] assms(3) obtain u tr where one:
    "sn_get_peer_cmd K s = Some (Done (fst m), u)" "trace u = trace s @ tr" "inputs tr = [Arrived (fst m) (snd m)]"
    "\<forall>k. perf_reports k tr = []" "inbox (world u) = ms" "same_fields (mem u) (mem s)"
    "sn_sri_stream (mem u) = snd m" by auto
  with assms(3) show ?thesis
    by (intro exI [of _ "u\<lparr>mem := (mem u)\<lparr>sn_cb2 := to_long (fst m)\<rparr>\<rparr>"] exI [of _ tr])
      (simp add: serve_step_def seq_Done seq_assoc store_run prod_eq_iff)
qed

section \<open>More messages than the table has room for\<close>

lemma conformance_cases:
  assumes "n \<in> {0, 1, 7, 13}"
  shows "n < 21" and "do_assert_tests (sn_cases_nd ! n) = Do_assert_tests"
  using assms by (elim insertE; simp add: case_nd_simps)+

lemma conformance_check:
  assumes "delivers K inbox" and "n \<in> {0, 1, 7, 13}" and "sn_c (mem s) = of_nat n"
    and "sn_cb0 (mem s) = of_nat i" and "i < 9"
  shows "\<exists>t. check_nd K s = Some (Done (), t) \<and> inbox (world t) = inbox (world s) \<and>
    sn_c (mem t) = of_nat n \<and> sn_cb0 (mem t) = of_nat (Suc i)"
proof -
  note n = conformance_cases [OF assms(2)]
  have "sint (of_nat i :: clong) = int i" "unat (of_nat i :: clong) = i"
    using assms(5) by (simp_all add: unat_of_nat sint_uint uint_nat signed_take_bit_int_eq_self)
  with assms(3-5) n(2) sids_length [OF n(1)] show ?thesis
    by (simp add: check_nd_def call_assert_nd_def sn_do_assert_tests_def run_simps the_case_nd_run [OF n(1)]
        Let_def delivers_simps(8) [OF assms(1)] add.commute)
qed

lemma conformance_overrun:
  assumes "n \<in> {0, 1, 7, 13}" and "sn_c (mem s) = of_nat n" and "sn_cb0 (mem s) = 9"
  shows "check_nd K s = Some (Fault Out_of_bounds, s)"
proof -
  note n = conformance_cases [OF assms(1)]
  show ?thesis
    by (simp add: check_nd_def call_assert_nd_def sn_do_assert_tests_def run_simps
        the_case_nd_run [OF n(1) assms(2)] sids_length [OF n(1)] assms(3) n(2))
qed

text \<open>The loop with \<open>i\<close> messages counted and more than \<open>9 - i\<close> still to come.\<close>

lemma serve_overrun:
  assumes "delivers K inbox" and "n \<in> {0, 1, 7, 13}"
    and "inbox (world s) = ms" and "session ms" and "fst (last ms) \<noteq> -1" and "9 < i + due ms" and "i \<le> 9"
    and "sn_c (mem s) = of_nat n" and "sn_cb0 (mem s) = of_nat i" and "\<not> negative cmd"
  shows "\<exists>t. while_nonneg (serve_step K features (check_nd K)) cmd s = Some (Fault Out_of_bounds, t)"
  using assms(3-)
proof (induction ms arbitrary: s cmd i)
  case Nil
  then show ?case by (simp add: session_def)
next
  case (Cons m ms)
  note prems = Cons.prems
  let ?step = "serve_step K features (check_nd K)"
  have m: "fst m \<noteq> -1"
    using prems by (cases ms) (auto simp: session_Cons closing_def)
  have more: "session ms" "fst (last ms) \<noteq> -1" "\<not> closing (fst m)" if "ms \<noteq> []"
    using prems that by (auto simp: session_Cons)
  consider (set) "fst m = SN_CMD_SET_STRRESET" | (close) "fst m = SN_CMD_CLOSE_ASOC"
    | (data) "fst m \<notin> {SN_CMD_SET_STRRESET, SN_CMD_CLOSE_ASOC, -1}" using m by blast
  then show ?case
  proof cases
    case set
    then have ne: "ms \<noteq> []" and due: "due (m # ms) = due ms"
      using prems(4,5) by (auto simp: due_Cons)
    from enable_round [OF assms(1) prems(1) set] obtain t tr where
      "?step s = Some (Done SN_CMD_SET_STRRESET, t)" "inbox (world t) = ms" "same_fields (mem t) (mem s)" by blast
    with Cons.IH [of t i SN_CMD_SET_STRRESET] more [OF ne] prems due show ?thesis
      by (auto simp: while_nonneg_unfold [of ?step cmd] sn_cmds)
  next
    case close
    then have "ms = []" using more(3) by (auto simp: closing_def)
    with close prems(4,5) show ?thesis by (simp add: due_Cons)
  next
    case data
    from data_round [OF assms(1) prems(1) data, of features "check_nd K"] obtain u tr where u:
      "?step s = seq (check_nd K) (\<lambda>_. return (fst m)) u" "inbox (world u) = ms" "same_fields (mem u) (mem s)"
      by blast
    show ?thesis
    proof (cases "i = 9")
      case True
      have "check_nd K u = Some (Fault Out_of_bounds, u)"
        by (rule conformance_overrun [OF assms(2)]) (use u prems True in simp_all)
      with u(1) prems(8) show ?thesis
        by (simp add: while_nonneg_unfold [of ?step cmd] seq_run)
    next
      case False
      then have i: "i < 9" using prems(5) by simp
      with prems(4) data have ne: "ms \<noteq> []" by (auto simp: due_Cons split: if_splits)
      have "sn_c (mem u) = of_nat n" "sn_cb0 (mem u) = of_nat i" using u(3) prems(6,7) by auto
      from conformance_check [OF assms(1,2) this i] obtain t where t: "check_nd K u = Some (Done (), t)"
        "inbox (world t) = ms" "sn_c (mem t) = of_nat n" "sn_cb0 (mem t) = of_nat (Suc i)"
        using u(2) by auto
      have "\<not> negative (fst m)" "9 < Suc i + due ms"
        using more(3) [OF ne] prems(4) data by (auto simp: closing_def due_Cons)
      with Cons.IH [OF t(2) more(1,2) [OF ne] _ _ t(3,4)] i t(1) u(1) prems(8) show ?thesis
        by (simp add: while_nonneg_unfold [of ?step cmd] seq_Done return_run)
    qed
  qed
qed

lemma listen_delivers:
  assumes "delivers K inbox"
  shows "\<exists>t tr fd. sn_create_listen_sk K ip port s = Some (Done (), t) \<and> trace t = trace s @ tr \<and>
    inputs tr = [] \<and> (\<forall>k. perf_reports k tr = []) \<and> inbox (world t) = inbox (world s) \<and>
    mem t = (mem s)\<lparr>sn_fd := fd\<rparr>"
  by (simp add: sn_create_listen_sk_def sn_do_setup_frag_interleave_def
      sn_do_setup_strm_interleave_def run_simps delivers_simps [OF assms]) blast

lemma recvinfo_delivers:
  assumes "delivers K inbox"
  shows "\<exists>t tr. sn_enable_sk_recvinfo K s = Some (Done (), t) \<and> trace t = trace s @ tr \<and>
    inputs tr = [] \<and> (\<forall>k. perf_reports k tr = []) \<and> inbox (world t) = inbox (world s) \<and> mem t = mem s"
  by (simp add: sn_enable_sk_recvinfo_def run_simps delivers_simps [OF assms])

lemma server_nd_starts:
  assumes "delivers K inbox"
  shows "\<exists>t tr. main_nd K [prog, ip, port, c, ''-l''] s =
      seq (while_nonneg (serve_step K SCTP_ENABLE_RESET_STREAM_REQ (check_nd K)) 0)
        (\<lambda>_. seq load (\<lambda>snc. return (to_int (sn_cb1 snc)))) t \<and>
    trace t = trace s @ tr \<and> inputs tr = [] \<and> (\<forall>k. perf_reports k tr = []) \<and> inbox (world t) = inbox (world s) \<and>
    same_fields (mem t) (zero_context\<lparr>sn_c := atoi c\<rparr>)"
proof -
  let ?s = "s\<lparr>mem := zero_context\<lparr>sn_c := atoi c\<rparr>\<rparr>"
  from listen_delivers [OF assms, of ip port ?s] obtain u tr fd where one:
    "sn_create_listen_sk K ip port ?s = Some (Done (), u)" "trace u = trace s @ tr" "inputs tr = []"
    "\<forall>k. perf_reports k tr = []" "inbox (world u) = inbox (world s)"
    "mem u = (mem ?s)\<lparr>sn_fd := fd\<rparr>" by auto
  from recvinfo_delivers [OF assms, of u] obtain t tr' where
    "sn_enable_sk_recvinfo K u = Some (Done (), t)" "trace t = trace u @ tr'" "inputs tr' = []"
    "\<forall>k. perf_reports k tr' = []" "inbox (world t) = inbox (world u)" "mem t = mem u" by blast
  with one show ?thesis
    unfolding main_nd_server sn_serve_def
    by (intro exI [of _ t] exI [of _ "tr @ tr'"])
      (simp add: seq_assoc seq_Done [OF store_run] seq_Done perf_reports_append)
qed

text \<open>
  C35: on a kernel that delivers, a session in a conformance case ends with a verdict when it has at most nine
  data messages, and with an access outside the table when it has more: the server counts each of them and
  looks the tenth up past the end, whatever else arrives in between.
\<close>

theorem ndata_long_session_out_of_bounds:
  assumes "delivers K inbox" and "n \<in> {0, 1, 7, 13}" and "atoi c = of_nat n"
    and "inbox (world s) = ms" and "session ms" and "fst (last ms) \<noteq> -1"
  shows "\<exists>t. main_nd K [prog, ip, port, c, ''-l''] s =
    Some (if length (data_sids ms) \<le> 9 then Done (verdict_nd (atoi c) ms) else Fault Out_of_bounds, t)"
proof (cases "length (data_sids ms) \<le> 9")
  case True
  with main_nd_returns [OF assms(1,4-6) conformance_cases(1) [OF assms(2)] assms(3)] show ?thesis by simp
next
  case False
  from server_nd_starts [OF assms(1), of prog ip port c s] obtain u where u:
    "main_nd K [prog, ip, port, c, ''-l''] s =
      seq (while_nonneg (serve_step K SCTP_ENABLE_RESET_STREAM_REQ (check_nd K)) 0)
        (\<lambda>_. seq load (\<lambda>snc. return (to_int (sn_cb1 snc)))) u"
    "inbox (world u) = ms" "same_fields (mem u) (zero_context\<lparr>sn_c := atoi c\<rparr>)"
    using assms(4) by blast
  have "\<exists>t. while_nonneg (serve_step K SCTP_ENABLE_RESET_STREAM_REQ (check_nd K)) 0 u =
      Some (Fault Out_of_bounds, t)"
    by (rule serve_overrun [OF assms(1,2) u(2) assms(5,6), of 0])
      (use u(3) assms(3) False in \<open>simp_all add: due_sids zero_context_def\<close>)
  with u(1) False show ?thesis by (auto simp: seq_run)
qed

theorem ndata_long_session_out_of_bounds_witness:
  "\<exists>t. main_nd mailbox [''sctp_ndata'', ''10.0.0.1'', ''8888'', ''7'', ''-l'']
      \<lparr>mem = zero_context, world = (11, 0) # replicate 10 (1024, 1) @ [(12, 0)], trace = []\<rparr> =
    Some (Fault Out_of_bounds, t)"
proof -
  let ?ms = "(11, 0) # replicate 10 (1024, 1) @ [(12, 0)] :: (cint \<times> cushort) list"
  have "session ?ms" "fst (last ?ms) \<noteq> -1" "length (data_sids ?ms) = 10"
    by (simp_all add: session_def closing_def sn_cmds data_sids_def filter_replicate butlast_append list_all_iff)
  with ndata_long_session_out_of_bounds [OF mailbox_delivers, of 7 "''7''" "\<lparr>mem = zero_context, world = ?ms, trace = []\<rparr>" ?ms
      "''sctp_ndata''" "''10.0.0.1''" "''8888''"]
  show ?thesis by (simp add: atoi_eval)
qed

section \<open>The report of the throughput\<close>

lemma perf_cases:
  assumes "n \<in> {2, 3, 4, 8, 9, 10, 14, 15, 16, 19, 20}"
  shows "n < 21" and "do_sched_tests (sn_cases_nd ! n) \<in> {Do_prio_sched_tests, Do_prio_sched_tests_x,
      Do_prio_sched_tests_y, Do_prio_stress_sched_tests, Do_prio_small_sched_tests}"
    and "do_assert_tests (sn_cases_nd ! n) =
      (case do_sched_tests (sn_cases_nd ! n) of
         Do_prio_stress_sched_tests \<Rightarrow> Do_prio_stress_assert_tests
       | Do_prio_small_sched_tests \<Rightarrow> Do_prio_small_assert_tests
       | _ \<Rightarrow> Do_prio_assert_tests)"
  using assms by (elim insertE; simp add: case_nd_simps)+

text \<open>How many messages a performance case sends, and of what length.\<close>

fun load_size :: "test_fn_nd \<Rightarrow> nat \<times> cint" where
  "load_size Do_prio_stress_sched_tests = (100000, 10240)"
| "load_size Do_prio_small_sched_tests = (100000, 64)"
| "load_size _ = (1000000, 1024)"

lemma load_of_size: "load_of fn = replicate (fst (load_size fn)) (snd (load_size fn))"
  by (cases fn) simp_all

text \<open>What the context holds after \<open>k\<close> messages: their number or their length in all, and whether a start is set.\<close>

definition counted :: "nat \<Rightarrow> nat \<Rightarrow> sn_context \<Rightarrow> bool" where
  "counted n k snc \<longleftrightarrow> sn_c snc = of_nat n \<and> (sn_cb3 snc = 0 \<longleftrightarrow> k = 0) \<and>
     sn_cb0 snc = (if do_assert_tests (sn_cases_nd ! n) = Do_prio_assert_tests then of_nat k
       else of_nat k * to_long (snd (load_size (do_sched_tests (sn_cases_nd ! n)))))"

definition clock_runs :: "'w kernel \<Rightarrow> bool" where
  "clock_runs K \<longleftrightarrow> (\<forall>w. r_time (fst (K Time w)) \<noteq> 0)"

lemma prio_assert_counts:
  assumes "delivers K inbox" and "clock_runs K" and "k < 1000000"
    and "sn_cb0 (mem s) = of_nat k" and "sn_cb3 (mem s) = 0 \<longleftrightarrow> k = 0"
  shows "\<exists>t tr. sn_do_prio_assert_tests K s = Some (Done (), t) \<and> trace t = trace s @ tr \<and> inputs tr = [] \<and>
    (\<forall>j. perf_reports j tr = (if Suc k = 1000000 then [j] else [])) \<and> inbox (world t) = inbox (world s) \<and>
    sn_c (mem t) = sn_c (mem s) \<and> sn_cb0 (mem t) = of_nat (Suc k) \<and> sn_cb3 (mem t) \<noteq> 0"
proof -
  have eqs: "(of_nat k :: clong) + 1 = 1 \<longleftrightarrow> k = 0" "(of_nat k :: clong) + 1 = 1000000 \<longleftrightarrow> Suc k = 1000000"
    using assms(3) of_nat_small_iff [of "Suc k" 1] of_nat_small_iff [of "Suc k" 1000000]
    by (simp_all add: add.commute)
  note inbox = delivers_simps(8) [OF assms(1)]
  consider "k = 0" | "k \<noteq> 0" "Suc k = 1000000" | "k \<noteq> 0" "Suc k \<noteq> 1000000" by blast
  then show ?thesis
    by cases (use eqs assms(2,4,5) inbox in \<open>simp_all add: sn_do_prio_assert_tests_def start_time_def
        print_perf_def run_simps clock_runs_def\<close>)
qed

lemma count_bytes_counts:
  assumes "delivers K inbox" and "clock_runs K" and "k < N" and "sn_cb2 (mem s) = V"
    and "sn_cb0 (mem s) = of_nat k * V" and "sn_cb3 (mem s) = 0 \<longleftrightarrow> k = 0"
    and "limit = of_nat N * V" and "1 < N" and "0 < unat V" and "N * unat V < 2 ^ 64"
  shows "\<exists>t tr. count_bytes_nd K limit q s = Some (Done (), t) \<and> trace t = trace s @ tr \<and> inputs tr = [] \<and>
    (\<forall>j. perf_reports j tr = (if Suc k = N then [j] else [])) \<and> inbox (world t) = inbox (world s) \<and>
    sn_c (mem t) = sn_c (mem s) \<and> sn_cb0 (mem t) = of_nat (Suc k) * V \<and> sn_cb3 (mem t) \<noteq> 0"
proof -
  have sum: "of_nat k * V + V = of_nat (Suc k) * V" by (simp add: algebra_simps)
  have "Suc k * unat V \<le> N * unat V" using assms(3) by (intro mult_le_mono1) simp
  then have "Suc k * unat V < 2 ^ 64" using assms(10) by simp
  then have hit: "of_nat (Suc k) * V = limit \<longleftrightarrow> Suc k = N"
    unfolding assms(7) using of_nat_mult_inject [of "Suc k" V N] assms(9,10) by blast
  have one: "of_nat (Suc 0) * V = V" by simp
  note inbox = delivers_simps(8) [OF assms(1)]
  consider "k = 0" | "k \<noteq> 0" "Suc k = N" | "k \<noteq> 0" "Suc k \<noteq> N" by blast
  then show ?thesis
    by cases (use hit assms(2,4-6,8) inbox in \<open>simp_all add: count_bytes_nd_def start_time_def print_perf_def
        run_simps clock_runs_def sum one del: of_nat_Suc\<close>)
qed

lemma check_counts:
  assumes "delivers K inbox" and "clock_runs K" and "n \<in> {2, 3, 4, 8, 9, 10, 14, 15, 16, 19, 20}"
    and "(N, V) = load_size (do_sched_tests (sn_cases_nd ! n))"
    and "k < N" and "counted n k (mem s)" and "sn_cb2 (mem s) = to_long V"
  shows "\<exists>t tr. check_nd K s = Some (Done (), t) \<and> trace t = trace s @ tr \<and> inputs tr = [] \<and>
    (\<forall>j. perf_reports j tr = (if Suc k = N then [j] else [])) \<and> inbox (world t) = inbox (world s) \<and>
    counted n (Suc k) (mem t)"
proof -
  note facts = perf_cases [OF assms(3)]
  have c: "sn_c (mem s) = of_nat n" and b: "sn_cb3 (mem s) = 0 \<longleftrightarrow> k = 0"
    using assms(6) by (simp_all add: counted_def)
  have look: "check_nd K s = call_assert_nd K (do_assert_tests (sn_cases_nd ! n)) s"
    by (simp add: check_nd_def run_simps the_case_nd_run [OF facts(1) c])
  consider (count) "do_assert_tests (sn_cases_nd ! n) = Do_prio_assert_tests" "N = 1000000" "V = 1024"
    | (stress) "do_assert_tests (sn_cases_nd ! n) = Do_prio_stress_assert_tests" "N = 100000" "V = 10240"
    | (small) "do_assert_tests (sn_cases_nd ! n) = Do_prio_small_assert_tests" "N = 100000" "V = 64"
    using facts(2,3) assms(4) by (elim insertE) simp_all
  then show ?thesis
  proof cases
    case count
    with assms(6) have "sn_cb0 (mem s) = of_nat k" by (simp add: counted_def)
    with prio_assert_counts [OF assms(1,2) _ this b] count assms(5) c look show ?thesis
      by (simp add: call_assert_nd_def counted_def split del: if_split) blast
  next
    case stress
    with assms(6) assms(4) [symmetric] have "sn_cb0 (mem s) = of_nat k * 10240" by (simp add: counted_def)
    with count_bytes_counts [OF assms(1,2,5) assms(7), of 1024000000 8000] stress assms(4) [symmetric] b c look
    show ?thesis by (simp add: call_assert_nd_def sn_do_prio_stress_assert_tests_def counted_def split del: if_split) blast
  next
    case small
    with assms(6) assms(4) [symmetric] have "sn_cb0 (mem s) = of_nat k * 64" by (simp add: counted_def)
    with count_bytes_counts [OF assms(1,2,5) assms(7), of 6400000 50] small assms(4) [symmetric] b c look
    show ?thesis by (simp add: call_assert_nd_def sn_do_prio_small_assert_tests_def counted_def split del: if_split) blast
  qed
qed

lemma load_size_data:
  assumes "(N, V) = load_size fn"
  shows "V \<notin> {SN_CMD_SET_STRRESET, SN_CMD_CLOSE_ASOC, -1}" and "\<not> negative V" and "0 < N"
  using assms by (cases fn; simp add: sn_cmds)+

text \<open>The loop with \<open>k\<close> of the messages counted and the others, and the close command, on their way.\<close>

lemma serve_counts:
  assumes "delivers K inbox" and "clock_runs K" and "n \<in> {2, 3, 4, 8, 9, 10, 14, 15, 16, 19, 20}"
    and "(N, V) = load_size (do_sched_tests (sn_cases_nd ! n))"
    and "map fst (inbox (world s)) = replicate (N - k) V @ [SN_CMD_CLOSE_ASOC]" and "k \<le> N"
    and "counted n k (mem s)" and "\<not> negative cmd"
  shows "\<exists>t tr. while_nonneg (serve_step K features (check_nd K)) cmd s = Some (Done (), t) \<and>
    trace t = trace s @ tr \<and> perf_reports k tr = (if k < N then [N] else [])"
  using assms(5-)
proof (induction "N - k" arbitrary: k s cmd)
  case 0
  let ?step = "serve_step K features (check_nd K)"
  from 0 obtain m where m: "inbox (world s) = [m]" "fst m = SN_CMD_CLOSE_ASOC"
    by (auto simp: map_eq_Cons_conv)
  from close_round [OF assms(1) m] obtain t tr where t: "?step s = Some (Done (-1), t)"
    "trace t = trace s @ tr" "\<forall>k. perf_reports k tr = []" by blast
  with 0 show ?case
    by (auto simp: while_nonneg_unfold [of ?step cmd] while_nonneg_unfold [of ?step "-1"])
next
  case (Suc d)
  let ?step = "serve_step K features (check_nd K)"
  note V = load_size_data [OF assms(4)]
  from Suc.hyps(2) have k: "k < N" and d: "N - k = Suc (N - Suc k)" by simp_all
  from Suc.prems(1) obtain m ms where m: "inbox (world s) = m # ms" "fst m = V"
    "map fst ms = replicate (N - Suc k) V @ [SN_CMD_CLOSE_ASOC]"
    unfolding d by auto
  have data: "fst m \<notin> {SN_CMD_SET_STRRESET, SN_CMD_CLOSE_ASOC, -1}" using V(1) m(2) by simp
  then have one: "length (data_lengths [m]) = 1" by (simp add: data_lengths_def)
  from data_round [OF assms(1) m(1) data, of features "check_nd K"] obtain u tr where u:
    "?step s = seq (check_nd K) (\<lambda>_. return (fst m)) u" "trace u = trace s @ tr" "arrivals (inputs tr) = [m]"
    "\<forall>k. perf_reports k tr = []" "inbox (world u) = ms" "same_fields (mem u) (mem s)"
    "sn_cb2 (mem u) = to_long V" using m(2) by blast
  have "counted n k (mem u)" using u(6) Suc.prems(3) by (simp add: counted_def)
  from check_counts [OF assms(1-4) k this u(7)] obtain v tr' where v: "check_nd K u = Some (Done (), v)"
    "trace v = trace u @ tr'" "inputs tr' = []" "\<forall>j. perf_reports j tr' = (if Suc k = N then [j] else [])"
    "inbox (world v) = ms" "counted n (Suc k) (mem v)" using u(5) by auto
  have "d = N - Suc k" "Suc k \<le> N" using Suc.hyps(2) by simp_all
  from Suc.hyps(1) [OF this(1) _ this(2) v(6) V(2)] m(3) v(5) obtain t tr'' where
    "while_nonneg ?step V v = Some (Done (), t)" "trace t = trace v @ tr''"
    "perf_reports (Suc k) tr'' = (if Suc k < N then [N] else [])" by blast
  moreover from u(1) v(1) m(2) have "?step s = Some (Done V, v)"
    by (simp add: seq_Done return_run)
  ultimately show ?case
    using u(2-4) v(2-4) k one Suc.prems(4)
    by (intro exI [of _ t] exI [of _ "tr @ tr' @ tr''"])
      (auto simp: while_nonneg_unfold [of ?step cmd] perf_reports_append)
qed

text \<open>
  C29: in the eleven performance cases what the client sends is what the server counts to. When the messages of
  a script of the client arrive, on whatever streams, and the clock runs, the server reports the throughput
  exactly once in the whole session, after the last of the data messages, and returns 0.
\<close>

theorem ndata_reports_once_at_last_message:
  assumes "delivers K inbox" and "clock_runs K" and "n \<in> {2, 3, 4, 8, 9, 10, 14, 15, 16, 19, 20}"
    and "atoi c = of_nat n" and "L \<in> client_scripts_nd n" and "map fst (inbox (world s)) = messages L"
  shows "\<exists>t tr. main_nd K [prog, ip, port, c, ''-l''] s = Some (Done 0, t) \<and> trace t = trace s @ tr \<and>
    perf_reports 0 tr = [length (data_lengths (inbox (world s)))]"
proof -
  let ?loop = "while_nonneg (serve_step K SCTP_ENABLE_RESET_STREAM_REQ (check_nd K))"
  note facts = perf_cases [OF assms(3)]
  obtain N V where size: "(N, V) = load_size (do_sched_tests (sn_cases_nd ! n))"
    by (metis surj_pair)
  note V = load_size_data [OF size]
  have "map fst (inbox (world s)) = SN_CMD_SET_STRRESET # replicate N V @ [SN_CMD_CLOSE_ASOC]"
    using messages_performance [OF facts(1) assms(5) facts(2)] size [symmetric] assms(6)
    by (simp add: load_of_size)
  then obtain m ms where ms: "inbox (world s) = m # ms" "fst m = SN_CMD_SET_STRRESET"
    "map fst ms = replicate N V @ [SN_CMD_CLOSE_ASOC]" by auto
  then have count: "length (data_lengths (inbox (world s))) = N"
    using V(1) by (simp add: data_lengths_map filter_replicate)
  from server_nd_starts [OF assms(1), of prog ip port c s] obtain u tr where u:
    "main_nd K [prog, ip, port, c, ''-l''] s = seq (?loop 0) (\<lambda>_. seq load (\<lambda>snc. return (to_int (sn_cb1 snc)))) u"
    "trace u = trace s @ tr" "inputs tr = []" "\<forall>k. perf_reports k tr = []" "inbox (world u) = m # ms"
    "same_fields (mem u) (zero_context\<lparr>sn_c := atoi c\<rparr>)" using ms(1) by auto
  from enable_round [OF assms(1) u(5) ms(2), of SCTP_ENABLE_RESET_STREAM_REQ "check_nd K"] obtain v tr' where v:
    "serve_step K SCTP_ENABLE_RESET_STREAM_REQ (check_nd K) u = Some (Done SN_CMD_SET_STRRESET, v)"
    "trace v = trace u @ tr'" "arrivals (inputs tr') = [m]" "\<forall>k. perf_reports k tr' = []"
    "inbox (world v) = ms" "same_fields (mem v) (mem u)" by blast
  have none: "length (data_lengths [m]) = 0" using ms(2) by (simp add: data_lengths_def)
  have "counted n 0 (mem v)"
    using u(6) v(6) assms(4) by (simp add: counted_def zero_context_def)
  with serve_counts [OF assms(1-3) size, of v 0 SN_CMD_SET_STRRESET SCTP_ENABLE_RESET_STREAM_REQ] ms(3) v(5) V(3)
  obtain t tr'' where t: "?loop SN_CMD_SET_STRRESET v = Some (Done (), t)" "trace t = trace v @ tr''"
    "perf_reports 0 tr'' = [N]" by (auto simp: sn_cmds)
  have "?loop 0 u = Some (Done (), t)"
    using v(1) t(1) by (simp add: while_nonneg_unfold [of _ 0])
  then have run: "main_nd K [prog, ip, port, c, ''-l''] s = Some (Done (to_int (sn_cb1 (mem t))), t)"
    using u(1) by (simp add: seq_Done load_run return_run)
  have "do_assert_tests (sn_cases_nd ! n) \<noteq> Do_assert_tests"
    using facts(3) by (auto split: test_fn_nd.splits)
  then have "\<not> conformance (atoi c)" using assms(4) facts(1) by (simp add: conformance_def)
  with main_nd_verdict [OF run assms(4) facts(1)] have "to_int (sn_cb1 (mem t)) = 0"
    by (auto simp: verdict_nd_def)
  with run u(2-4) v(2-4) t(2,3) none count show ?thesis
    by (intro exI [of _ t] exI [of _ "tr @ tr' @ tr''"]) (simp add: perf_reports_append)
qed

text \<open>The mailbox with a clock.\<close>

definition clocked :: "(cint \<times> cushort) list kernel" where
  "clocked c w = ((fst (mailbox c w))\<lparr>r_time := 1600000000\<rparr>, snd (mailbox c w))"

lemma clocked_delivers: "delivers clocked (\<lambda>ms. ms)" "clock_runs clocked"
proof -
  have fields: "r_ret (fst (clocked c w)) = r_ret (fst (mailbox c w))"
    "r_stream (fst (clocked c w)) = r_stream (fst (mailbox c w))" "snd (clocked c w) = snd (mailbox c w)" for c w
    by (simp_all add: clocked_def)
  show "delivers clocked (\<lambda>ms. ms)"
    using mailbox_delivers unfolding delivers_def fields .
qed (simp add: clock_runs_def clocked_def)

theorem ndata_reports_once_at_last_message_witness:
  "\<exists>t tr. main_nd clocked [''sctp_ndata'', ''10.0.0.1'', ''8888'', ''3'', ''-l'']
      \<lparr>mem = zero_context, world = (11, 0) # replicate 100000 (10240, 0) @ [(12, 0)], trace = []\<rparr> =
      Some (Done 0, t) \<and> trace t = [] @ tr \<and> perf_reports 0 tr = [100000]"
proof -
  let ?ms = "(11, 0) # replicate 100000 (10240, 0) @ [(12, 0)] :: (cint \<times> cushort) list"
  have "client_scripts_nd 3 \<noteq> {}"
    by (simp add: client_scripts_nd_def Let_def test_scripts_ne reopen_scripts_ne del: test_scripts.simps)
  then obtain L where L: "L \<in> client_scripts_nd 3" by blast
  have ms: "map fst ?ms = messages L"
    using messages_performance [OF _ L] by (simp add: case_nd_simps sn_cmds)
  have "length (data_lengths ?ms) = 100000"
    by (simp add: data_lengths_map filter_replicate sn_cmds)
  with ndata_reports_once_at_last_message [OF clocked_delivers, of 3 "''3''" L
      "\<lparr>mem = zero_context, world = ?ms, trace = []\<rparr>" "''sctp_ndata''" "''10.0.0.1''" "''8888''"] L ms
  show ?thesis by (simp add: atoi_eval)
qed

end
