(* ===== verification/C_Wp.thy ===== *)
theory C_Wp
  imports C_Logic
begin

text \<open>
  Weakest preconditions, for what is said of the states of a program that returns and not only of its
  actions: \<open>wp p Q s\<close> holds when \<open>Q\<close> holds of every value and state that \<open>p\<close> gives from \<open>s\<close>; it asks nothing of
  a run that exits, faults or does not end. The equations of \<open>wp_simps\<close> compute it; a loop needs an
  invariant. \<open>whenever p Q s\<close> is the same for every outcome, exits and faults included.
\<close>

definition wp :: "('c, 'w, 'a) prog \<Rightarrow> ('a \<Rightarrow> ('c, 'w) machine \<Rightarrow> bool) \<Rightarrow> ('c, 'w) machine \<Rightarrow> bool" where
  "wp p Q s \<longleftrightarrow> (\<forall>a t. p s = Some (Done a, t) \<longrightarrow> Q a t)"

named_theorems wp_simps "the weakest preconditions of the statements"

lemma wp_return [wp_simps]: "wp (return a) Q s \<longleftrightarrow> Q a s"
  and wp_exit [wp_simps]: "wp (exit_with e) R s"
  and wp_crash [wp_simps]: "wp (crash x) R' s"
  and wp_load [wp_simps]: "wp load L s \<longleftrightarrow> L (mem s) s"
  and wp_store [wp_simps]: "wp (store f) U s \<longleftrightarrow> U () (s\<lparr>mem := f (mem s)\<rparr>)"
  by (simp_all add: wp_def run_simps)

lemma wp_seq [wp_simps]: "wp (seq p f) Q s \<longleftrightarrow> wp p (\<lambda>a. wp (f a) Q) s"
  by (auto simp: wp_def seq_def split: option.splits prod.splits result.splits)

lemma wp_sys [wp_simps]:
  "wp (sys K c) Q s \<longleftrightarrow> Q (fst (K c (world s)))
     (s\<lparr>world := snd (K c (world s)), trace := trace s @ [(c, fst (K c (world s)))]\<rparr>)"
  by (simp add: wp_def run_simps)

lemma wp_if [wp_simps]: "wp (if b then p else q) Q s \<longleftrightarrow> (if b then wp p Q s else wp q Q s)"
  by simp

lemma wp_run [wp_simps]:
  "wp (run K c) Q s \<longleftrightarrow> Q () (s\<lparr>world := snd (K c (world s)), trace := trace s @ [(c, fst (K c (world s)))]\<rparr>)"
  by (simp add: run_def wp_simps)

lemma wp_or_die [wp_simps]:
  "wp (or_die K c bad msg) Q s \<longleftrightarrow> (let r = fst (K c (world s)) in \<not> bad (r_ret r) \<longrightarrow>
     Q r (s\<lparr>world := snd (K c (world s)), trace := trace s @ [(c, r)]\<rparr>))"
  by (simp add: or_die_def wp_simps Let_def)

lemma wp_must [wp_simps]:
  "wp (must K c bad msg) Q s \<longleftrightarrow> (let r = fst (K c (world s)) in \<not> bad (r_ret r) \<longrightarrow>
     Q () (s\<lparr>world := snd (K c (world s)), trace := trace s @ [(c, r)]\<rparr>))"
  by (simp add: must_def wp_simps Let_def)

lemma wp_block [wp_simps]:
  "wp (block []) Q s \<longleftrightarrow> Q () s" "wp (block (m # ms)) Q s \<longleftrightarrow> wp m (\<lambda>_. wp (block ms) Q) s"
  by (simp_all add: wp_simps)

lemma wp_mono: "wp p Q s \<Longrightarrow> (\<And>a t. Q a t \<Longrightarrow> Q' a t) \<Longrightarrow> wp p Q' s"
  unfolding wp_def by blast

lemma wp_for:
  assumes "I i s" and "i \<le> j" and "\<And>k s. i \<le> k \<Longrightarrow> k < j \<Longrightarrow> I k s \<Longrightarrow> wp (f k) (\<lambda>_. I (Suc k)) s"
  shows "wp (for_loop i j f) (\<lambda>_. I j) s"
  using assms
proof (induction "j - i" arbitrary: i s)
  case 0
  then show ?case by (simp add: for_loop_def wp_simps)
next
  case (Suc n)
  then have "i < j" by simp
  then have "for_loop i j f = seq (f i) (\<lambda>_. for_loop (Suc i) j f)"
    by (simp add: for_loop_def upt_conv_Cons)
  moreover have "wp (f i) (\<lambda>_. wp (for_loop (Suc i) j f) (\<lambda>_. I j)) s"
  proof (rule wp_mono)
    show "wp (f i) (\<lambda>_. I (Suc i)) s" using Suc.prems \<open>i < j\<close> by simp
  next
    fix t assume "I (Suc i) t"
    then show "wp (for_loop (Suc i) j f) (\<lambda>_. I j) t"
      using Suc.hyps(2) Suc.prems(3) \<open>i < j\<close> by (intro Suc.hyps(1)) auto
  qed
  ultimately show ?case by (simp add: wp_simps)
qed

text \<open>Two loops from 1 to \<open>n\<close>, one in the other: the rounds are numbered through.\<close>

lemma wp_square:
  assumes init: "I 0 s"
    and round: "\<And>i j s. i < n \<Longrightarrow> j < n \<Longrightarrow> I (i * n + j) s \<Longrightarrow> wp (f (Suc i) (Suc j)) (\<lambda>_. I (i * n + Suc j)) s"
  shows "wp (for_loop 1 (n + 1) (\<lambda>i. for_loop 1 (n + 1) (f i))) (\<lambda>_. I (n * n)) s"
proof -
  have inner: "wp (for_loop 1 (n + 1) (f (Suc i))) (\<lambda>_. I (i * n + (n + 1 - 1))) s"
    if "i < n" "I (i * n) s" for i s
  proof (rule wp_for [where I = "\<lambda>j. I (i * n + (j - 1))"])
    fix j t
    assume "1 \<le> j" "j < n + 1" "I (i * n + (j - 1)) t"
    with round [of i "j - 1" t] \<open>i < n\<close> show "wp (f (Suc i) j) (\<lambda>_. I (i * n + (Suc j - 1))) t"
      by simp
  qed (use that in simp_all)
  have "wp (for_loop 1 (n + 1) (\<lambda>i. for_loop 1 (n + 1) (f i))) (\<lambda>_. I ((n + 1 - 1) * n)) s"
  proof (rule wp_for [where I = "\<lambda>i. I ((i - 1) * n)"])
    fix i t
    assume "1 \<le> i" "i < n + 1" "I ((i - 1) * n) t"
    with inner [of "i - 1" t] show "wp (for_loop 1 (n + 1) (f i)) (\<lambda>_. I ((Suc i - 1) * n)) t"
      by (cases i) (simp_all add: add.commute)
  qed (use init in simp_all)
  then show ?thesis by simp
qed

lemma wp_repeat:
  assumes "I s" and "\<And>s. I s \<Longrightarrow> wp p (\<lambda>_. I) s"
  shows "wp (repeat_loop n p) (\<lambda>_. I) s"
  using assms(1)
proof (induction n arbitrary: s)
  case 0
  then show ?case by (simp add: wp_simps)
next
  case (Suc n)
  from wp_mono [OF assms(2) [OF Suc.prems] Suc.IH] show ?case by (simp add: wp_simps)
qed

section \<open>Every outcome\<close>

text \<open>
  \<open>whenever p Q s\<close> holds when \<open>Q\<close> holds of every outcome of \<open>p\<close> from \<open>s\<close>, be it a value, an exit or a fault; it says
  nothing when \<open>p\<close> does not end. A loop needs an invariant.
\<close>

definition whenever ::
  "('c, 'w, 'a) prog \<Rightarrow> ('a result \<Rightarrow> ('c, 'w) machine \<Rightarrow> bool) \<Rightarrow> ('c, 'w) machine \<Rightarrow> bool" where
  "whenever p Q s \<longleftrightarrow> (\<forall>r t. p s = Some (r, t) \<longrightarrow> Q r t)"

named_theorems whenever_simps "what holds of every outcome of the statements"

lemma whenever_return [whenever_simps]: "whenever (return a) Q s \<longleftrightarrow> Q (Done a) s"
  and whenever_exit [whenever_simps]: "whenever (exit_with e) Q s \<longleftrightarrow> Q (Exit e) s"
  and whenever_crash [whenever_simps]: "whenever (crash x) Q s \<longleftrightarrow> Q (Fault x) s"
  by (simp_all add: whenever_def run_simps)

lemma whenever_sys [whenever_simps]:
  "whenever (sys K c) Q s \<longleftrightarrow> Q (Done (fst (K c (world s))))
     (s\<lparr>world := snd (K c (world s)), trace := trace s @ [(c, fst (K c (world s)))]\<rparr>)"
  by (simp add: whenever_def run_simps)

lemma whenever_seq [whenever_simps]:
  "whenever (seq p f) Q s \<longleftrightarrow> whenever p (\<lambda>r t. case r of
     Done a \<Rightarrow> whenever (f a) Q t | Exit e \<Rightarrow> Q (Exit e) t | Fault x \<Rightarrow> Q (Fault x) t) s"
  by (auto simp: whenever_def seq_def split: option.splits prod.splits result.splits)

lemma whenever_if [whenever_simps]:
  "whenever (if b then p else q) Q s \<longleftrightarrow> (if b then whenever p Q s else whenever q Q s)"
  by simp

lemma whenever_run [whenever_simps]:
  "whenever (run K c) Q s \<longleftrightarrow> Q (Done ())
     (s\<lparr>world := snd (K c (world s)), trace := trace s @ [(c, fst (K c (world s)))]\<rparr>)"
  by (simp add: run_def whenever_simps)

lemma whenever_mono: "whenever p Q s \<Longrightarrow> (\<And>r t. Q r t \<Longrightarrow> Q' r t) \<Longrightarrow> whenever p Q' s"
  unfolding whenever_def by blast

lemma whenever_iter:
  assumes "I x s"
    and round: "\<And>x s. I x s \<Longrightarrow> whenever (body x) (\<lambda>r t. case r of
      Done v \<Rightarrow> (case v of Inl y \<Rightarrow> I y t | Inr z \<Rightarrow> Q (Done z) t)
    | Exit e \<Rightarrow> Q (Exit e) t | Fault f \<Rightarrow> Q (Fault f) t) s"
  shows "whenever (iter body x) Q s"
  unfolding whenever_def
proof (intro allI impI)
  fix r t
  assume run: "iter body x s = Some (r, t)"
  let ?P = "\<lambda>b x s p. b = body \<longrightarrow> I x s \<longrightarrow> Q (fst p) (snd p)"
  have "?P body x s (r, t)"
  proof (rule iter_induct [where P = ?P, OF _ run], intro impI)
    fix it b x s p
    assume IH: "\<And>b x s p. it b x s = Some p \<Longrightarrow> b = body \<longrightarrow> I x s \<longrightarrow> Q (fst p) (snd p)"
      and eq: "(case b x s of
          None \<Rightarrow> None
        | Some (r, t) \<Rightarrow>
            (case r of
               Done v \<Rightarrow> (case v of Inl x' \<Rightarrow> it b x' t | Inr y \<Rightarrow> Some (Done y, t))
             | Exit e \<Rightarrow> Some (Exit e, t)
             | Fault f \<Rightarrow> Some (Fault f, t))) = Some p"
      and b: "b = body" and I: "I x s"
    from eq obtain o1 u where one: "body x s = Some (o1, u)"
      unfolding b by (auto split: option.splits)
    with round [OF I, unfolded whenever_def] eq b show "Q (fst p) (snd p)"
      by (auto split: result.splits sum.splits dest!: IH)
  qed
  with assms(1) show "Q r t" by simp
qed

end
