(* ===== verification/Ndata_Fuzz.thy ===== *)
theory Ndata_Fuzz
  imports Ndata_Session C_Wp
begin

text \<open>
  The second random test of the scheduler test writes the number of a random case into the context and does not
  put the old one back. What the client does after the test therefore depends on the last case it
  has drawn: it may flush the firewall, to which it has added nothing.
\<close>

section \<open>The numbers drawn\<close>

text \<open>The replies of \<open>rand\<close> in a run, and the case such a number picks.\<close>

definition draws :: "(call \<times> reply) list \<Rightarrow> cint list" where
  "draws tr = map (r_ret \<circ> snd) (filter (\<lambda>e. fst e = Rand) tr)"

definition picked :: "cint \<Rightarrow> nat" where
  "picked x = unat (take_bit 31 x mod 21)"

lemma picked_less: "picked x < 21"
  by (simp add: picked_def unat_mod)

lemma draws_simps [simp]:
  "draws [] = []" "draws ((c, r) # tr) = (if c = Rand then r_ret r # draws tr else draws tr)"
  "draws (tr @ tr') = draws tr @ draws tr'"
  by (simp_all add: draws_def)

text \<open>A program that draws \<open>n\<close> numbers, each a reply of the kernel, whenever it returns.\<close>

definition drawn :: "'w kernel \<Rightarrow> ('c, 'w, 'a) prog \<Rightarrow> nat \<Rightarrow> bool" where
  "drawn K p n \<longleftrightarrow> (\<forall>s a t. p s = Some (Done a, t) \<longrightarrow> (\<exists>tr. trace t = trace s @ tr \<and>
     length (draws tr) = n \<and> (\<forall>x \<in> set (draws tr). \<exists>w. x = r_ret (fst (K Rand w)))))"

named_theorems drawn_intro "how many numbers a program draws"

lemma drawnD:
  assumes "drawn K p n" and "p s = Some (Done a, t)"
  obtains tr where "trace t = trace s @ tr" and "length (draws tr) = n"
    and "\<forall>x \<in> set (draws tr). \<exists>w. x = r_ret (fst (K Rand w))"
  using assms unfolding drawn_def by blast

lemma drawn_eq: "drawn K p m \<Longrightarrow> m = n \<Longrightarrow> drawn K p n"
  by simp

lemma drawn_simple [drawn_intro]:
  "drawn K (return a) 0" "drawn K load 0" "drawn K (store f) 0"
  "drawn K (exit_with e) n" "drawn K (crash x) n"
  by (simp_all add: drawn_def run_simps)

lemma drawn_sys [drawn_intro]: "drawn K (sys K c) (if c = Rand then 1 else 0)"
  by (auto simp: drawn_def run_simps)

lemma drawn_seq [drawn_intro]:
  assumes "drawn K p m" and "\<And>a. drawn K (f a) n"
  shows "drawn K (seq p f) (m + n)"
  unfolding drawn_def
proof (intro allI impI)
  fix s a t
  assume "seq p f s = Some (Done a, t)"
  then obtain b u where "p s = Some (Done b, u)" "f b u = Some (Done a, t)" by (rule seq_DoneE)
  with drawnD [OF assms(1)] drawnD [OF assms(2)] obtain tr tr' where
    "trace u = trace s @ tr" "length (draws tr) = m" "\<forall>x \<in> set (draws tr). \<exists>w. x = r_ret (fst (K Rand w))"
    "trace t = trace u @ tr'" "length (draws tr') = n" "\<forall>x \<in> set (draws tr'). \<exists>w. x = r_ret (fst (K Rand w))"
    by metis
  then show "\<exists>tr. trace t = trace s @ tr \<and> length (draws tr) = m + n \<and>
      (\<forall>x \<in> set (draws tr). \<exists>w. x = r_ret (fst (K Rand w)))"
    by (intro exI [of _ "tr @ tr'"]) auto
qed

lemma drawn_if [drawn_intro]: "drawn K p n \<Longrightarrow> drawn K q n \<Longrightarrow> drawn K (if b then p else q) n"
  by simp

lemma drawn_block [drawn_intro]:
  "drawn K (block []) 0" "drawn K m i \<Longrightarrow> drawn K (block ms) j \<Longrightarrow> drawn K (block (m # ms)) (i + j)"
  by (auto intro: drawn_intro)

lemma drawn_repeat: "drawn K p m \<Longrightarrow> drawn K (repeat_loop n p) (n * m)"
  by (induction n) (auto intro: drawn_intro)

lemma drawn_for:
  assumes "\<And>k. drawn K (f k) m"
  shows "drawn K (for_loop i j f) ((j - i) * m)"
proof -
  have "drawn K (block (map f xs)) (length xs * m)" for xs
    using assms by (induction xs) (auto intro: drawn_intro simp del: block.simps)
  from this [of "[i..<j]"] show ?thesis by (simp add: for_loop_def)
qed

lemma drawn_calls [drawn_intro]:
  "c \<noteq> Rand \<Longrightarrow> drawn K (run K c) 0" "c \<noteq> Rand \<Longrightarrow> drawn K (or_die K c bad msg) 0"
  "c \<noteq> Rand \<Longrightarrow> drawn K (must K c bad msg) 0" "c \<noteq> Rand \<Longrightarrow> drawn K (may_fail K c bad msg) 0"
  unfolding run_def or_die_def must_def may_fail_def
  by (rule drawn_eq, (rule drawn_intro | simp)+)+

lemma drawn_case: "(\<And>k. drawn K (f k) n) \<Longrightarrow> drawn K (seq the_case_nd f) n"
  unfolding the_case_nd_def
  by (rule drawn_eq, (rule drawn_intro | assumption | simp)+)

text \<open>Programs that draw none.\<close>

lemma silent_seq: "drawn K p 0 \<Longrightarrow> (\<And>a. drawn K (f a) 0) \<Longrightarrow> drawn K (seq p f) 0"
  using drawn_seq [of K p 0 f 0] by simp

lemma silent_block: "drawn K m 0 \<Longrightarrow> drawn K (block ms) 0 \<Longrightarrow> drawn K (block (m # ms)) 0"
  using drawn_block(2) [of K m 0 ms 0] by simp

lemma silent_for: "(\<And>k. drawn K (f k) 0) \<Longrightarrow> drawn K (for_loop i j f) 0"
  using drawn_for [of K f 0] by simp

lemma silent_sys: "c \<noteq> Rand \<Longrightarrow> drawn K (sys K c) 0"
  using drawn_sys [of K c] by simp

lemmas silent_intro = silent_seq silent_block silent_for silent_sys drawn_simple drawn_calls drawn_if
  drawn_block(1) drawn_case

lemma silent_sends:
  "drawn K (sn_send_asoc_msg_nd K len sid val) 0" "drawn K (sn_enable_peer_strreset_nd K) 0"
  "drawn K (sn_close_asoc_sk_nd K) 0"
  unfolding sn_enable_peer_strreset_def sn_close_asoc_sk_def sn_send_asoc_cmd_def
    sn_send_asoc_msg_def send_from_def
  by (rule silent_intro | simp)+

lemma silent_setup:
  "drawn K (call_setup_nd K f) 0" "drawn K (call_value_nd K g) 0"
  unfolding call_setup_nd_def call_value_nd_def sn_do_setup_sched_def sn_do_setup_schedvalue_def
    sn_do_prio_setup_schedvalue_def sn_do_prio_stress_setup_schedvalue_def sn_do_rr_setup_schedvalue_def
    set_stream_value_def
  by (cases f; simp only: setup_fn_nd.case; (rule silent_intro | simp)+)
    (cases g; simp only: value_fn_nd.case; (rule silent_intro | simp)+)

lemma silent_around:
  "drawn K (sn_create_asoc_sk_nd K ip port) 0" "drawn K (sn_enable_asoc_strreset_nd K) 0"
  "drawn K (sn_close_asoc_streams_nd K) 0" "drawn K (sn_reopen_asoc_streams_nd K) 0" "drawn K (srand_time K) 0"
  unfolding sn_create_asoc_sk_def sn_do_setup_frag_interleave_def sn_do_setup_strm_interleave_def
    sn_enable_asoc_strreset_def sn_get_asoc_id_def sn_close_asoc_streams_nd_def sn_reopen_asoc_streams_nd_def
    srand_time_def
  by (rule silent_intro | simp)+

lemma drawn_random: "drawn K (send_random K range_len stream) 1"
  unfolding send_random_def rand_nd_def
  by (rule drawn_eq, (rule drawn_intro silent_sends)+, simp)

section \<open>The rounds of the test\<close>

text \<open>What a run of the rounds has drawn, and the case that the last round has left in the context.\<close>

definition fuzzed :: "'w kernel \<Rightarrow> nat \<Rightarrow> (call \<times> reply) list \<Rightarrow> sn_context \<Rightarrow> bool" where
  "fuzzed K n tr snc \<longleftrightarrow> length (draws tr) = Suc n * 101 \<and>
     (\<forall>x \<in> set (draws tr). \<exists>w. x = r_ret (fst (K Rand w))) \<and>
     in_case (of_nat (picked (draws tr ! (n * 101)))) snc"

lemma performs_wp: "performs K P R p A \<Longrightarrow> P (mem s) \<Longrightarrow> wp p (\<lambda>_ t. R (mem t)) s"
  by (erule performsE [where s = s]) (auto simp: wp_def)

abbreviation fuzzb_round :: "'w kernel \<Rightarrow> ('w, unit) sn" where
  "fuzzb_round K \<equiv> block [
     seq (rand_nd K) (\<lambda>x. store (\<lambda>snc. snc\<lparr>sn_c := x mod of_nat SN_CASE_MAX_nd\<rparr>)),
     seq the_case_nd (\<lambda>k. call_setup_nd K (do_setup_sched k)),
     seq the_case_nd (\<lambda>k. call_value_nd K (do_setup_schedvalue k)),
     for_loop 0 10 (\<lambda>stream. for_loop 0 10 (\<lambda>count. send_random K 3000 stream))]"

lemma drawn_chosen_round: "drawn K (chosen_round K) 100"
proof -
  have "drawn K (for_loop 0 10 (\<lambda>stream. for_loop 0 10 (\<lambda>count. send_random K 3000 stream))) 100"
    by (rule drawn_eq, rule drawn_for, rule drawn_for, rule drawn_random) simp
  from drawn_block(2) [OF drawn_case [OF silent_setup(1)] drawn_block(2) [OF drawn_case [OF silent_setup(2)]
      drawn_block(2) [OF this drawn_block(1)]]]
  show ?thesis by simp
qed

lemma fuzzb_round_leaves:
  assumes "fuzzb_round K s = Some (Done a, t)"
  shows "\<exists>tr. trace t = trace s @ tr \<and> fuzzed K 0 tr (mem t)"
proof -
  let ?x = "r_ret (fst (K Rand (world s)))"
  let ?u = "s\<lparr>world := snd (K Rand (world s)), trace := trace s @ [(Rand, fst (K Rand (world s)))],
      mem := (mem s)\<lparr>sn_c := take_bit 31 ?x mod 21\<rparr>\<rparr>"
  from assms have run: "chosen_round K ?u = Some (Done a, t)"
    unfolding block.simps(2) [of "seq (rand_nd K) f" for f]
    unfolding rand_nd_def SN_CASE_MAX_nd_def
    by (simp add: seq_assoc seq_Done [OF sys_run] seq_Done [OF store_run] del: block.simps)
  have case_u: "in_case (of_nat (picked ?x)) (mem ?u)" by (simp add: picked_def)
  have "in_case (of_nat (picked ?x)) (mem t)"
    using performs_wp [OF performs_chosen_round [OF picked_less] case_u, of K] run by (auto simp: wp_def)
  moreover obtain tr where "trace t = trace ?u @ tr" "length (draws tr) = 100"
    "\<forall>x \<in> set (draws tr). \<exists>w. x = r_ret (fst (K Rand w))"
    by (rule drawnD [OF drawn_chosen_round run])
  ultimately show ?thesis
    by (intro exI [of _ "(Rand, fst (K Rand (world s))) # tr"]) (auto simp: fuzzed_def)
qed

lemma fuzzb_rounds_leave:
  assumes "repeat_loop (Suc n) (fuzzb_round K) s = Some (Done a, t)"
  shows "\<exists>tr. trace t = trace s @ tr \<and> fuzzed K n tr (mem t)"
  using assms
proof (induction n arbitrary: s)
  case 0
  then show ?case
    using fuzzb_round_leaves [of K s] by (auto simp: return_run elim!: seq_DoneE simp del: block.simps)
next
  case (Suc n)
  then have "seq (fuzzb_round K) (\<lambda>_. repeat_loop (Suc n) (fuzzb_round K)) s = Some (Done a, t)"
    by (simp only: repeat_loop.simps(2) [of "Suc n"])
  then obtain b u where one: "fuzzb_round K s = Some (Done b, u)"
    and rest: "repeat_loop (Suc n) (fuzzb_round K) u = Some (Done a, t)"
    by (rule seq_DoneE)
  from fuzzb_round_leaves [OF one] Suc.IH [OF rest] obtain tr tr' where
    "trace u = trace s @ tr" "fuzzed K 0 tr (mem u)" "trace t = trace u @ tr'" "fuzzed K n tr' (mem t)" by blast
  then show ?case
    by (intro exI [of _ "tr @ tr'"]) (auto simp: fuzzed_def nth_append)
qed

lemma fuzzb_leaves:
  assumes "sn_do_prio_fuzzb_sched_tests K s = Some (Done a, t)"
  shows "\<exists>tr. trace t = trace s @ tr \<and> fuzzed K 9999 tr (mem t)"
proof -
  from assms obtain u v where init: "srand_time K s = Some (Done (), u)"
    and loop: "repeat_loop (Suc 9999) (fuzzb_round K) u = Some (Done (), v)"
    and last: "t = v\<lparr>world := snd (K (Sleep 10) (world v)), trace := trace v @ [(Sleep 10, fst (K (Sleep 10) (world v)))]\<rparr>"
    unfolding sn_do_prio_fuzzb_sched_tests_def block.simps(2) [of "srand_time K"]
      block.simps(2) [of "repeat_loop n m" for n m] block.simps(2) [of "run K c" for c] block.simps(1)
    by (auto simp: run_run return_run elim!: seq_DoneE simp del: block.simps repeat_loop.simps)
  obtain tr where "trace u = trace s @ tr" "length (draws tr) = 0"
    by (rule drawnD [OF silent_around(5) init])
  moreover obtain tr' where "trace v = trace u @ tr'" "fuzzed K 9999 tr' (mem v)"
    using fuzzb_rounds_leave [OF loop] by blast
  ultimately show ?thesis
    using last by (intro exI [of _ "tr @ tr' @ [(Sleep 10, fst (K (Sleep 10) (world v)))]"]) (simp add: fuzzed_def)
qed

section \<open>The client of the test\<close>

lemma performs_DoneD:
  "performs K P R p A \<Longrightarrow> P (mem s) \<Longrightarrow> p s = Some (Done a, t) \<Longrightarrow>
   \<exists>tr. trace t = trace s @ tr \<and> acts tr \<in> A \<and> R (mem t)"
  by (erule performsE [where s = s]) auto

text \<open>A part of the client's run: what it does, what it draws, and the case it leaves.\<close>

lemma performs_drawn:
  assumes "performs K P R p A" and "drawn K p n" and "P (mem s)" and "p s = Some (Done a, t)"
  obtains tr where "trace t = trace s @ tr" and "acts tr \<in> A" and "R (mem t)" and "length (draws tr) = n"
proof -
  from performs_DoneD [OF assms(1,3,4)] obtain tr where "trace t = trace s @ tr" "acts tr \<in> A" "R (mem t)" by blast
  moreover obtain tr' where "trace t = trace s @ tr'" "length (draws tr') = n"
    by (rule drawnD [OF assms(2,4)])
  ultimately show ?thesis using that by auto
qed

lemma three_more_DoneE:
  assumes "seq (seq p (\<lambda>_. block [q1, q2, q3])) (\<lambda>_. return v) s = Some (Done a, t)"
  obtains b s1 s2 s3 where "p s = Some (Done b, s1)" and "q1 s1 = Some (Done (), s2)"
    and "q2 s2 = Some (Done (), s3)" and "q3 s3 = Some (Done (), t)"
  using assms by (auto simp: return_run elim!: seq_DoneE)

lemma client_fuzzb_run:
  assumes "do_client_nd K argv s = Some (Done a, t)" and "n \<in> {6, 12}" and "atoi (argv ! 3) = of_nat n"
  shows "\<exists>tr w. trace t = trace s @ tr \<and> w \<in> test_scripts Do_prio_fuzzb_sched_tests \<and> fuzzed K 9999 tr (mem t) \<and>
    acts tr = client_start_nd (sn_cases_nd ! n) @ w @
      (if sched_cork (sn_cases_nd ! picked (draws tr ! (9999 * 101))) = 0 then [] else [Ran ''iptables -F'', Slept 10]) @
      [Sent SN_CMD_CLOSE_ASOC 0 0 0, Closed, Slept 5]"
proof -
  have n: "n < 21" "do_sched_tests (sn_cases_nd ! n) = Do_prio_fuzzb_sched_tests"
    using assms(2) by (auto simp: case_nd_simps)
  let ?start = "block [
       run K (Sleep 3),
       store (\<lambda>_. zero_context\<lparr>sn_c := atoi (argv ! 3)\<rparr>),
       sn_create_asoc_sk_nd K (argv ! 1) (argv ! 2),
       seq the_case_nd (\<lambda>k. call_setup_nd K (do_setup_sched k)),
       seq the_case_nd (\<lambda>k. call_value_nd K (do_setup_schedvalue k)),
       sn_enable_asoc_strreset_nd K,
       sn_enable_peer_strreset_nd K,
       sn_close_asoc_streams_nd K]"
  let ?test = "seq the_case_nd (\<lambda>k. call_test_nd K (do_sched_tests k))"
  have "do_client_nd K argv = seq (seq ?start (\<lambda>_. block [?test, sn_reopen_asoc_streams_nd K,
      sn_close_asoc_sk_nd K])) (\<lambda>_. return 0)"
    unfolding do_client_nd_def block_append [symmetric] append.simps by (rule refl)
  from assms(1) [unfolded this] obtain b1 s1 s2 s3 where run: "?start s = Some (Done b1, s1)"
    "?test s1 = Some (Done (), s2)" "sn_reopen_asoc_streams_nd K s2 = Some (Done (), s3)"
    "sn_close_asoc_sk_nd K s3 = Some (Done (), t)" by (rule three_more_DoneE)
  have "drawn K ?start 0"
    by (rule silent_intro silent_around silent_sends silent_setup | simp)+
  then obtain tr1 where one: "trace s1 = trace s @ tr1" "acts tr1 = client_start_nd (sn_cases_nd ! n)"
    "in_case (of_nat n) (mem s1)" "draws tr1 = []"
    by (rule performs_drawn [OF emits_client_start_nd [OF n(1) assms(3)] _ TrueI run(1)]) auto
  have "?test s1 = call_test_nd K (do_sched_tests (sn_cases_nd ! n)) s1"
    by (rule seq_Done) (rule the_case_nd_run [OF n(1) one(3)])
  then have "?test s1 = sn_do_prio_fuzzb_sched_tests K s1"
    by (simp only: n(2)) (simp only: call_test_nd_def test_fn_nd.case)
  with run(2) have test: "sn_do_prio_fuzzb_sched_tests K s1 = Some (Done (), s2)" by simp
  have "some_case (mem s1)" using one(3) n(1) by (auto simp: some_case_def)
  from performs_DoneD [OF performs_fuzzb this test] fuzzb_leaves [OF test] obtain tr2 where two:
    "trace s2 = trace s1 @ tr2" "acts tr2 \<in> test_scripts Do_prio_fuzzb_sched_tests" "fuzzed K 9999 tr2 (mem s2)"
    by (auto simp del: test_scripts.simps)
  let ?m = "picked (draws tr2 ! (9999 * 101))"
  have m: "in_case (of_nat ?m) (mem s2)" using two(3) by (simp add: fuzzed_def)
  obtain tr3 where three: "trace s3 = trace s2 @ tr3" "in_case (of_nat ?m) (mem s3)" "draws tr3 = []"
    "acts tr3 = (if sched_cork (sn_cases_nd ! ?m) = 0 then [] else [Ran ''iptables -F'', Slept 10])"
    by (rule performs_drawn [OF performs_emits [OF emits_reopen_nd [OF picked_less]] silent_around(4) m run(3)]) auto
  obtain tr4 where four: "trace t = trace s3 @ tr4" "in_case (of_nat ?m) (mem t)" "draws tr4 = []"
    "acts tr4 = [Sent SN_CMD_CLOSE_ASOC 0 0 0, Closed, Slept 5]"
    by (rule performs_drawn [where P = "in_case (of_nat ?m)" and s = s3,
        OF performs_emits [OF emits_sn_close_asoc_sk] silent_sends(3) three(2) run(4)]) auto
  from one two three four show ?thesis
    by (intro exI [of _ "tr1 @ tr2 @ tr3 @ tr4"] exI [of _ "acts tr2"])
      (simp add: fuzzed_def acts_simps del: test_scripts.simps)
qed

text \<open>
  C27: the second random test overwrites the case number. The client of such a case draws 101 numbers
  in each of its 10000 rounds, and adds no rule to the firewall; but whatever the generator gives, it ends by flushing
  all rules of the machine, whoever made them, exactly when the first number of the last round picks one of the
  four conformance cases.
\<close>

theorem ndata_fuzz_flushes_foreign_rules:
  assumes "all_succeed K" and "n \<in> {6, 12}" and "atoi c = of_nat n"
  shows "\<exists>t tr. main_nd K [prog, ip, port, c, ''-s''] s = Some (Done 0, t) \<and> trace t = trace s @ tr \<and>
    length (draws tr) = 10000 * 101 \<and>
    shell_of (acts tr) =
      (if picked (draws tr ! (9999 * 101)) \<in> {0, 1, 7, 13} then [''iptables -F''] else []) \<and>
    rules_after rules (acts tr) =
      (if picked (draws tr ! (9999 * 101)) \<in> {0, 1, 7, 13} then [] else rules)"
proof -
  let ?argv = "[prog, ip, port, c, ''-s'']"
  have n: "n < 21" using assms(2) by auto
  from main_nd_client_completes [OF assms(1) n assms(3), of prog ip port s] obtain t where
    run: "main_nd K ?argv s = Some (Done 0, t)" by blast
  from client_fuzzb_run [OF run [unfolded main_nd_client] assms(2)] assms(3) obtain tr w where tr:
    "trace t = trace s @ tr" "w \<in> test_scripts Do_prio_fuzzb_sched_tests" "fuzzed K 9999 tr (mem t)"
    "acts tr = client_start_nd (sn_cases_nd ! n) @ w @
      (if sched_cork (sn_cases_nd ! picked (draws tr ! (9999 * 101))) = 0 then [] else [Ran ''iptables -F'', Slept 10]) @
      [Sent SN_CMD_CLOSE_ASOC 0 0 0, Closed, Slept 5]"
    by (auto simp del: test_scripts.simps)
  let ?m = "picked (draws tr ! (9999 * 101))"
  have "sched_cork (sn_cases_nd ! n) = 0"
    using assms(2) by (auto simp: case_nd_simps)
  moreover have "sched_cork (sn_cases_nd ! ?m) = (if ?m \<in> {0, 1, 7, 13} then 1 else 0)"
    using less_21_cases [OF picked_less [of "draws tr ! (9999 * 101)"]]
    by (elim disjE) (simp_all add: case_nd_simps)
  ultimately have shell: "shell_of (acts tr) = (if ?m \<in> {0, 1, 7, 13} then [''iptables -F''] else [])"
    using plain_test_scripts [OF tr(2)] by (simp add: tr(4) client_start_facts plain_word_def)
  moreover have "rules_after rules (acts tr) = (if ?m \<in> {0, 1, 7, 13} then [] else rules)"
    unfolding rules_after_shell [of rules "acts tr"] shell by simp
  moreover have "length (draws tr) = 10000 * 101" using tr(3) by (simp add: fuzzed_def)
  ultimately show ?thesis using run tr(1) by blast
qed

theorem ndata_fuzz_flushes_foreign_rules_witness:
  "\<exists>t tr. main_nd quiet_kernel [''sctp_ndata'', ''10.0.0.1'', ''8888'', ''6'', ''-s'']
      \<lparr>mem = zero_context, world = (), trace = []\<rparr> = Some (Done 0, t) \<and> trace t = [] @ tr \<and>
    length (draws tr) = 10000 * 101 \<and>
    rules_after [''iptables -A INPUT -j ACCEPT''] (acts tr) =
      (if picked (draws tr ! (9999 * 101)) \<in> {0, 1, 7, 13} then [] else [''iptables -A INPUT -j ACCEPT''])"
  using ndata_fuzz_flushes_foreign_rules [OF quiet_kernel_all_succeed, of 6 "''6''" "''sctp_ndata''"
      "''10.0.0.1''" "''8888''" "\<lparr>mem = zero_context, world = (), trace = []\<rparr>" "[''iptables -A INPUT -j ACCEPT'']"]
  by (auto simp: atoi_eval simp del: draws_simps)

end
