(* ===== verification/Hashtable.thy ===== *)
theory Hashtable
  imports C_Scripts
begin

text \<open>
  \<open>testcase/performance/sctphashtable/client.c\<close>: the client that opens \<open>cnt\<close> times \<open>cnt\<close> associations,
  each from an address of its own, so that the peer's hash table of transports is full, and then
  measures how long 100000 messages of one byte take. Its memory is the table of the sockets; the
  other variables are values here.
\<close>

record ht_memory =
  ht_fds :: "cint list list"
  ht_total :: clong

type_synonym ('w, 'a) ht = "(ht_memory, 'w, 'a) prog"

definition BUFFERSIZE :: cint where "BUFFERSIZE = 1"
definition LOOPS :: nat where "LOOPS = 100000"

text \<open>Static storage starts as zero.\<close>

definition start_ht :: ht_memory where
  "start_ht = \<lparr>ht_fds = replicate 50 (replicate 50 0), ht_total = 0\<rparr>"

section \<open>Addresses\<close>

text \<open>\<open>%d\<close> of a number that is not negative.\<close>

definition digit_char :: "nat \<Rightarrow> char" where
  "digit_char d = char_of (48 + d)"

fun decimal :: "nat \<Rightarrow> string" where
  "decimal n = (if n < 10 then [digit_char n] else decimal (n div 10) @ [digit_char (n mod 10)])"

definition addr_string :: "cint \<Rightarrow> nat \<Rightarrow> nat \<Rightarrow> string" where
  "addr_string family i j =
     (if family = AF_INET then ''172.16.'' @ decimal i @ ''.'' @ decimal j
      else ''2020::'' @ decimal i @ '':'' @ decimal j)"

text \<open>\<open>sprintf\<close> into the 64 bytes of \<open>addr_str\<close>, the final zero included.\<close>

definition sprintf_addr :: "cint \<Rightarrow> nat \<Rightarrow> nat \<Rightarrow> ('w, string) ht" where
  "sprintf_addr family i j =
     (if length (addr_string family i j) < 64 then return (addr_string family i j)
      else crash Out_of_bounds)"

section \<open>The associations\<close>

text \<open>\<open>fds[i-1][j-1] = fd\<close>, a row or a column outside the table being undefined.\<close>

definition store_fd :: "nat \<Rightarrow> nat \<Rightarrow> cint \<Rightarrow> ('w, unit) ht" where
  "store_fd i j fd =
     (if i < 50 \<and> j < 50
      then store (\<lambda>m. m\<lparr>ht_fds := (ht_fds m)[i := (ht_fds m ! i)[j := fd]]\<rparr>)
      else crash Out_of_bounds)"

definition load_fd :: "nat \<Rightarrow> nat \<Rightarrow> ('w, cint) ht" where
  "load_fd i j =
     (if i < 50 \<and> j < 50 then seq load (\<lambda>m. return (ht_fds m ! i ! j)) else crash Out_of_bounds)"

definition create_assoc :: "'w kernel \<Rightarrow> cint \<Rightarrow> string \<Rightarrow> bytes \<Rightarrow> nat \<Rightarrow> nat \<Rightarrow> ('w, unit) ht" where
  \<comment> \<open>the body of the two loops\<close>
  "create_assoc K family local_port addr_ser i j =
     seq (sprintf_addr family i j) (\<lambda>addr_str.
     seq (or_die K (Getaddrinfo addr_str local_port) (\<lambda>v. v \<noteq> 0) ''getaddrinfo'') (\<lambda>res.
       if r_family res \<noteq> family then crash Assertion
       else
         seq (or_die K (Socket (r_family res) SOCK_SEQPACKET IPPROTO_SCTP) (\<lambda>v. v = -1) ''socket'') (\<lambda>r.
           block [
             must K (Bind (r_ret r) (r_addr res)) (\<lambda>v. v = -1) ''bind'',
             must K (Connect (r_ret r) addr_ser) (\<lambda>v. v = -1) ''connect'',
             store_fd (i - 1) (j - 1) (r_ret r)])))"

definition create_assocs :: "'w kernel \<Rightarrow> cint \<Rightarrow> string \<Rightarrow> bytes \<Rightarrow> nat \<Rightarrow> ('w, unit) ht" where
  "create_assocs K family local_port addr_ser cnt =
     for_loop 1 (cnt + 1) (\<lambda>i. for_loop 1 (cnt + 1) (\<lambda>j.
       create_assoc K family local_port addr_ser i j))"

section \<open>The measurement\<close>

definition send_byte :: "'w kernel \<Rightarrow> cint \<Rightarrow> bytes \<Rightarrow> ('w, unit) ht" where
  "send_byte K fd addr_ser =
     seq (or_die K (Sendmsg fd BUFFERSIZE addr_ser 0 0 0 0 0) (\<lambda>v. v = -1) ''sctp_sendmsg'') (\<lambda>r.
       store (\<lambda>m. m\<lparr>ht_total := ht_total m + to_long (r_ret r)\<rparr>))"

definition close_all :: "'w kernel \<Rightarrow> nat \<Rightarrow> ('w, unit) ht" where
  "close_all K cnt =
     for_loop 1 (cnt + 1) (\<lambda>i. for_loop 1 (cnt + 1) (\<lambda>j.
       seq (load_fd (i - 1) (j - 1)) (\<lambda>fd. run K (Close fd))))"

definition measure_ht :: "'w kernel \<Rightarrow> cint \<Rightarrow> bytes \<Rightarrow> nat \<Rightarrow> ('w, cint) ht" where
  \<comment> \<open>from \<open>start = time(NULL)\<close> to the end of \<open>main\<close>\<close>
  "measure_ht K fd addr_ser cnt =
     seq (sys K Time) (\<lambda>start.
     seq (repeat_loop LOOPS (send_byte K fd addr_ser)) (\<lambda>_.
     seq (sys K Time) (\<lambda>stop.
     seq load (\<lambda>m.
     seq (run K (Printf ''time is %lf, send pkt is %lu'' [r_time stop - r_time start, ht_total m])) (\<lambda>_.
       if 1000 < sint (r_time stop) - sint (r_time start) then
         seq (run K (Printf ''Expect spending less than 1000 seconds'' [])) (\<lambda>_. return 1)
       else
         seq (block [close_all K cnt, run K (Close fd), run K (Sleep 30)]) (\<lambda>_. return 0))))))"

text \<open>A negative \<open>cnt\<close> makes the loops empty.\<close>

definition main_ht :: "'w kernel \<Rightarrow> string list \<Rightarrow> ('w, cint) ht" where
  "main_ht K argv =
     seq (store (\<lambda>m. m\<lparr>ht_total := 0\<rparr>)) (\<lambda>_.
      if length argv \<noteq> 5 then
        seq (run K (Printf ''Usage: %s <remote_addr> <remote_port> <local_port> <addr_cnt>'' []))
          (\<lambda>_. exit_with (-1))
      else
        seq (or_die K (Getaddrinfo (argv ! 1) (argv ! 2)) (\<lambda>v. v \<noteq> 0) ''getaddrinfo'') (\<lambda>remote.
        seq (sprintf_addr (r_family remote) 253 253) (\<lambda>addr_str.
        seq (or_die K (Getaddrinfo addr_str (argv ! 3)) (\<lambda>v. v \<noteq> 0) ''getaddrinfo'') (\<lambda>loc.
        seq (or_die K (Socket (r_family loc) SOCK_SEQPACKET IPPROTO_SCTP) (\<lambda>v. v = -1) ''socket'') (\<lambda>r.
          let fd = r_ret r; cnt = nat (sint (atoi (argv ! 4))) in
          seq (block [
            must K (Bind fd (r_addr loc)) (\<lambda>v. v = -1) ''bind'',
            must K (Connect fd (r_addr remote)) (\<lambda>v. v = -1) ''connect'',
            create_assocs K (r_family loc) (argv ! 3) (r_addr remote) cnt]) (\<lambda>_.
            measure_ht K fd (r_addr remote) cnt))))))"

end
