(* ===== verification/Hashtable_Props.thy ===== *)
theory Hashtable_Props
  imports Hashtable Cmd_Server
begin

text \<open>
  What the client of the hash table test does: its addresses are all different, fit their
  buffer and read back as the numbers they were made of; with at most 50 by 50 associations a run is fully described; with more, it writes past
  the end of its table.
\<close>

section \<open>Decimal numbers\<close>

declare decimal.simps [simp del]

lemma digit_of_char: "d < 10 \<Longrightarrow> digit_of (digit_char d) = Some (int d)"
proof -
  assume "d < 10"
  have "(of_char (digit_char d) :: int) = int (of_char (digit_char d))"
    by (rule of_nat_of_char [symmetric])
  also have "(of_char (digit_char d) :: nat) = 48 + d"
    using \<open>d < 10\<close> by (simp add: digit_char_def)
  finally show ?thesis using \<open>d < 10\<close> by (simp add: digit_of_def)
qed

lemma read_digits_snoc:
  "list_all (\<lambda>c. digit_of c \<noteq> None) xs \<Longrightarrow> digit_of c = Some d \<Longrightarrow>
   read_digits acc (xs @ [c]) = 10 * read_digits acc xs + d"
  by (induction xs arbitrary: acc) (auto split: option.split)

lemma decimal_digits: "list_all (\<lambda>c. digit_of c \<noteq> None) (decimal n)"
proof (induction n rule: decimal.induct)
  case (1 n)
  then show ?case by (subst decimal.simps) (simp add: digit_of_char)
qed

lemma decimal_value: "read_digits 0 (decimal n) = int n"
proof (induction n rule: decimal.induct)
  case (1 n)
  show ?case
  proof (cases "n < 10")
    case True
    then show ?thesis by (simp add: decimal.simps digit_of_char)
  next
    case False
    have "read_digits 0 (decimal n) = 10 * read_digits 0 (decimal (n div 10)) + int (n mod 10)"
      using False by (subst decimal.simps)
        (simp add: read_digits_snoc [OF decimal_digits digit_of_char])
    also have "\<dots> = int (10 * (n div 10) + n mod 10)" using 1 [OF False] by (simp only: of_nat_add of_nat_mult of_nat_numeral)
    also have "\<dots> = int n" by (simp only: mult_div_mod_eq)
    finally show ?thesis .
  qed
qed

lemma decimal_inj: "decimal m = decimal n \<Longrightarrow> m = n"
  by (metis decimal_value of_nat_eq_iff)

lemma decimal_length: "n < 10 ^ Suc k \<Longrightarrow> length (decimal n) \<le> Suc k"
proof (induction k arbitrary: n)
  case 0
  then show ?case by (simp add: decimal.simps)
next
  case (Suc k)
  then have "n div 10 < 10 ^ Suc k" by (simp add: div_less_iff_less_mult mult.commute)
  from Suc.IH [OF this] show ?case by (subst decimal.simps) simp
qed

text \<open>Two numbers around a character that is no digit can be told apart.\<close>

lemma digits_split:
  assumes "xs @ c # ys = xs' @ c # ys'" and "digit_of c = None"
    and "list_all (\<lambda>c. digit_of c \<noteq> None) xs" and "list_all (\<lambda>c. digit_of c \<noteq> None) xs'"
  shows "xs = xs' \<and> ys = ys'"
  using assms by (induction xs arbitrary: xs') (auto simp: Cons_eq_append_conv)

section \<open>The addresses\<close>

text \<open>
  C32: the addresses of the associations are all different, in both families, and different from
  the address of the measured association, for any number of them; and each fits, with its final
  zero, the 64 bytes of its buffer as long as the counters are \<open>int\<close>s.
\<close>

theorem hashtable_addresses:
  "(addr_string family i j = addr_string family i' j' \<longleftrightarrow> i = i' \<and> j = j') \<and>
   (i < 2 ^ 31 \<and> j < 2 ^ 31 \<longrightarrow> length (addr_string family i j) + 1 \<le> 64)"
proof -
  have no_digit: "digit_of CHR ''.'' = None" "digit_of CHR '':'' = None"
    by (simp_all add: digit_of_def)
  have "i = i' \<and> j = j'" if eq: "addr_string family i j = addr_string family i' j'"
  proof -
    have "decimal i = decimal i' \<and> decimal j = decimal j'"
      using eq by (cases "family = AF_INET")
        (auto simp: addr_string_def dest!: digits_split [OF _ no_digit(1) decimal_digits decimal_digits]
          digits_split [OF _ no_digit(2) decimal_digits decimal_digits])
    then show ?thesis by (auto dest: decimal_inj)
  qed
  moreover have "length (addr_string family i j) + 1 \<le> 64" if "i < 2 ^ 31" "j < 2 ^ 31"
  proof -
    have "length (decimal i) \<le> Suc 9" "length (decimal j) \<le> Suc 9"
      using that by (intro decimal_length; simp)+
    then show ?thesis by (auto simp: addr_string_def)
  qed
  ultimately show ?thesis by blast
qed

lemma decimal_no_sep: "digit_of sep = None \<Longrightarrow> sep \<notin> set (decimal n)"
  using decimal_digits [of n] by (auto simp: list_all_iff)

lemma decimal_not_Nil: "decimal n \<noteq> []"
  by (subst decimal.simps) simp

lemma digit_no_space: "digit_of x \<noteq> None \<Longrightarrow> \<not> is_space x \<and> x \<noteq> CHR ''-'' \<and> x \<noteq> CHR ''+''"
  using of_nat_of_char [of x, where 'a = int]
  by (auto simp: digit_of_def is_space_def Let_def split: if_splits)

lemma atoi_decimal:
  assumes "n < 2 ^ 31"
  shows "atoi (decimal n) = of_nat n"
proof -
  obtain x xs where x: "decimal n = x # xs" using decimal_not_Nil by (cases "decimal n") auto
  then have "digit_of x \<noteq> None" using decimal_digits [of n] by simp
  from digit_no_space [OF this] have "atoi (decimal n) = word_of_int (clamp_long (read_digits 0 (decimal n)))"
    by (simp add: x atoi_def)
  also have "\<dots> = of_nat n" using assms by (simp add: decimal_value clamp_long_def)
  finally show ?thesis .
qed

text \<open>
  The numbers of the program's addresses can be read back: \<open>atoi\<close> of what \<open>%d\<close> printed is the number,
  and the four numbers of an IPv4 address are 172, 16 and the two counters.
\<close>

lemma hashtable_addresses_read_back:
  assumes "i < 2 ^ 31" and "j < 2 ^ 31"
  shows "map atoi (split_by CHR ''.'' (addr_string AF_INET i j)) = [172, 16, of_nat i, of_nat j]"
proof -
  have dot: "CHR ''.'' \<notin> set (decimal n)" for n
    by (rule decimal_no_sep) (simp add: digit_of_def)
  have "addr_string AF_INET i j = ''172'' @ CHR ''.'' # ''16'' @ CHR ''.'' # decimal i @ CHR ''.'' # decimal j"
    by (simp add: addr_string_def)
  then have "split_by CHR ''.'' (addr_string AF_INET i j) = [''172'', ''16'', decimal i, decimal j]"
    using dot by (simp only: split_by_append split_by_none) (simp add: split_by_append split_by_none)
  then show ?thesis using assms by (simp add: atoi_decimal) (simp add: atoi_eval)
qed

lemma hashtable_addresses_read_back_example:
  "map atoi (split_by CHR ''.'' (addr_string AF_INET 50 49)) = [172, 16, 50, 49]"
  using hashtable_addresses_read_back [of 50 49] by simp

section \<open>A whole run\<close>

text \<open>What is used of \<open>getaddrinfo\<close>: it gives addresses of one family.\<close>

definition one_family :: "'w kernel \<Rightarrow> cint \<Rightarrow> bool" where
  "one_family K family \<longleftrightarrow> (\<forall>h p w. r_family (fst (K (Getaddrinfo h p) w)) = family)"

text \<open>
  The actions of a program as a function of the value it returns; one that stops early has
  performed a prefix of them.
\<close>

definition ends :: "'w kernel \<Rightarrow> ('c \<Rightarrow> bool) \<Rightarrow> ('c, 'w, 'a) prog \<Rightarrow> ('a \<Rightarrow> act list) \<Rightarrow> bool" where
  "ends K P m F \<longleftrightarrow>
     (\<forall>s. P (mem s) \<longrightarrow>
        (\<exists>r t tr. m s = Some (r, t) \<and> trace t = trace s @ tr \<and>
           (case r of
              Done a \<Rightarrow> acts tr = F a
            | Exit e \<Rightarrow> e = -1 \<and> (\<exists>a. prefix (acts tr) (F a)) \<and> broke K tr
            | Fault _ \<Rightarrow> False)))"

lemma endsI:
  assumes "\<And>s. P (mem s) \<Longrightarrow> \<exists>r t tr. m s = Some (r, t) \<and> trace t = trace s @ tr \<and>
     (case r of
        Done a \<Rightarrow> acts tr = F a
      | Exit e \<Rightarrow> e = -1 \<and> (\<exists>a. prefix (acts tr) (F a)) \<and> broke K tr
      | Fault _ \<Rightarrow> False)"
  shows "ends K P m F"
  using assms unfolding ends_def by blast

lemma endsE:
  assumes "ends K P m F" and "P (mem s)"
  obtains (Done) a t tr where "m s = Some (Done a, t)" "trace t = trace s @ tr" "acts tr = F a"
    | (Exit) t tr a where "m s = Some (Exit (-1), t)" "trace t = trace s @ tr"
      "prefix (acts tr) (F a)" "broke K tr"
proof -
  obtain r t tr where *: "m s = Some (r, t)" "trace t = trace s @ tr"
    "case r of
        Done a \<Rightarrow> acts tr = F a
      | Exit e \<Rightarrow> e = -1 \<and> (\<exists>a. prefix (acts tr) (F a)) \<and> broke K tr
      | Fault _ \<Rightarrow> False"
    using assms unfolding ends_def by blast
  then show thesis
    using that by (cases r) auto
qed

lemma emits_iff_ends: "emits K P (\<lambda>_. True) m L \<longleftrightarrow> ends K P m (\<lambda>_. L)"
  unfolding emits_def ends_def by (simp cong: result.case_cong)

lemma ends_return: "F v = [] \<Longrightarrow> ends K P (return v) F"
  by (rule endsI) (simp add: run_simps)

lemma ends_if: "(b \<Longrightarrow> ends K P m F) \<Longrightarrow> (\<not> b \<Longrightarrow> ends K P n F) \<Longrightarrow> ends K P (if b then m else n) F"
  by simp

lemma ends_seq:
  assumes m: "emits K P Q m A" and f: "\<And>a. ends K Q (f a) F" and G: "\<And>v. G v = A @ F v"
  shows "ends K P (seq m f) G"
proof (rule endsI)
  fix s :: "('b, 'a) machine"
  assume "P (mem s)"
  with m show "\<exists>r t tr. seq m f s = Some (r, t) \<and> trace t = trace s @ tr \<and>
     (case r of
        Done a \<Rightarrow> acts tr = G a
      | Exit e \<Rightarrow> e = -1 \<and> (\<exists>a. prefix (acts tr) (G a)) \<and> broke K tr
      | Fault _ \<Rightarrow> False)"
  proof (cases rule: emitsE)
    case (Done a t tr)
    note one = Done
    from f [of a] one(3) show ?thesis
    proof (cases rule: endsE)
      case (Done b u tr')
      with one G show ?thesis by (simp add: run_simps)
    next
      case (Exit u tr' b)
      have "prefix (acts (tr @ tr')) (G b)" using one Exit by (simp add: G)
      with one Exit show ?thesis by (auto simp: run_simps)
    qed
  next
    case (Exit t tr)
    then have "prefix (acts tr) (G a)" for a by (simp add: G)
    with Exit show ?thesis by (simp add: run_simps)
  qed
qed

lemma ends_seq_return:
  assumes m: "emits K P Q m A" and "F v = A"
  shows "ends K P (seq m (\<lambda>_. return v)) F"
proof (rule endsI)
  fix s :: "('b, 'a) machine"
  assume "P (mem s)"
  with m show "\<exists>r t tr. seq m (\<lambda>_. return v) s = Some (r, t) \<and> trace t = trace s @ tr \<and>
     (case r of
        Done a \<Rightarrow> acts tr = F a
      | Exit e \<Rightarrow> e = -1 \<and> (\<exists>a. prefix (acts tr) (F a)) \<and> broke K tr
      | Fault _ \<Rightarrow> False)"
    by (cases rule: emitsE) (use assms(2) in \<open>auto simp: run_simps\<close>)
qed

text \<open>A call whose reply is used: what follows may rely on the kernel having given it.\<close>

lemma ends_or_die_seq:
  assumes bad: "\<And>v. bad v \<Longrightarrow> \<not> succeeds c v" and act: "act_of c = []"
    and f: "\<And>w. ends K P (f (fst (K c w))) F"
  shows "ends K P (seq (or_die K c bad msg) f) F"
proof (rule endsI)
  fix s :: "('b, 'a) machine"
  assume P: "P (mem s)"
  let ?s = "s\<lparr>world := snd (K c (world s)), trace := trace s @ [(c, fst (K c (world s)))]\<rparr>"
  show "\<exists>r t tr. seq (or_die K c bad msg) f s = Some (r, t) \<and> trace t = trace s @ tr \<and>
     (case r of
        Done a \<Rightarrow> acts tr = F a
      | Exit e \<Rightarrow> e = -1 \<and> (\<exists>a. prefix (acts tr) (F a)) \<and> broke K tr
      | Fault _ \<Rightarrow> False)"
  proof (cases "bad (r_ret (fst (K c (world s))))")
    case True
    with bad act show ?thesis by (auto simp: run_simps failed_def)
  next
    case False
    have "P (mem ?s)" using P by simp
    from f [of "world s"] this show ?thesis
    proof (cases rule: endsE)
      case (Done a t tr)
      with False act show ?thesis
        by (intro exI [of _ "Done a"] exI [of _ t] exI [of _ "(c, fst (K c (world s))) # tr"])
          (simp add: run_simps)
    next
      case (Exit t tr)
      with False act show ?thesis
        by (intro exI [of _ "Exit (-1)"] exI [of _ t] exI [of _ "(c, fst (K c (world s))) # tr"])
          (auto simp: run_simps)
    qed
  qed
qed

lemmas emits_or_die_seq = ends_or_die_seq [where F = "\<lambda>_. L" for L, folded emits_iff_ends]

lemma addr_fits: "i < 2 ^ 31 \<Longrightarrow> j < 2 ^ 31 \<Longrightarrow> length (addr_string family i j) < 64"
proof -
  assume "i < 2 ^ 31" "j < 2 ^ 31"
  then have "length (decimal i) \<le> Suc 9" "length (decimal j) \<le> Suc 9"
    by (intro decimal_length; simp)+
  then show ?thesis by (auto simp: addr_string_def)
qed

lemma sprintf_addr_return:
  "i < 2 ^ 31 \<Longrightarrow> j < 2 ^ 31 \<Longrightarrow> sprintf_addr family i j = return (addr_string family i j)"
  by (rule ext) (simp add: sprintf_addr_def addr_fits)

lemma emits_create_assoc:
  assumes "one_family K family" and "1 \<le> i" and "i \<le> 50" and "1 \<le> j" and "j \<le> 50"
  shows "emits K (\<lambda>_. True) (\<lambda>_. True) (create_assoc K family port addr i j) []"
proof -
  have sp: "sprintf_addr family i j = return (addr_string family i j)"
    by (rule sprintf_addr_return) (use assms in auto)
  have last: "emits K (\<lambda>_. True) (\<lambda>_. True) (store_fd (i - 1) (j - 1) fd) []" for fd
    using assms by (auto simp: store_fd_def intro: emits_store)
  have rest: "emits K (\<lambda>_. True) (\<lambda>_. True) (block [must K (Bind fd a) (\<lambda>v. v = -1) ''bind'',
      must K (Connect fd addr) (\<lambda>v. v = -1) ''connect'', store_fd (i - 1) (j - 1) fd]) []" for fd a
    by (rule emits_eq, (rule last emits_block_Cons emits_block_Nil emits_must | simp)+)
  have fam: "r_family (fst (K (Getaddrinfo h p) w)) = family" for h p w
    using assms(1) by (simp add: one_family_def)
  have "emits K (\<lambda>_. True) (\<lambda>_. True)
    (seq (or_die K (Socket f SOCK_SEQPACKET IPPROTO_SCTP) (\<lambda>v. v = -1) ''socket'') (\<lambda>r.
       block [must K (Bind (r_ret r) a) (\<lambda>v. v = -1) ''bind'',
         must K (Connect (r_ret r) addr) (\<lambda>v. v = -1) ''connect'',
         store_fd (i - 1) (j - 1) (r_ret r)])) []" for f a
    by (rule emits_or_die_seq [OF _ _ rest]) auto
  then show ?thesis
    unfolding create_assoc_def sp seq_return
    by (intro emits_or_die_seq) (simp_all del: block.simps add: fam)
qed

lemma concat_map_Nil: "concat (map (\<lambda>x. []) xs) = []"
  by (induction xs) auto

lemma emits_create_assocs:
  assumes "one_family K family" and "cnt \<le> 50"
  shows "emits K (\<lambda>_. True) (\<lambda>_. True) (create_assocs K family port addr cnt) []"
proof -
  have "emits K (\<lambda>_. True) (\<lambda>_. True) (create_assocs K family port addr cnt)
    (concat (map (\<lambda>i. concat (map (\<lambda>j. []) [1..<cnt + 1])) [1..<cnt + 1]))"
    unfolding create_assocs_def
    by (intro emits_for emits_create_assoc [OF assms(1)]) (use assms(2) in auto)
  then show ?thesis by (simp add: concat_map_Nil)
qed

lemma emits_send_byte: "emits K P P (send_byte K fd addr) [Sent 1 0 0 0]" if "\<And>m x. P m \<Longrightarrow> P (m\<lparr>ht_total := x\<rparr>)"
  unfolding send_byte_def BUFFERSIZE_def
  by (rule emits_eq, (rule emits_intro | simp add: that)+)

lemma emits_close_all:
  assumes "cnt \<le> 50"
  shows "emits K (\<lambda>_. True) (\<lambda>_. True) (close_all K cnt) (replicate (cnt * cnt) Closed)"
proof -
  have one: "emits K (\<lambda>_. True) (\<lambda>_. True) (seq (load_fd (i - 1) (j - 1)) (\<lambda>fd. run K (Close fd))) [Closed]"
    if "1 \<le> i" "i < cnt + 1" "1 \<le> j" "j < cnt + 1" for i j
  proof -
    have room: "i - 1 < 50 \<and> j - 1 < 50" using that assms by auto
    show ?thesis
      unfolding load_fd_def if_P [OF room] by (rule emits_eq, (rule emits_intro | simp)+)
  qed
  have "emits K (\<lambda>_. True) (\<lambda>_. True) (close_all K cnt)
    (concat (map (\<lambda>i. concat (map (\<lambda>j. [Closed]) [1..<cnt + 1])) [1..<cnt + 1]))"
    unfolding close_all_def by (intro emits_for one)
  then show ?thesis
    by (simp del: upt_Suc add: map_replicate_const concat_replicate_replicate)
qed

abbreviation traffic_ht :: "act list" where
  "traffic_ht \<equiv> replicate 100000 (Sent 1 0 0 0)"

lemma emits_traffic: "emits K (\<lambda>_. True) (\<lambda>_. True) (repeat_loop LOOPS (send_byte K fd addr)) traffic_ht"
  unfolding LOOPS_def
  by (rule emits_eq, rule emits_repeat [OF emits_send_byte]) simp_all

lemma emits_cleanup_ht:
  assumes "cnt \<le> 50"
  shows "emits K (\<lambda>_. True) (\<lambda>_. True) (block [close_all K cnt, run K (Close fd), run K (Sleep 30)])
    (replicate (cnt * cnt) Closed @ [Closed, Slept 30])"
proof -
  have close: "emits K (\<lambda>_. True) (\<lambda>_. True) (run K (Close fd)) [Closed]"
    and sleep: "emits K (\<lambda>_. True) (\<lambda>_. True) (run K (Sleep 30)) [Slept 30]"
    by (rule emits_run, simp)+
  show ?thesis
    by (rule emits_eq, rule emits_block_Cons [OF emits_close_all [OF assms]
        emits_block_Cons [OF close emits_block_Cons [OF sleep emits_block_Nil]]]) simp
qed

text \<open>The measurement returns 1 before it closes anything.\<close>

abbreviation script_ht :: "nat \<Rightarrow> cint \<Rightarrow> act list" where
  "script_ht cnt v \<equiv>
     traffic_ht @ (if v = 0 then replicate (cnt * cnt) Closed @ [Closed, Slept 30] else [])"

lemma ends_measure:
  assumes "cnt \<le> 50"
  shows "ends K (\<lambda>_. True) (measure_ht K fd addr cnt) (script_ht cnt)"
proof -
  let ?F = "\<lambda>v :: cint. if v = 0 then replicate (cnt * cnt) Closed @ [Closed, Slept 30] else []"
  have clean: "ends K (\<lambda>_. True)
      (seq (block [close_all K cnt, run K (Close fd), run K (Sleep 30)]) (\<lambda>_. return 0)) ?F"
    by (rule ends_seq_return [OF emits_cleanup_ht [OF assms]]) simp
  have late: "ends K (\<lambda>_. True) (seq (run K (Printf c vs)) (\<lambda>_. return 1)) ?F" for c vs
    by (rule ends_seq_return [OF emits_run]) simp_all
  show ?thesis
    unfolding measure_ht_def
    by (rule ends_seq [OF emits_sys] ends_seq [OF emits_traffic] ends_seq [OF emits_load_any]
          ends_seq [OF emits_run] ends_if late clean | simp del: block.simps)+
qed

lemma emits_connect_all:
  assumes "one_family K family" and "cnt \<le> 50"
  shows "emits K (\<lambda>_. True) (\<lambda>_. True) (block [
      must K (Bind fd a) (\<lambda>v. v = -1) ''bind'', must K (Connect fd b) (\<lambda>v. v = -1) ''connect'',
      create_assocs K family port b cnt]) []"
  by (rule emits_eq, (rule emits_create_assocs [OF assms] emits_block_Cons emits_block_Nil emits_must | simp)+)

lemma ends_main:
  assumes "one_family K family" and "length argv = 5"
    and "nat (sint (atoi (argv ! 4))) = cnt" and "cnt \<le> 50"
  shows "ends K (\<lambda>_. True) (main_ht K argv) (script_ht cnt)"
proof -
  have fam: "r_family (fst (K (Getaddrinfo h p) w)) = family" for h p w
    using assms(1) by (simp add: one_family_def)
  have sp: "sprintf_addr family 253 253 = return (addr_string family 253 253)"
    by (rule sprintf_addr_return) simp_all
  have body: "ends K (\<lambda>_. True) (seq (block [
      must K (Bind fd a) (\<lambda>v. v = -1) ''bind'', must K (Connect fd b) (\<lambda>v. v = -1) ''connect'',
      create_assocs K family port b cnt]) (\<lambda>_. measure_ht K fd b cnt)) (script_ht cnt)" for fd a b port
    by (rule ends_seq [OF emits_connect_all [OF assms(1,4)] ends_measure [OF assms(4)]]) simp
  show ?thesis
    unfolding main_ht_def Let_def assms(3)
    by (simp only: assms(2) simp_thms if_False)
      (rule ends_seq [OF emits_store_keep] ends_or_die_seq body | simp del: block.simps add: fam sp)+
qed


section \<open>Too many associations\<close>

lemma quiet_kernel_one_family [simp]: "one_family quiet_kernel AF_INET"
  by (simp add: one_family_def quiet_kernel_def)

lemma hashtable_addresses_witness:
  "length (addr_string AF_INET 50 50) + 1 \<le> 64 \<and> addr_string AF_INET 1 11 \<noteq> addr_string AF_INET 11 1"
  using hashtable_addresses [of AF_INET 50 50 50 50] hashtable_addresses [of AF_INET 1 11 11 1] by simp


text \<open>On such a kernel a call of \<open>or_die\<close> is the call alone, and a pass of the loops stores a socket.\<close>

definition after :: "'w kernel \<Rightarrow> call \<Rightarrow> ('c, 'w) machine \<Rightarrow> ('c, 'w) machine" where
  "after K c s = s\<lparr>world := snd (K c (world s)), trace := trace s @ [(c, fst (K c (world s)))]\<rparr>"

lemma or_die_ok:
  assumes "all_succeed K" and "\<And>v. bad v \<Longrightarrow> \<not> succeeds c v"
  shows "seq (or_die K c bad msg) f s = f (fst (K c (world s))) (after K c s)"
    and "seq (must K c bad msg) g s = g () (after K c s)"
proof -
  have "\<not> bad (r_ret (fst (K c w)))" for w
    using assms by (auto simp: all_succeed_def)
  then show "seq (or_die K c bad msg) f s = f (fst (K c (world s))) (after K c s)"
    and "seq (must K c bad msg) g s = g () (after K c s)"
    by (simp_all add: run_simps after_def)
qed

lemma minus_one_fails: "v = -1 \<Longrightarrow> \<not> succeeds (Socket d t p) v"
  "v = -1 \<Longrightarrow> \<not> succeeds (Bind fd a) v" "v = -1 \<Longrightarrow> \<not> succeeds (Connect fd a) v"
  by simp_all

lemmas minus_one_ok = or_die_ok(1) [OF _ minus_one_fails(1)] or_die_ok(2) [OF _ minus_one_fails(2)]
  or_die_ok(2) [OF _ minus_one_fails(3)]

lemma create_assoc_runs:
  assumes "all_succeed K" and "one_family K family" and "i < 2 ^ 31" and "j < 2 ^ 31"
  shows "\<exists>t fd. create_assoc K family port addr i j s = store_fd (i - 1) (j - 1) fd t"
proof -
  have fam: "r_family (fst (K (Getaddrinfo h p) w)) = family" for h p w
    using assms(2) by (simp add: one_family_def)
  have one: "block [m] s = m s" for m :: "('a, unit) ht" and s
    by (simp add: run_simps split: option.split result.split)
  show ?thesis
    unfolding create_assoc_def sprintf_addr_return [OF assms(3,4)] seq_return
    by (simp add: or_die_ok(1) [OF assms(1), of "\<lambda>v. v \<noteq> 0"] minus_one_ok [OF assms(1)] fam block.simps(2) [of "must K c b v" for c b v] one
        del: block.simps) blast
qed

text \<open>A row of the loops: the first fifty columns are stored, the next is outside the table.\<close>

lemma block_reaches_fault:
  assumes "\<And>m s. m \<in> set ms \<Longrightarrow> \<exists>t. m s = Some (Done (), t)" and "\<And>s. \<exists>t. n s = Some (Fault x, t)"
  shows "\<exists>t. block (ms @ n # ns) s = Some (Fault x, t)"
  using assms(1)
proof (induction ms arbitrary: s)
  case Nil
  from assms(2) [of s] show ?case by (auto simp: run_simps)
next
  case (Cons m ms)
  from Cons.prems [of m s] obtain t where "m s = Some (Done (), t)" by auto
  moreover from Cons.IH [of t] Cons.prems obtain u where
    "block (ms @ n # ns) t = Some (Fault x, u)" by auto
  ultimately show ?case by (simp add: seq_Done)
qed

lemma create_assocs_overflows:
  assumes "all_succeed K" and "one_family K family" and "50 < cnt"
  shows "\<exists>t. create_assocs K family port addr cnt s = Some (Fault Out_of_bounds, t)"
proof -
  have fine: "\<exists>t. create_assoc K family port addr 1 j s = Some (Done (), t)" if "1 \<le> j" "j \<le> 50" for j s
    using create_assoc_runs [OF assms(1,2), of 1 j port addr s] that
    by (auto simp: store_fd_def run_simps)
  have outside: "\<exists>t. create_assoc K family port addr 1 51 s = Some (Fault Out_of_bounds, t)" for s
    using create_assoc_runs [OF assms(1,2), of 1 51 port addr s]
    by (auto simp: store_fd_def run_simps)
  have columns: "[1..<cnt + 1] = [1..<51] @ 51 # [52..<cnt + 1]"
    using upt_add_eq_append [of 1 51 "cnt - 50"] upt_conv_Cons [of 51 "cnt + 1"] assms(3) by simp
  have row: "\<exists>t. for_loop 1 (cnt + 1) (create_assoc K family port addr 1) s = Some (Fault Out_of_bounds, t)" for s
    unfolding for_loop_def columns list.map map_append
    by (rule block_reaches_fault) (use fine outside in auto)
  have rows: "[1..<cnt + 1] = 1 # [2..<cnt + 1]"
    using upt_conv_Cons [of 1 "cnt + 1"] assms(3) by (simp del: upt_Suc add: numeral_2_eq_2)
  obtain t where "for_loop 1 (cnt + 1) (create_assoc K family port addr 1) s = Some (Fault Out_of_bounds, t)"
    using row by blast
  then have "for_loop 1 (cnt + 1) (\<lambda>i. for_loop 1 (cnt + 1) (create_assoc K family port addr i)) s =
      Some (Fault Out_of_bounds, t)"
    by (subst for_loop_def) (simp only: rows list.map block.simps seq_run option.case prod.case result.case)
  then show ?thesis unfolding create_assocs_def by blast
qed

text \<open>
  C34: asked for more than 50 associations per network on a kernel on which no call fails, the client
  writes past the end of a row of its table of sockets.
\<close>

theorem hashtable_overflows:
  fixes K :: "'a kernel"
  assumes "all_succeed K" and "one_family K family" and "length argv = 5"
    and "50 < sint (atoi (argv ! 4))"
  shows "\<exists>t. main_ht K argv s = Some (Fault Out_of_bounds, t)"
proof -
  have fam: "r_family (fst (K (Getaddrinfo h p) w)) = family" for h p w
    using assms(2) by (simp add: one_family_def)
  have sp: "sprintf_addr family 253 253 = return (addr_string family 253 253)"
    by (rule sprintf_addr_return) simp_all
  have many: "50 < nat (sint (atoi (argv ! 4)))" using assms(4) by simp
  have stop: "\<exists>t. seq (create_assocs K family p a (nat (sint (atoi (argv ! 4))))) f s =
      Some (Fault Out_of_bounds, t)" for p a s and f :: "unit \<Rightarrow> ('a, cint) ht"
    using create_assocs_overflows [OF assms(1,2) many, of p a s] by (auto simp: run_simps)
  show ?thesis
    unfolding main_ht_def Let_def block.simps seq_assoc
    by (simp add: assms(3) seq_Done [OF store_run] or_die_ok(1) [OF assms(1), of "\<lambda>v. v \<noteq> 0"] minus_one_ok [OF assms(1)] fam sp stop)
qed

lemma hashtable_overflows_witness:
  "\<exists>t. main_ht quiet_kernel [''client'', ''10.0.0.1'', ''5000'', ''6000'', ''51'']
    \<lparr>mem = start_ht, world = (), trace = []\<rparr> = Some (Fault Out_of_bounds, t)"
  using hashtable_overflows [OF quiet_kernel_all_succeed quiet_kernel_one_family, of
      "[''client'', ''10.0.0.1'', ''5000'', ''6000'', ''51'']"]
  by (simp add: atoi_eval)

end
