(* ===== verification/Peeloff.thy ===== *)
theory Peeloff
  imports C_Logic
begin

text \<open>
  \<open>testcase/regression/peeloffbusy/client.c\<close>: a thread peels the association off its socket while
  the main thread sends on it behind a firewall rule that drops all data. The test passes when a
  message fails with \<open>EPIPE\<close>. The memory holds the variables the statements of a thread hand on to
  one another: \<open>pass\<close> of \<open>main\<close>, \<open>associd\<close> and \<open>newsd\<close> of the thread.
\<close>

record pl_memory =
  pl_pass :: cint
  pl_associd :: cint
  pl_newsd :: cint

type_synonym ('w, 'a) pl = "(pl_memory, 'w, 'a) prog"

definition EPIPE :: cint where "EPIPE = 32"

definition start_pl :: pl_memory where
  "start_pl = \<lparr>pl_pass = 0, pl_associd = 0, pl_newsd = 0\<rparr>"

section \<open>The thread\<close>

definition get_asoc_id_pl :: "'w kernel \<Rightarrow> cint \<Rightarrow> ('w, cint) pl" where
  "get_asoc_id_pl K fd =
     seq (sys K (Getsockopt fd SCTP_GET_ASSOC_ID_LIST)) (\<lambda>r.
       if r_ret r = -1 then seq (run K (Perror ''getsockopt'')) (\<lambda>_. return 0)
       else return (r_val r))"

text \<open>A statement that \<open>goto out\<close> skips when there is no association.\<close>

definition unless_out :: "('w, unit) pl \<Rightarrow> ('w, unit) pl" where
  "unless_out m = seq load (\<lambda>mem. if pl_associd mem = 0 then return () else m)"

definition peeloff_sctp :: "'w kernel \<Rightarrow> cint \<Rightarrow> ('w, unit) pl list" where
  \<comment> \<open>the statements of the thread, each of them atomic\<close>
  "peeloff_sctp K sctpsd =
     [seq (get_asoc_id_pl K sctpsd) (\<lambda>id. store (\<lambda>m. m\<lparr>pl_associd := id\<rparr>)),
      seq load (\<lambda>m. run K (Printf ''sd is %d, %d'' [to_long sctpsd, to_long (pl_associd m)])),
      unless_out (run K (Sleep 5)),
      unless_out (seq load (\<lambda>m.
        seq (sys K (Peel_off sctpsd (pl_associd m))) (\<lambda>r. store (\<lambda>m. m\<lparr>pl_newsd := r_ret r\<rparr>)))),
      unless_out (seq load (\<lambda>m. run K (Printf ''new sd %d'' [to_long (pl_newsd m)]))),
      unless_out (seq load (\<lambda>m.
        if pl_newsd m = -1 then run K (Perror ''getsockopt'') else return ())),
      run K (Shell ''iptables -F'')]"

section \<open>The main thread\<close>

text \<open>
  One round of the loop of 100: after a \<open>break\<close> the others do nothing. \<open>errno\<close> is looked at whether or not
  the message was sent.
\<close>

definition send_busy :: "'w kernel \<Rightarrow> cint \<Rightarrow> bytes \<Rightarrow> ('w, unit) pl" where
  "send_busy K sctpsd servaddr =
     seq load (\<lambda>m.
       if pl_pass m \<noteq> 0 then return ()
       else
         seq (sys K (Sendmsg sctpsd 1024 servaddr 0 0 0 0 0)) (\<lambda>r.
           if r_errno r = EPIPE then store (\<lambda>m. m\<lparr>pl_pass := 1\<rparr>) else return ()))"

definition main_thread :: "'w kernel \<Rightarrow> cint \<Rightarrow> bytes \<Rightarrow> ('w, unit) pl list" where
  "main_thread K sctpsd servaddr =
     run K (Shell ''iptables -A OUTPUT -p sctp --chunk-types any DATA -j DROP'') #
     replicate 100 (send_busy K sctpsd servaddr)"

text \<open>
  From \<open>connect\<close> to the end of \<open>main\<close>. \<open>sched\<close> is the order in which the statements of the threads run.
\<close>

definition busy_association :: "'w kernel \<Rightarrow> bool list \<Rightarrow> cint \<Rightarrow> bytes \<Rightarrow> ('w, cint) pl" where
  "busy_association K sched sctpsd servaddr =
     seq (sys K (Connect sctpsd servaddr)) (\<lambda>r.
     seq (if r_ret r = -1 then run K (Perror ''connect'')
          else block [
            run K Thread_create,
            in_parallel sched (main_thread K sctpsd servaddr) (peeloff_sctp K sctpsd),
            run K Thread_join]) (\<lambda>_.
     seq (run K (Close sctpsd)) (\<lambda>_.
     seq load (\<lambda>m. return (if pl_pass m = 0 then 1 else 0)))))"

text \<open>
  \<open>argv\<close> is not checked: without \<open>argv[1]\<close>, \<open>argv[2]\<close> is past its end; without \<open>argv[2]\<close> the null pointer is
  handed to \<open>getaddrinfo\<close>, which takes it for no service, and to \<open>printf\<close>. The 16 bytes of
  \<open>servaddr\<close> hold an IPv4 address; a longer one overflows them.
\<close>

definition main_pl :: "'w kernel \<Rightarrow> bool list \<Rightarrow> string list \<Rightarrow> ('w, cint) pl" where
  "main_pl K sched argv =
     seq (block [store (\<lambda>_. start_pl), run K Ignore_sigpipe]) (\<lambda>_.
     if length argv < 2 then crash Out_of_bounds
     else
       seq (sys K (Getaddrinfo (argv ! 1) (if length argv = 2 then [] else argv ! 2))) (\<lambda>remote.
       if r_ret remote \<noteq> 0 then seq (run K (Perror ''getaddrinfo'')) (\<lambda>_. return 1)
       else if 16 < length (r_addr remote) then crash Out_of_bounds
       else if length argv = 2 then crash Null_string
       else
         seq (run K (Printf ''Starting SCTP client connection to %s:%s'' [])) (\<lambda>_.
         seq (sys K (Socket AF_INET SOCK_SEQPACKET IPPROTO_SCTP)) (\<lambda>r.
           busy_association K sched (r_ret r) (r_addr remote)))))"

end
