(* ===== verification/Peeloff_Props.thy ===== *)
theory Peeloff_Props
  imports Peeloff
begin

text \<open>
  The client of the peel-off test under every schedule of its two threads: given an address of IPv4 and a
  port it always returns, and passes exactly when a message fails with \<open>EPIPE\<close>, the last it sends; the
  firewall it leaves behind depends on which thread runs its shell command first; and what it leaves undefined
  is what it does with arguments it was not given and with longer addresses.
\<close>

section \<open>Messages and their errors\<close>

fun is_send :: "call \<Rightarrow> bool" where
  "is_send (Sendmsg fd len to ppid fl sid ttl ctx) = True"
| "is_send _ = False"

definition sends :: "(call \<times> reply) list \<Rightarrow> cint list" where
  \<comment> \<open>the value of \<open>errno\<close> after each message sent\<close>
  "sends tr = map (r_errno \<circ> snd) (filter (is_send \<circ> fst) tr)"

lemma sends_simps [simp]:
  "sends [] = []"
  "sends (x # tr) = (if is_send (fst x) then [r_errno (snd x)] else []) @ sends tr"
  "sends (tr @ tr') = sends tr @ sends tr'"
  by (simp_all add: sends_def)

section \<open>What a statement does\<close>

text \<open>
  A statement always ends. It runs the shell commands \<open>S\<close> and sends at most \<open>n\<close> messages; nothing is sent
  once \<open>pass\<close> is set, and it is set by a message that fails with \<open>EPIPE\<close>, the last one sent.
\<close>

definition passes_by :: "bool \<Rightarrow> cint list \<Rightarrow> bool \<Rightarrow> bool" where
  "passes_by before errs later \<longleftrightarrow>
     (later \<longleftrightarrow> before \<or> EPIPE \<in> set errs) \<and> (before \<longrightarrow> errs = []) \<and> EPIPE \<notin> set (butlast errs)"

lemma passes_by_append:
  "passes_by a es b \<Longrightarrow> passes_by b es' c \<Longrightarrow> passes_by a (es @ es') c"
  by (cases "es' = []") (auto simp: passes_by_def butlast_append dest: in_set_butlastD)

abbreviation passed :: "(pl_memory, 'w) machine \<Rightarrow> bool" where
  "passed s \<equiv> pl_pass (mem s) \<noteq> 0"

definition does :: "('w, unit) pl \<Rightarrow> string list \<times> nat \<Rightarrow> bool" where
  "does m x \<longleftrightarrow>
     (\<forall>s. \<exists>t tr. m s = Some (Done (), t) \<and> trace t = trace s @ tr \<and> shell_of (acts tr) = fst x \<and>
        length (sends tr) \<le> snd x \<and> passes_by (passed s) (sends tr) (passed t))"

lemma doesI:
  assumes "\<And>s. \<exists>t tr. m s = Some (Done (), t) \<and> trace t = trace s @ tr \<and> shell_of (acts tr) = S \<and>
     length (sends tr) \<le> n \<and> passes_by (passed s) (sends tr) (passed t)"
  shows "does m (S, n)"
  using assms by (simp add: does_def)

lemma doesE:
  assumes "does m x"
  obtains t tr where "m s = Some (Done (), t)" "trace t = trace s @ tr" "shell_of (acts tr) = fst x"
    "length (sends tr) \<le> snd x" "passes_by (passed s) (sends tr) (passed t)"
  using assms unfolding does_def by blast

lemma does_block:
  "list_all2 does ms xs \<Longrightarrow> does (block ms) (concat (map fst xs), sum_list (map snd xs))"
proof (induction rule: list_all2_induct)
  case Nil
  show ?case by (rule doesI) (simp add: run_simps passes_by_def)
next
  case (Cons m ms x xs)
  show ?case
  proof (rule doesI)
    fix s :: "(pl_memory, 'a) machine"
    obtain t tr where 1: "m s = Some (Done (), t)" "trace t = trace s @ tr" "shell_of (acts tr) = fst x"
      "length (sends tr) \<le> snd x" "passes_by (passed s) (sends tr) (passed t)"
      using Cons(1) by (rule doesE)
    obtain u tr' where 2: "block ms t = Some (Done (), u)" "trace u = trace t @ tr'"
      "shell_of (acts tr') = concat (map fst xs)" "length (sends tr') \<le> sum_list (map snd xs)"
      "passes_by (passed t) (sends tr') (passed u)"
      using Cons(3) by (rule doesE) simp_all
    from 1 2 passes_by_append [OF 1(5) 2(5)]
    show "\<exists>u tr. block (m # ms) s = Some (Done (), u) \<and> trace u = trace s @ tr \<and>
      shell_of (acts tr) = concat (map fst (x # xs)) \<and>
      length (sends tr) \<le> sum_list (map snd (x # xs)) \<and> passes_by (passed s) (sends tr) (passed u)"
      by (intro exI [of _ u] exI [of _ "tr @ tr'"]) (simp add: seq_Done)
  qed
qed

lemma sum_interleave: "sum_list (interleave sched xs ys) = sum_list xs + (sum_list ys :: nat)"
  by (induction sched xs ys rule: interleave.induct) auto

lemma map_interleave: "map f (interleave sched xs ys) = interleave sched (map f xs) (map f ys)"
  by (induction sched xs ys rule: interleave.induct) auto

lemma concat_interleave_Nils:
  "concat (interleave sched (replicate n []) ys) = concat (ys :: 'b list list)"
proof (induction sched arbitrary: n ys)
  case Nil
  then show ?case by (induction n) auto
next
  case (Cons d sched)
  show ?case
  proof (cases n)
    case (Suc m)
    from Suc Cons.IH [of "Suc m"] Cons.IH [of m ys] show ?thesis by (cases ys) auto
  qed (cases ys; simp)
qed

text \<open>The command at the end of the one thread runs before that at the start of the other only if all of
  the thread runs first.\<close>

lemma concat_interleave_marks:
  "concat (interleave sched ([a] # replicate n []) (replicate k [] @ [[b]])) =
     (if prefix (replicate (Suc k) False) sched then [b, a] else [a, b])"
proof (induction sched arbitrary: k)
  case Nil
  then show ?case by simp
next
  case (Cons d sched)
  show ?case
  proof (cases d)
    case True
    then show ?thesis by (cases k) (simp_all add: concat_interleave_Nils)
  next
    case False
    then show ?thesis
    proof (cases k)
      case 0
      with False show ?thesis by (cases sched) auto
    next
      case (Suc k')
      with False Cons.IH [of k'] show ?thesis by simp
    qed
  qed
qed

section \<open>The statements of the program\<close>

lemmas thread_defs = get_asoc_id_pl_def unless_out_def send_busy_def

lemma does_shell: "does (run K (Shell c)) ([c], 0)"
  by (rule doesI) (simp add: run_simps passes_by_def)

lemma does_send_busy: "does (send_busy K fd addr) ([], 1)"
  by (rule doesI) (auto simp: thread_defs run_simps passes_by_def)

lemma does_main_thread:
  "list_all2 does (main_thread K fd addr)
     (([''iptables -A OUTPUT -p sctp --chunk-types any DATA -j DROP''], 0) # replicate 100 ([], 1))"
proof -
  have "list_all2 does (replicate n (send_busy K fd addr)) (replicate n ([], 1))" for n
    using does_send_busy by (induction n) auto
  with does_shell show ?thesis unfolding main_thread_def by (intro list_all2_Cons [THEN iffD2] conjI)
qed

lemma does_peeloff_sctp:
  "list_all2 does (peeloff_sctp K fd) (replicate 6 ([], 0) @ [([''iptables -F''], 0)])"
proof -
  have six: "replicate 6 (x :: string list \<times> nat) = [x, x, x, x, x, x]" for x
    by (simp add: eval_nat_numeral)
  show ?thesis
    unfolding peeloff_sctp_def six append.simps list_all2_Cons
    by (intro conjI does_shell list_all2_Nil [THEN iffD2])
      (rule doesI, auto simp: thread_defs run_simps passes_by_def)+
qed

section \<open>The two threads together\<close>

abbreviation add_rule :: string where
  "add_rule \<equiv> ''iptables -A OUTPUT -p sctp --chunk-types any DATA -j DROP''"

text \<open>The whole thread runs before the rule is added.\<close>

definition flushed_too_early :: "bool list \<Rightarrow> bool" where
  "flushed_too_early sched \<longleftrightarrow> prefix (replicate 7 False) sched"

lemma does_both:
  "does (block [run K Thread_create, in_parallel sched (main_thread K fd addr) (peeloff_sctp K fd),
       run K Thread_join])
     (if flushed_too_early sched then [''iptables -F'', add_rule] else [add_rule, ''iptables -F''], 100)"
proof -
  let ?xs = "([add_rule], 0) # replicate 100 ([], 1)"
  let ?ys = "replicate 6 ([], 0) @ [([''iptables -F''], 0)]"
  have quiet: "does (run K Thread_create) ([], 0)" "does (run K Thread_join) ([], 0)"
    by (rule doesI, simp add: run_simps passes_by_def)+
  have marks: "concat (map fst (interleave sched ?xs ?ys)) =
      (if flushed_too_early sched then [''iptables -F'', add_rule] else [add_rule, ''iptables -F''])"
    using concat_interleave_marks [of sched add_rule 100 6 "''iptables -F''"]
    by (simp add: map_interleave flushed_too_early_def)
  have count: "sum_list (map snd (interleave sched ?xs ?ys)) = (100 :: nat)"
    by (simp add: map_interleave sum_interleave sum_list_replicate)
  have "does (in_parallel sched (main_thread K fd addr) (peeloff_sctp K fd))
      (if flushed_too_early sched then [''iptables -F'', add_rule] else [add_rule, ''iptables -F''], 100)"
    using does_block [OF list_all2_interleave [OF does_main_thread [of K fd addr]
        does_peeloff_sctp [of K fd], of sched]]
    by (simp only: in_parallel_def marks count)
  then have "list_all2 does [run K Thread_create,
      in_parallel sched (main_thread K fd addr) (peeloff_sctp K fd), run K Thread_join]
    [([], 0), (if flushed_too_early sched then [''iptables -F'', add_rule]
       else [add_rule, ''iptables -F''], 100), ([], 0)]"
    using quiet by simp
  from does_block [OF this] show ?thesis by simp
qed

text \<open>The addresses are IPv4 addresses.\<close>

definition short_addresses :: "'w kernel \<Rightarrow> bool" where
  "short_addresses K \<longleftrightarrow> (\<forall>h p w. length (r_addr (fst (K (Getaddrinfo h p) w))) \<le> 16)"

text \<open>What a run does, and how its value follows from it.\<close>

definition good_run :: "bool list \<Rightarrow> (call \<times> reply) list \<Rightarrow> cint \<Rightarrow> bool" where
  "good_run sched tr v \<longleftrightarrow>
     v = (if EPIPE \<in> set (sends tr) then 0 else 1) \<and>
     length (sends tr) \<le> 100 \<and> EPIPE \<notin> set (butlast (sends tr)) \<and>
     (if shell_of (acts tr) = [] then sends tr = []
      else shell_of (acts tr) =
        (if flushed_too_early sched then [''iptables -F'', add_rule] else [add_rule, ''iptables -F'']))"

lemma busy_association_runs:
  assumes "\<not> passed s"
  shows "\<exists>v t tr. busy_association K sched fd addr s = Some (Done v, t) \<and> trace t = trace s @ tr \<and>
    good_run sched tr v \<and> (all_succeed K \<longrightarrow> shell_of (acts tr) \<noteq> [])"
proof -
  let ?c = "Connect fd addr"
  let ?s = "s\<lparr>world := snd (K ?c (world s)), trace := trace s @ [(?c, fst (K ?c (world s)))]\<rparr>"
  show ?thesis
  proof (cases "r_ret (fst (K ?c (world s))) = -1")
    case True
    have "\<not> all_succeed K"
    proof
      assume "all_succeed K"
      then have "succeeds ?c (r_ret (fst (K ?c (world s))))" by (simp only: all_succeed_def)
      with True show False by simp
    qed
    with True assms show ?thesis
      by (auto simp: busy_association_def run_simps good_run_def)
  next
    case False
    let ?m = "block [run K Thread_create,
      in_parallel sched (main_thread K fd addr) (peeloff_sctp K fd), run K Thread_join]"
    obtain t tr where t: "?m ?s = Some (Done (), t)" "trace t = trace ?s @ tr"
      "shell_of (acts tr) =
        (if flushed_too_early sched then [''iptables -F'', add_rule] else [add_rule, ''iptables -F''])"
      "length (sends tr) \<le> 100" "passes_by (passed ?s) (sends tr) (passed t)"
      using does_both [of K sched fd addr] unfolding does_def fst_conv snd_conv by blast
    have "busy_association K sched fd addr s =
        seq ?m (\<lambda>_. seq (run K (Close fd)) (\<lambda>_. seq load (\<lambda>m. return (if pl_pass m = 0 then 1 else 0)))) ?s"
      using False by (simp add: busy_association_def seq_run [of "sys K ?c"] sys_run del: block.simps)
    also have "\<dots> = (seq (run K (Close fd)) (\<lambda>_. seq load (\<lambda>m. return (if pl_pass m = 0 then 1 else 0)))) t"
      using t(1) by (rule seq_Done)
    finally show ?thesis
      using t(2-5) assms by (auto simp: run_simps good_run_def passes_by_def)
  qed
qed

text \<open>The reply to the only call that resolves the address.\<close>

definition resolution :: "'w kernel \<Rightarrow> string list \<Rightarrow> 'w \<Rightarrow> reply" where
  "resolution K argv w =
     fst (K (Getaddrinfo (argv ! 1) (if length argv = 2 then [] else argv ! 2)) (snd (K Ignore_sigpipe w)))"

lemma main_pl_resolved:
  assumes "3 \<le> length argv"
    and "r_ret (resolution K argv (world s)) = 0 \<Longrightarrow> length (r_addr (resolution K argv (world s))) \<le> 16"
  shows "\<exists>v t tr. main_pl K sched argv s = Some (Done v, t) \<and> trace t = trace s @ tr \<and>
    good_run sched tr v \<and> (all_succeed K \<longrightarrow> shell_of (acts tr) \<noteq> [])"
proof -
  define u where "u = s\<lparr>mem := start_pl, world := snd (K Ignore_sigpipe (world s)),
    trace := trace s @ [(Ignore_sigpipe, fst (K Ignore_sigpipe (world s)))]\<rparr>"
  let ?g = "Getaddrinfo (argv ! 1) (argv ! 2)"
  have reply: "resolution K argv (world s) = fst (K ?g (world u))"
    using assms(1) by (simp add: resolution_def u_def)
  show ?thesis
  proof (cases "r_ret (fst (K ?g (world u))) = 0")
    case False
    then have "\<not> all_succeed K"
      unfolding all_succeed_def by (metis succeeds.simps(1))
    with False assms(1) show ?thesis
      by (auto simp: main_pl_def run_simps u_def good_run_def)
  next
    case True
    with assms(2) have short: "\<not> 16 < length (r_addr (fst (K ?g (world u))))"
      unfolding reply by simp
    obtain s' fd a tr where s': "main_pl K sched argv s = busy_association K sched fd a s'"
      "trace s' = trace s @ tr" "\<not> passed s'" "acts tr = []" "sends tr = []"
      using True assms(1) short by (auto simp: main_pl_def run_simps u_def start_pl_def)
    obtain v t tr' where "busy_association K sched fd a s' = Some (Done v, t)"
      "trace t = trace s' @ tr'" "good_run sched tr' v"
      "all_succeed K \<longrightarrow> shell_of (acts tr') \<noteq> []"
      using busy_association_runs [OF s'(3)] by blast
    with s' show ?thesis
      by (intro exI [of _ v] exI [of _ t] exI [of _ "tr @ tr'"]) (simp add: good_run_def)
  qed
qed

lemma main_pl_runs:
  assumes "short_addresses K" and "3 \<le> length argv"
  shows "\<exists>v t tr. main_pl K sched argv s = Some (Done v, t) \<and> trace t = trace s @ tr \<and>
    good_run sched tr v \<and> (all_succeed K \<longrightarrow> shell_of (acts tr) \<noteq> [])"
  by (rule main_pl_resolved) (use assms in \<open>auto simp: short_addresses_def resolution_def\<close>)

text \<open>The runs that the arguments or the address cut short.\<close>

lemma main_pl_cut_short:
  assumes "length argv < 3 \<or> r_ret (resolution K argv (world s)) = 0 \<and>
      16 < length (r_addr (resolution K argv (world s)))"
  shows "\<exists>r t tr. main_pl K sched argv s = Some (r, t) \<and> trace t = trace s @ tr \<and>
    shell_of (acts tr) = [] \<and> opened tr = [] \<and> sends tr = [] \<and>
    ((\<exists>x. r = Fault x) \<longleftrightarrow> length argv < 2 \<or> r_ret (resolution K argv (world s)) = 0) \<and> (\<forall>e. r \<noteq> Exit e)"
proof -
  consider "length argv < 2" | "length argv = 2"
    | "2 < length argv" "r_ret (resolution K argv (world s)) = 0" "16 < length (r_addr (resolution K argv (world s)))"
    using assms by linarith
  then show ?thesis
    by cases (simp_all add: main_pl_def run_simps resolution_def)
qed

section \<open>The verdict and the firewall\<close>

text \<open>
  C15: for IPv4 addresses, given an address and a port, whatever else the kernel does and in whatever order the statements of the two threads
  run, the program returns: it sends at most 100 messages, its value is 0 exactly when one of them left
  \<open>EPIPE\<close> in \<open>errno\<close>, and that is the last one sent.
\<close>

theorem peeloff_passes_iff_epipe:
  assumes "short_addresses K" and "3 \<le> length argv"
  shows "\<exists>v t tr. main_pl K sched argv s = Some (Done v, t) \<and> trace t = trace s @ tr \<and>
    v = (if EPIPE \<in> set (sends tr) then 0 else 1) \<and>
    length (sends tr) \<le> 100 \<and> EPIPE \<notin> set (butlast (sends tr))"
  using main_pl_runs [OF assms, of sched s] unfolding good_run_def by blast

text \<open>A kernel on which every call succeeds but each leaves \<open>EPIPE\<close> in \<open>errno\<close>.\<close>

definition peer_gone :: "unit kernel" where
  "peer_gone c w = ((fst (quiet_kernel c w))\<lparr>r_errno := EPIPE, r_val := 7\<rparr>, w)"

lemma peer_gone_short [simp]: "short_addresses peer_gone"
  by (simp add: short_addresses_def peer_gone_def quiet_kernel_def)

theorem peeloff_passes_iff_epipe_witness:
  "\<exists>v t tr. main_pl peer_gone [True, False, True] [''client'', ''10.0.0.1'', ''8888'']
      \<lparr>mem = start_pl, world = (), trace = []\<rparr> = Some (Done v, t) \<and> trace t = tr \<and>
    v = (if EPIPE \<in> set (sends tr) then 0 else 1) \<and>
    length (sends tr) \<le> 100 \<and> EPIPE \<notin> set (butlast (sends tr))"
  using peeloff_passes_iff_epipe [OF peer_gone_short, of "[''client'', ''10.0.0.1'', ''8888'']"
      "[True, False, True]" "\<lparr>mem = start_pl, world = (), trace = []\<rparr>"] by simp

lemma shell_rules: "shell_of as = cs \<Longrightarrow> rules_after rs as = rules_after rs (map Ran cs)"
  by (simp add: rules_after_shell [of rs as])

text \<open>
  C16: on a kernel on which no call fails, the rule that drops all data is left behind exactly when the whole
  thread, its pause of five seconds and its flush included, has run before the main thread adds the
  rule; under every other schedule no rule is left.
\<close>

theorem peeloff_firewall_race:
  assumes "short_addresses K" and "all_succeed K" and "3 \<le> length argv"
  shows "\<exists>v t tr. main_pl K sched argv s = Some (Done v, t) \<and> trace t = trace s @ tr \<and>
    rules_after [] (acts tr) = (if prefix (replicate 7 False) sched
      then [''iptables -A OUTPUT -p sctp --chunk-types any DATA -j DROP''] else [])"
proof -
  obtain v t tr where run: "main_pl K sched argv s = Some (Done v, t)" "trace t = trace s @ tr"
    and good: "good_run sched tr v" and some: "shell_of (acts tr) \<noteq> []"
    using main_pl_runs [OF assms(1,3), of sched s] assms(2) by blast
  have "rules_after [] (acts tr) = (if flushed_too_early sched then [add_rule] else [])"
  proof (cases "flushed_too_early sched")
    case True
    then have "shell_of (acts tr) = [''iptables -F'', add_rule]"
      using good some by (simp add: good_run_def)
    from shell_rules [OF this] True show ?thesis by simp
  next
    case False
    then have "shell_of (acts tr) = [add_rule, ''iptables -F'']"
      using good some by (simp add: good_run_def)
    from shell_rules [OF this] False show ?thesis by simp
  qed
  with run show ?thesis unfolding flushed_too_early_def by blast
qed

lemma quiet_kernel_short [simp]: "short_addresses quiet_kernel"
  by (simp add: short_addresses_def quiet_kernel_def)

theorem peeloff_firewall_race_witness:
  "\<exists>v t tr. main_pl quiet_kernel (replicate 7 False) [''client'', ''10.0.0.1'', ''8888'']
      \<lparr>mem = start_pl, world = (), trace = []\<rparr> = Some (Done v, t) \<and> trace t = tr \<and>
    rules_after [] (acts tr) = [''iptables -A OUTPUT -p sctp --chunk-types any DATA -j DROP'']"
  using peeloff_firewall_race [OF quiet_kernel_short quiet_kernel_all_succeed,
      of "[''client'', ''10.0.0.1'', ''8888'']" "replicate 7 False"
      "\<lparr>mem = start_pl, world = (), trace = []\<rparr>"] by simp


end
