(* ===== verification/Suites.thy ===== *)
theory Suites
  imports Strreset_Props Prsctp_Props Ndata_Fuzz Hashtable_Props Peeloff_Props
begin

text \<open>
  The functions \<open>do_test\<close> of the test scripts around the C programs: which cases they run and how the status of a
  program becomes an entry of the log. A process is a run of a program. A script starts the client in the background, runs
  the server, looks at the status of the server and waits for the client, so it goes on only when both have ended; a
  run without end and an undefined one, of which no status is known, are \<open>None\<close>. The text a client
  writes goes to a file nobody reads.
\<close>

section \<open>Processes\<close>

type_synonym ('c, 'w) process = "(cint result \<times> ('c, 'w) machine) option"

datatype outcome = PASS | FAIL

text \<open>The status the shell sees: the low eight bits.\<close>

definition exit_status :: "cint result \<Rightarrow> nat option" where
  "exit_status r =
     (case r of Done v \<Rightarrow> Some (unat v mod 256) | Exit e \<Rightarrow> Some (unat e mod 256) | Fault x \<Rightarrow> None)"

text \<open>What \<open>wait\<close> needs to come back.\<close>

definition ended :: "('c, 'w) process \<Rightarrow> bool" where
  "ended p = (case p of None \<Rightarrow> False | Some (r, t) \<Rightarrow> exit_status r \<noteq> None)"

text \<open>\<open>res=PASS; \<dots> || res=FAIL\<close>\<close>

definition judged :: "('c, 'w) process \<Rightarrow> outcome option" where
  "judged p =
     (case p of
        None \<Rightarrow> None
      | Some (r, t) \<Rightarrow> map_option (\<lambda>status. if status = 0 then PASS else FAIL) (exit_status r))"

text \<open>\<open>res=`\<dots>`\<close>: what the process printed; its status is not looked at.\<close>

definition printed :: "('c, 'w) process \<Rightarrow> (string \<times> clong list) list option" where
  "printed p =
     (case p of
        None \<Rightarrow> None
      | Some (r, t) \<Rightarrow> map_option (\<lambda>_. concat (map (\<lambda>e. case fst e of Printf s vs \<Rightarrow> [(s, vs)] | _ \<Rightarrow> [])
          (trace t))) (exit_status r))"

text \<open>A line names the case, and not the setting of \<open>intl_enable\<close> it was run with.\<close>

datatype entry = Verdict nat outcome | Report nat "(string \<times> clong list) list"

section \<open>The scripts\<close>

text \<open>\<open>client e c\<close> and \<open>server e c\<close> are the processes of case \<open>c\<close>, with \<open>intl_enable\<close> set to \<open>e\<close>.\<close>

type_synonym ('c, 'w) processes = "nat \<Rightarrow> nat \<Rightarrow> ('c, 'w) process"

definition verdicts :: "nat \<Rightarrow> nat list \<Rightarrow> ('c, 'v) processes \<Rightarrow> ('c, 'w) processes \<Rightarrow> entry option list" where
  "verdicts e cs client server =
     map (\<lambda>c. if ended (client e c) then map_option (Verdict c) (judged (server e c)) else None) cs"

definition reports :: "nat \<Rightarrow> nat list \<Rightarrow> ('c, 'v) processes \<Rightarrow> ('c, 'w) processes \<Rightarrow> entry option list" where
  "reports e cs client server =
     map (\<lambda>c. if ended (client e c) then map_option (Report c) (printed (server e c)) else None) cs"

definition do_test_strreset :: "('c, 'v) processes \<Rightarrow> ('c, 'w) processes \<Rightarrow> entry list option" where
  "do_test_strreset client server =
     those (concat (map (\<lambda>e. verdicts e [0, 1, 2, 3, 4, 5, 6] client server) [0]))"

definition do_test_prsctp :: "('c, 'v) processes \<Rightarrow> ('c, 'w) processes \<Rightarrow> entry list option" where
  "do_test_prsctp client server =
     those (concat (map (\<lambda>e. verdicts e [0, 1, 2, 3, 4, 5, 6, 7, 8, 9] client server) [0]))"

definition do_test_ndata :: "('c, 'v) processes \<Rightarrow> ('c, 'w) processes \<Rightarrow> entry list option" where
  "do_test_ndata client server =
     those (concat (map (\<lambda>e.
       verdicts e [0, 1, 5, 6, 7, 11, 12, 13, 17, 18] client server @
       reports e [2, 3, 4, 8, 9, 10, 14, 15, 16, 19, 20] client server) [0, 1]))"

text \<open>One verdict on 300 runs of the client.\<close>

definition do_test_dryevents :: "(nat \<Rightarrow> ('c, 'w) process) \<Rightarrow> outcome option" where
  "do_test_dryevents client =
     map_option (\<lambda>os. if FAIL \<in> set os then FAIL else PASS) (those (map (\<lambda>i. judged (client i)) [1..<301]))"

definition do_test_peeloffbusy :: "('c, 'w) process \<Rightarrow> outcome option" where
  "do_test_peeloffbusy client = judged client"

text \<open>The arguments of a program: \<open>$c\<close> is the case in decimal.\<close>

definition args :: "string \<Rightarrow> string \<Rightarrow> nat \<Rightarrow> string \<Rightarrow> string list" where
  "args prog ip c mode = [prog, ip, ''8888'', decimal c, mode]"

section \<open>From the processes to the log\<close>

lemma those_map_Some: "(\<And>x. x \<in> set xs \<Longrightarrow> f x = Some (g x)) \<Longrightarrow> those (map f xs) = Some (map g xs)"
  by (induction xs) auto

lemma those_append: "those xs = Some us \<Longrightarrow> those ys = Some vs \<Longrightarrow> those (xs @ ys) = Some (us @ vs)"
  by (induction xs arbitrary: us) (auto split: option.splits)

lemma ended_Done: "\<exists>t. p = Some (Done v, t) \<Longrightarrow> ended p"
  by (auto simp: ended_def exit_status_def)

lemma judged_Done:
  assumes "\<exists>t. p = Some (Done v, t)" and "v \<in> {0, 1}"
  shows "judged p = Some (if v = 0 then PASS else FAIL)"
  using assms by (auto simp: judged_def exit_status_def)

lemma printed_Done: "\<exists>t. p = Some (Done v, t) \<Longrightarrow> \<exists>out. printed p = Some out"
  by (auto simp: printed_def exit_status_def)

lemma those_verdicts:
  assumes "\<And>c. c \<in> set cs \<Longrightarrow> ended (client e c)" and "\<And>c. c \<in> set cs \<Longrightarrow> judged (server e c) = Some (f c)"
  shows "those (verdicts e cs client server) = Some (map (\<lambda>c. Verdict c (f c)) cs)"
  unfolding verdicts_def by (rule those_map_Some) (simp add: assms)

lemma those_reports:
  assumes "\<And>c. c \<in> set cs \<Longrightarrow> ended (client e c)" and "\<And>c. c \<in> set cs \<Longrightarrow> printed (server e c) = Some (f c)"
  shows "those (reports e cs client server) = Some (map (\<lambda>c. Report c (f c)) cs)"
  unfolding reports_def by (rule those_map_Some) (simp add: assms)

lemma atoi_case: "c < 21 \<Longrightarrow> atoi (decimal c) = of_nat c"
  by (simp add: atoi_decimal)

section \<open>The clients\<close>

text \<open>What a process started in \<open>s\<close> has done.\<close>

definition did :: "('c, 'w) machine \<Rightarrow> ('c, 'w) process \<Rightarrow> act list" where
  "did s p = (case p of None \<Rightarrow> [] | Some (r, t) \<Rightarrow> acts (drop (length (trace s)) (trace t)))"

lemma client_sr:
  assumes "all_succeed K" and "c < 7"
  shows "ended (main_sr K (args prog ip c ''-s'') s)"
    and "did s (main_sr K (args prog ip c ''-s'') s) = client_script_sr c"
  using main_sr_client_completes [OF assms atoi_case, of prog ip "''8888''" s] assms(2)
  by (auto simp: did_def args_def intro: ended_Done)

lemma client_pr:
  assumes "all_succeed K" and "c < 11"
  shows "ended (main_pr K sched (args prog ip c ''-s'') s)"
    and "did s (main_pr K sched (args prog ip c ''-s'') s) = client_script_pr c sched"
  using main_pr_client_completes [OF assms atoi_case, of sched prog ip "''8888''" s] assms(2)
  by (auto simp: did_def args_def intro: ended_Done)

lemma client_nd:
  assumes "all_succeed K" and "c < 21"
  shows "ended (main_nd K (args prog ip c ''-s'') s)"
  using main_nd_client_completes [OF assms atoi_case, of prog ip "''8888''" s] assms(2)
  by (auto simp: args_def intro: ended_Done)

section \<open>The servers\<close>

lemma server_sr:
  assumes "delivers K inbox" and "c < 7" and "map fst (inbox (world s)) = messages (client_script_sr c)"
  shows "judged (main_sr K (args prog ip c ''-l'') s) = Some PASS"
proof -
  have "\<exists>t. main_sr K (args prog ip c ''-l'') s = Some (Done (if count_sr c \<le> count_sr c then 0 else 1), t)"
    unfolding args_def
    by (rule main_sr_on_values [OF assms(1,2) atoi_case]) (use assms in \<open>simp_all add: client_script_traffic(1)\<close>)
  from judged_Done [OF this] show ?thesis by simp
qed

lemma server_pr_surviving:
  assumes "delivers K inbox" and "c < 11" and "map fst (inbox (world s)) = surviving_pr c sched"
  shows "judged (main_pr K sched (args prog ip c ''-l'') s) = Some PASS"
proof -
  have "\<exists>t. main_pr K sched (args prog ip c ''-l'') s = Some (Done 0, t)"
    unfolding args_def by (rule main_pr_on_surviving [OF assms(1,2) atoi_case assms(3)]) (use assms in simp)
  from judged_Done [OF this] show ?thesis by simp
qed

lemma server_pr_offered:
  assumes "delivers K inbox" and "c < 11" and "map fst (inbox (world s)) = messages (client_script_pr c sched)"
  shows "judged (main_pr K sched (args prog ip c ''-l'') s) = Some (if c \<in> {2, 5, 8, 9, 10} then FAIL else PASS)"
proof -
  have "\<exists>t. main_pr K sched (args prog ip c ''-l'') s = Some (Done (if c \<in> {2, 5, 8, 9, 10} then 1 else 0), t)"
    unfolding args_def by (rule main_pr_on_offered [OF assms(1,2) atoi_case assms(3)]) (use assms in simp)
  from judged_Done [OF this] show ?thesis by simp
qed

text \<open>The verdict on a session that streams \<open>sids\<close> were read from.\<close>

definition outcome_nd :: "nat \<Rightarrow> (cint \<times> cushort) list \<Rightarrow> outcome" where
  "outcome_nd c ms = (if c \<in> {0, 1, 7, 13} \<and> \<not> prefix (map ucast (data_sids ms)) (sched_sids (sn_cases_nd ! c))
     then FAIL else PASS)"

lemma server_nd:
  assumes "delivers K inbox" and "session (inbox (world s))" and "fst (last (inbox (world s))) \<noteq> -1" and "c < 21"
    and "c \<in> {0, 1, 7, 13} \<Longrightarrow> length (data_sids (inbox (world s))) \<le> 9"
  shows "judged (main_nd K (args prog ip c ''-l'') s) = Some (outcome_nd c (inbox (world s)))"
    and "\<exists>out. printed (main_nd K (args prog ip c ''-l'') s) = Some out"
proof -
  have conf: "conformance (of_nat c) \<longleftrightarrow> c \<in> {0, 1, 7, 13}"
    using less_21_cases [OF assms(4)] by (elim disjE) (simp_all add: conformance_def case_nd_simps)
  have "the_nd (of_nat c) = sn_cases_nd ! c" using assms(4) by simp
  then have v: "verdict_nd (of_nat c) ms = (if outcome_nd c ms = FAIL then 1 else 0)" for ms
    unfolding verdict_nd_def outcome_nd_def conf by simp
  have run: "\<exists>t. main_nd K (args prog ip c ''-l'') s = Some (Done (verdict_nd (of_nat c) (inbox (world s))), t)"
    using main_nd_returns [OF assms(1) refl assms(2-4) atoi_case, where prog = prog and ip = ip] conf assms(4,5)
    by (auto simp: args_def atoi_case)
  from judged_Done [OF run [unfolded v]]
  show "judged (main_nd K (args prog ip c ''-l'') s) = Some (outcome_nd c (inbox (world s)))"
    by (cases "outcome_nd c (inbox (world s))") simp_all
  from printed_Done [OF run]
  show "\<exists>out. printed (main_nd K (args prog ip c ''-l'') s) = Some out" .
qed

section \<open>The regression scripts\<close>

text \<open>The verdict on the busy association is the one of the client, whatever the kernel does with its messages.\<close>

lemma peeloffbusy_script:
  assumes "short_addresses K"
  shows "\<exists>t tr. main_pl K sched [''./client'', ''127.0.0.1'', ''5001''] s = Some (Done (if EPIPE \<in> set (sends tr) then 0 else 1), t) \<and>
    trace t = trace s @ tr \<and>
    do_test_peeloffbusy (main_pl K sched [''./client'', ''127.0.0.1'', ''5001''] s) =
      Some (if EPIPE \<in> set (sends tr) then PASS else FAIL)"
proof -
  obtain v t tr where run: "main_pl K sched [''./client'', ''127.0.0.1'', ''5001''] s = Some (Done v, t)"
    "trace t = trace s @ tr" "v = (if EPIPE \<in> set (sends tr) then 0 else 1)"
    using main_pl_runs [OF assms, of "[''./client'', ''127.0.0.1'', ''5001'']" sched s] unfolding good_run_def by auto
  have "judged (main_pl K sched [''./client'', ''127.0.0.1'', ''5001''] s) = Some (if v = 0 then PASS else FAIL)"
    by (rule judged_Done) (use run in auto)
  with run show ?thesis
    unfolding do_test_peeloffbusy_def by (intro exI [of _ t] exI [of _ tr]) simp
qed

lemma those_iff: "those xs = Some ys \<longleftrightarrow> xs = map Some ys"
  by (induction xs arbitrary: ys) (auto split: option.splits)

text \<open>The verdict on the dry events is PASS only when each of the 300 clients was content.\<close>

lemma dryevents_script:
  "do_test_dryevents client = Some PASS \<longleftrightarrow> (\<forall>i \<in> {1..300}. judged (client i) = Some PASS)"
proof
  assume "do_test_dryevents client = Some PASS"
  then obtain os where os: "map (\<lambda>i. judged (client i)) [1..<301] = map Some os" and pass: "FAIL \<notin> set os"
    by (auto simp: do_test_dryevents_def those_iff split: if_splits)
  show "\<forall>i \<in> {1..300}. judged (client i) = Some PASS"
  proof
    fix i :: nat assume "i \<in> {1..300}"
    then have "judged (client i) \<in> set (map (\<lambda>i. judged (client i)) [1..<301])"
      by auto
    then obtain x where "judged (client i) = Some x" "x \<in> set os"
      unfolding os by auto
    with pass show "judged (client i) = Some PASS" by (cases x) auto
  qed
next
  assume "\<forall>i \<in> {1..300}. judged (client i) = Some PASS"
  then have "those (map (\<lambda>i. judged (client i)) [1..<301]) = Some (map (\<lambda>i. PASS) [1..<301])"
    by (intro those_map_Some) (simp del: upt_rec_numeral)
  moreover have "FAIL \<notin> set (map (\<lambda>i. PASS) [1..<301::nat])"
    by (auto simp del: upt_rec_numeral)
  ultimately show "do_test_dryevents client = Some PASS"
    unfolding do_test_dryevents_def by simp
qed

section \<open>Whole scripts\<close>

lemma verdicts_one_setting:
  "those (verdicts 0 cs cl sv) = Some (map (\<lambda>c. Verdict c (f c)) cs) \<Longrightarrow>
    those (concat (map (\<lambda>e. verdicts e cs cl sv) [0])) = Some (map (\<lambda>c. Verdict c (f c)) cs)"
  by simp

lemma do_test_strreset_passes:
  assumes "\<And>c. all_succeed (Kc c)" and "\<And>c. delivers (Ks c) inbox"
    and "\<And>c. c < 7 \<Longrightarrow> map fst (inbox (world (ss c))) = messages (did (sc c) (main_sr (Kc c) (args prog ip c ''-s'') (sc c)))"
  shows "do_test_strreset (\<lambda>e c. main_sr (Kc c) (args prog ip c ''-s'') (sc c))
      (\<lambda>e c. main_sr (Ks c) (args prog ip c ''-l'') (ss c)) = Some (map (\<lambda>c. Verdict c PASS) [0, 1, 2, 3, 4, 5, 6])"
proof -
  have "judged (main_sr (Ks c) (args prog ip c ''-l'') (ss c)) = Some PASS" if "c < 7" for c
    by (rule server_sr [OF assms(2) that]) (simp add: assms(3) client_sr(2) [OF assms(1)] that)
  then show ?thesis
    unfolding do_test_strreset_def by (intro verdicts_one_setting those_verdicts) (auto simp: client_sr(1) [OF assms(1)])
qed

lemma do_test_prsctp_passes:
  assumes "\<And>c. all_succeed (Kc c)" and "\<And>c. delivers (Ks c) inbox"
    and "\<And>c. c < 10 \<Longrightarrow> map fst (inbox (world (ss c))) =
      messages (filter (\<lambda>a. \<not> expendable (values_pr (sn_cases_pr ! c) ! 0) a)
        (did (sc c) (main_pr (Kc c) (sched c) (args prog ip c ''-s'') (sc c))))"
  shows "do_test_prsctp (\<lambda>e c. main_pr (Kc c) (sched c) (args prog ip c ''-s'') (sc c))
      (\<lambda>e c. main_pr (Ks c) (sched c) (args prog ip c ''-l'') (ss c)) =
    Some (map (\<lambda>c. Verdict c PASS) [0, 1, 2, 3, 4, 5, 6, 7, 8, 9])"
proof -
  have "judged (main_pr (Ks c) (sched c) (args prog ip c ''-l'') (ss c)) = Some PASS" if "c < 10" for c
    by (rule server_pr_surviving [OF assms(2)]) (use that in \<open>simp_all add: assms(3) client_pr(2) [OF assms(1)] surviving_pr_def\<close>)
  then show ?thesis
    unfolding do_test_prsctp_def by (intro verdicts_one_setting those_verdicts) (auto simp: client_pr(1) [OF assms(1)])
qed

lemma do_test_prsctp_reliable:
  assumes "\<And>c. all_succeed (Kc c)" and "\<And>c. delivers (Ks c) inbox"
    and "\<And>c. c < 10 \<Longrightarrow> map fst (inbox (world (ss c))) =
      messages (did (sc c) (main_pr (Kc c) (sched c) (args prog ip c ''-s'') (sc c)))"
  shows "do_test_prsctp (\<lambda>e c. main_pr (Kc c) (sched c) (args prog ip c ''-s'') (sc c))
      (\<lambda>e c. main_pr (Ks c) (sched c) (args prog ip c ''-l'') (ss c)) =
    Some (map (\<lambda>c. Verdict c (if c \<in> {2, 5, 8, 9} then FAIL else PASS)) [0, 1, 2, 3, 4, 5, 6, 7, 8, 9])"
proof -
  have "judged (main_pr (Ks c) (sched c) (args prog ip c ''-l'') (ss c)) =
      Some (if c \<in> {2, 5, 8, 9} then FAIL else PASS)" if "c < 10" for c
  proof -
    have "judged (main_pr (Ks c) (sched c) (args prog ip c ''-l'') (ss c)) =
        Some (if c \<in> {2, 5, 8, 9, 10} then FAIL else PASS)"
      by (rule server_pr_offered [OF assms(2)]) (use that in \<open>simp_all add: assms(3) client_pr(2) [OF assms(1)]\<close>)
    with that show ?thesis by simp
  qed
  then show ?thesis
    unfolding do_test_prsctp_def by (intro verdicts_one_setting those_verdicts) (auto simp: client_pr(1) [OF assms(1)])
qed

section \<open>What the logs say\<close>

text \<open>
  C17: the scripts of the first two conformance tests, run on kernels on which no call of a client fails and that
  deliver to the servers what arrives. When everything a client of strreset.c sends arrives, the log has seven times
  PASS. When what the policies of sctp_pr.c let the sender abandon is lost and the rest arrives, the log
  has ten times PASS; when everything arrives, as on a kernel without partial reliability, four of the ten
  cases FAIL. The eleventh case of the table is not run.
\<close>

theorem conformance_logs:
  fixes Kc Ks sc ss sched prog ip
  defines "client \<equiv> \<lambda>e c. main_sr (Kc c) (args prog ip c ''-s'') (sc c)"
    and "server \<equiv> \<lambda>e c. main_sr (Ks c) (args prog ip c ''-l'') (ss c)"
    and "client_pr \<equiv> \<lambda>e c. main_pr (Kc c) (sched c) (args prog ip c ''-s'') (sc c)"
    and "server_pr \<equiv> \<lambda>e c. main_pr (Ks c) (sched c) (args prog ip c ''-l'') (ss c)"
  assumes "\<And>c. all_succeed (Kc c)" and "\<And>c. delivers (Ks c) inbox"
  shows "((\<forall>c<7. map fst (inbox (world (ss c))) = messages (did (sc c) (client 0 c))) \<longrightarrow>
      do_test_strreset client server = Some (map (\<lambda>c. Verdict c PASS) [0, 1, 2, 3, 4, 5, 6])) \<and>
    ((\<forall>c<10. map fst (inbox (world (ss c))) =
        messages (filter (\<lambda>a. \<not> expendable (values_pr (sn_cases_pr ! c) ! 0) a) (did (sc c) (client_pr 0 c)))) \<longrightarrow>
      do_test_prsctp client_pr server_pr = Some (map (\<lambda>c. Verdict c PASS) [0, 1, 2, 3, 4, 5, 6, 7, 8, 9])) \<and>
    ((\<forall>c<10. map fst (inbox (world (ss c))) = messages (did (sc c) (client_pr 0 c))) \<longrightarrow>
      do_test_prsctp client_pr server_pr =
        Some (map (\<lambda>c. Verdict c (if c \<in> {2, 5, 8, 9} then FAIL else PASS)) [0, 1, 2, 3, 4, 5, 6, 7, 8, 9]))"
  unfolding client_def server_def client_pr_def server_pr_def
  using do_test_strreset_passes [of Kc Ks inbox ss sc prog ip, OF assms(5,6)]
    do_test_prsctp_passes [of Kc Ks inbox ss sc sched prog ip, OF assms(5,6)]
    do_test_prsctp_reliable [of Kc Ks inbox ss sc sched prog ip, OF assms(5,6)] by blast

theorem conformance_logs_witness:
  "do_test_strreset
      (\<lambda>e c. main_sr quiet_kernel (args ''strreset'' ''10.0.0.1'' c ''-s'') \<lparr>mem = zero_context, world = (), trace = []\<rparr>)
      (\<lambda>e c. main_sr mailbox (args ''strreset'' ''10.0.0.1'' c ''-l'')
        \<lparr>mem = zero_context, world = map (\<lambda>v. (v, 0)) (messages (client_script_sr c)), trace = []\<rparr>) =
    Some (map (\<lambda>c. Verdict c PASS) [0, 1, 2, 3, 4, 5, 6]) \<and>
  do_test_prsctp
      (\<lambda>e c. main_pr quiet_kernel [True] (args ''sctp_pr'' ''10.0.0.1'' c ''-s'') \<lparr>mem = zero_context, world = (), trace = []\<rparr>)
      (\<lambda>e c. main_pr mailbox [True] (args ''sctp_pr'' ''10.0.0.1'' c ''-l'')
        \<lparr>mem = zero_context, world = map (\<lambda>v. (v, 0)) (surviving_pr c [True]), trace = []\<rparr>) =
    Some (map (\<lambda>c. Verdict c PASS) [0, 1, 2, 3, 4, 5, 6, 7, 8, 9])"
proof -
  let ?s = "\<lparr>mem = zero_context, world = (), trace = []\<rparr>"
  have fst_map: "map (fst \<circ> (\<lambda>v. (v, 0::cushort))) xs = xs" for xs :: "cint list"
    by (induction xs) simp_all
  show ?thesis
    using conformance_logs [of "\<lambda>c. quiet_kernel" "\<lambda>c. mailbox" "\<lambda>ms. ms"
        "\<lambda>c. \<lparr>mem = zero_context, world = map (\<lambda>v. (v, 0)) (messages (client_script_sr c)), trace = []\<rparr>"
        "\<lambda>c. ?s" "''strreset''" "''10.0.0.1''" "\<lambda>c. [True]"]
      conformance_logs [of "\<lambda>c. quiet_kernel" "\<lambda>c. mailbox" "\<lambda>ms. ms"
        "\<lambda>c. \<lparr>mem = zero_context, world = map (\<lambda>v. (v, 0)) (surviving_pr c [True]), trace = []\<rparr>"
        "\<lambda>c. ?s" "''sctp_pr''" "''10.0.0.1''" "\<lambda>c. [True]"]
    by (simp add: mailbox_delivers client_sr client_pr fst_map surviving_pr_def)
qed

text \<open>
  C19: the script of the scheduler test, whatever the servers get as long as it is a session (and at most nine data
  messages in a conformance case): for each setting of interleaving, the four conformance cases PASS exactly when the
  streams the messages came from are the first ones of the table; the six random cases always PASS, and the performance
  cases only report what the server printed.
\<close>

theorem ndata_log:
  fixes Kc Ks sc ss prog ip
  defines "client \<equiv> \<lambda>e c. main_nd (Kc e c) (args prog ip c ''-s'') (sc e c)"
    and "server \<equiv> \<lambda>e c. main_nd (Ks e c) (args prog ip c ''-l'') (ss e c)"
  assumes "\<And>e c. all_succeed (Kc e c)" and "\<And>e c. delivers (Ks e c) inbox"
    and "\<And>e c. session (inbox (world (ss e c)))" and "\<And>e c. fst (last (inbox (world (ss e c)))) \<noteq> -1"
    and "\<And>e c. c \<in> {0, 1, 7, 13} \<Longrightarrow> length (data_sids (inbox (world (ss e c)))) \<le> 9"
  shows "\<exists>out. do_test_ndata client server =
    Some (concat (map (\<lambda>e.
      map (\<lambda>c. Verdict c (outcome_nd c (inbox (world (ss e c))))) [0, 1, 5, 6, 7, 11, 12, 13, 17, 18] @
      map (\<lambda>c. Report c (out e c)) [2, 3, 4, 8, 9, 10, 14, 15, 16, 19, 20]) [0, 1]))"
proof -
  have cl: "ended (client e c)" if "c < 21" for e c
    unfolding client_def by (rule client_nd [OF assms(3) that])
  have sv: "judged (server e c) = Some (outcome_nd c (inbox (world (ss e c))))"
    "\<exists>out. printed (server e c) = Some out" if "c < 21" for e c
    unfolding server_def by (rule server_nd [OF assms(4-6) that assms(7)], assumption)+
  define out where "out e c = the (printed (server e c))" for e c
  have out: "printed (server e c) = Some (out e c)" if "c < 21" for e c
    using sv(2) [OF that, of e] by (auto simp: out_def)
  have "those (verdicts e [0, 1, 5, 6, 7, 11, 12, 13, 17, 18] client server) =
      Some (map (\<lambda>c. Verdict c (outcome_nd c (inbox (world (ss e c))))) [0, 1, 5, 6, 7, 11, 12, 13, 17, 18])" for e
    by (rule those_verdicts; intro cl sv(1)) auto
  moreover have "those (reports e [2, 3, 4, 8, 9, 10, 14, 15, 16, 19, 20] client server) =
      Some (map (\<lambda>c. Report c (out e c)) [2, 3, 4, 8, 9, 10, 14, 15, 16, 19, 20])" for e
    by (rule those_reports; intro cl out) auto
  ultimately show ?thesis
    unfolding do_test_ndata_def list.map(1,2) concat.simps append_Nil2
    by (intro exI [of _ out] those_append)
qed

theorem ndata_log_witness:
  "\<exists>out. do_test_ndata
      (\<lambda>e c. main_nd quiet_kernel (args ''sctp_ndata'' ''10.0.0.1'' c ''-s'') \<lparr>mem = zero_context, world = (), trace = []\<rparr>)
      (\<lambda>e c. main_nd mailbox (args ''sctp_ndata'' ''10.0.0.1'' c ''-l'')
        \<lparr>mem = zero_context, world = [(500, 1), (500, 0), (SN_CMD_CLOSE_ASOC, 0)], trace = []\<rparr>) =
    Some (concat (map (\<lambda>e.
      map (\<lambda>c. Verdict c (outcome_nd c [(500, 1), (500, 0), (SN_CMD_CLOSE_ASOC, 0)]))
        [0, 1, 5, 6, 7, 11, 12, 13, 17, 18] @
      map (\<lambda>c. Report c (out e c)) [2, 3, 4, 8, 9, 10, 14, 15, 16, 19, 20]) [0::nat, 1]))"
proof -
  let ?ms = "[(500, 1), (500, 0), (SN_CMD_CLOSE_ASOC, 0)] :: (cint \<times> cushort) list"
  have s: "session ?ms" and l: "fst (last ?ms) \<noteq> -1" and d: "length (data_sids ?ms) \<le> 9"
    by (simp_all add: session_def closing_def data_sids_def sn_cmds)
  from ndata_log [of "\<lambda>e c. quiet_kernel" "\<lambda>e c. mailbox" "\<lambda>ms. ms" "\<lambda>e c. \<lparr>mem = zero_context, world = ?ms, trace = []\<rparr>"
      "''sctp_ndata''" "''10.0.0.1''" "\<lambda>e c. \<lparr>mem = zero_context, world = (), trace = []\<rparr>", unfolded machine.select_convs,
      OF quiet_kernel_all_succeed mailbox_delivers s l d]
  show ?thesis .
qed

end
