(* ===== verification/Whole_Runs.thy ===== *)
theory Whole_Runs
  imports Upstream_Plan Driver_Log Suites
begin

text \<open>
  The layers put together: the driver runs the script of a conformance test, the script runs the clients and servers of
  its cases, and these are the programs on their kernels. From what arrives at the servers follows what stands in the
  log of \<open>sctp-tests run\<close>.
\<close>

section \<open>A run of one test\<close>

lemma suite_verbose: "verbose_disk suite"
proof -
  have "list_all (\<lambda>(p, f). list_all verbose_stmt (stmts f)) suite_files"
    by (simp add: suite_files_code verbose_stmt_def st_cfg_def system_sh_def netns_sh_def netns_cs_sh_def netns_crs_sh_def
        netns_ipsec_cs_sh_def netns_sit_cs_sh_def netns_team_cs_sh_def librpt_sh_def lksctptools_sh_def sctp_rr_sh_def
        sctp_stream_sh_def sctp_rr_on_ipsec_sh_def sctp_stream_on_ipsec_sh_def sctp_stream_on_sit_sh_def procdumps_sh_def
        sctpdiag_sh_def gsomtuchange_sh_def peeloffbusy_sh_def extoverflow_sh_def sctphashtable_on_netns_sh_def
        sctphashtable_on_team_sh_def ndatasched_sh_def strreset_sh_def prsctp_sh_def)
  then show ?thesis
    unfolding verbose_disk_def suite_def disk.select_convs list_all_iff by (fastforce dest: map_of_SomeD)
qed

text \<open>The shell after the options of a run that names a test.\<close>

lemma st_do_init_test:
  fixes B :: "'m bodies"
  obtains sh :: "'m shell" where "st_do_init suite True [Opt_e w] (started suite_root) = Some (True, sh)"
    and "idle suite_root sh" and "vars sh ''TestCase'' = w" and "ran_of (events sh) = []"
    and "\<forall>f \<in> set in_order. funs sh f = None" and "all_reported B sh"
proof -
  have root: "root_dir suite = suite_root" by (simp add: suite_def)
  have "\<exists>sh :: 'm shell. st_do_init suite True [Opt_e w] (started suite_root) = Some (True, sh) \<and> idle suite_root sh \<and>
     vars sh ''TestCase'' = w \<and> ran_of (events sh) = [] \<and> (\<forall>f \<in> set in_order. funs sh f = None) \<and> all_reported B sh"
    by (simp add: st_do_init_def st_init_param_def st_cfg_load_def st_check_pack_def st_load_libst_def root suite_config
        source_file_def st_cfg_def system_sh_def started_def idle_def in_order_def Let_def all_reported_def verbose_def st_log_def
        st_log_check_def st_logs_def less_level_def)
  with that show ?thesis by blast
qed

lemma run_one_test:
  fixes B :: "'m bodies"
  assumes "\<And>p f. B p f \<noteq> None" and "w \<noteq> []" and "is_dir suite (resolve suite_root w)"
    and "is_exec suite (resolve suite_root w @ [''test.sh''])"
    and "brings (w @ ''/test.sh'') = (True, True, [Some t, Some p, Some p, Some p, Some t])"
  shows "\<exists>sh. sctp_tests suite B True True [Opt_e w] ''run'' (started suite_root) = Some (0, sh) \<and>
    reported (events sh) = concat (map (\<lambda>(f, p). lines_of (the (B p f)))
      [(''st_topo_setup'', t), (''do_setup'', p), (''do_test'', p), (''do_clean'', p), (''st_topo_clean'', t)])"
proof -
  obtain sh :: "'m shell" where sh: "st_do_init suite True [Opt_e w] (started suite_root) = Some (True, sh)"
    "idle suite_root sh" "vars sh ''TestCase'' = w" "ran_of (events sh) = []" "\<forall>f \<in> set in_order. funs sh f = None"
    "all_reported B sh"
    by (rule st_do_init_test)
  let ?c = "w @ ''/test.sh''"
  have words: "st_parse_testcase suite sh = [?c]"
    using sh(2,3) assms(2-4) by (simp add: st_parse_testcase_def idle_def)
  have valid: "valid suite suite_root ?c" "placed suite suite_root ?c"
    using assms(5) by (simp_all add: brings_def)
  then have loads: "loaded suite suite_root c \<noteq> None" if "c \<in> set (st_parse_testcase suite sh)" for c
    using that words by (auto simp: valid_def)
  obtain sh' where sh': "st_case_schedule suite B sh = Some (status_after suite suite_root 0 [?c], sh')"
    "ran_of (events sh') = plan_calls suite suite_root (funs sh) [?c]"
    using st_case_schedule_runs [where B = B and D = suite, OF assms(1) sh(2) loads] sh(4) unfolding words by auto
  have left: "plan_calls suite suite_root (funs sh) [?c] = plan_calls suite suite_root (left_over None None) [?c]"
    by (rule plan_calls_cong) (simp add: sh(5) left_over_def)
  have "ran_of (events sh') =
      [(''st_topo_setup'', t), (''do_setup'', p), (''do_test'', p), (''do_clean'', p), (''st_topo_clean'', t)]"
    unfolding sh'(2) left plan_calls_brings [OF assms(5)] by (simp add: pick_def renew_def)
  moreover have "all_reported B sh'"
    by (rule st_case_schedule_reports [OF suite_verbose sh'(1) sh(6)])
  moreover have "status_after suite suite_root 0 [?c] = 0"
    using valid by (simp add: status_after_def)
  then have "sctp_tests suite B True True [Opt_e w] ''run'' (started suite_root) = Some (0, sh')"
    by (simp add: sctp_tests_def sh(1) sh'(1))
  ultimately show ?thesis by (simp add: all_reported_def)
qed

section \<open>The conformance tests\<close>

lemma conformance_dirs:
  "is_dir suite (resolve suite_root ''testcase/conformance/strreset'')"
  "is_exec suite (resolve suite_root ''testcase/conformance/strreset'' @ [''test.sh''])"
  "is_dir suite (resolve suite_root ''testcase/conformance/prsctp'')"
  "is_exec suite (resolve suite_root ''testcase/conformance/prsctp'' @ [''test.sh''])"
  by code_simp+

abbreviation strreset_test :: path where
  "strreset_test \<equiv> [''sctp-tests'', ''testcase'', ''conformance'', ''strreset'', ''test.sh'']"

abbreviation prsctp_test :: path where
  "prsctp_test \<equiv> [''sctp-tests'', ''testcase'', ''conformance'', ''prsctp'', ''test.sh'']"

text \<open>What the functions of the scripts log, when the two tests are run on given processes and nothing else logs.\<close>

definition conformance_bodies ::
    "('c, 'v) processes \<Rightarrow> ('c, 'w) processes \<Rightarrow> ('d, 'x) processes \<Rightarrow> ('d, 'y) processes \<Rightarrow> entry bodies" where
  "conformance_bodies client server client_pr server_pr p f =
     (if f = ''do_test'' \<and> p = strreset_test then map_option (map (Pair INFO)) (do_test_strreset client server)
      else if f = ''do_test'' \<and> p = prsctp_test then map_option (map (Pair INFO)) (do_test_prsctp client_pr server_pr)
      else Some [])"

lemma lines_of_simps [simp]: "lines_of [] = []" "lines_of ((l, m) # ls) = (if l = DBG then [] else [m]) @ lines_of ls"
  by (simp_all add: lines_of_def)

text \<open>
  C9: \<open>sctp-tests run -e\<close> of the stream reset and the partial reliability tests, from the driver to the kernels: when no call
  of a client fails, all that the clients of strreset.c send arrives at the servers, and of what the clients of sctp_pr.c
  send all but what their policies let the sender abandon, the run returns and its log has PASS for each of the
  seven and ten cases, in order, and nothing else from the tests.
\<close>

theorem conformance_runs_pass:
  fixes Kc Ks sc ss Kc' Ks' sc' ss' sched ip
  defines "client \<equiv> \<lambda>e c. main_sr (Kc c) (args ''./strreset'' ip c ''-s'') (sc c)"
    and "server \<equiv> \<lambda>e c. main_sr (Ks c) (args ''./strreset'' ip c ''-l'') (ss c)"
    and "client_pr \<equiv> \<lambda>e c. main_pr (Kc' c) (sched c) (args ''./sctp_pr'' ip c ''-s'') (sc' c)"
    and "server_pr \<equiv> \<lambda>e c. main_pr (Ks' c) (sched c) (args ''./sctp_pr'' ip c ''-l'') (ss' c)"
  assumes "\<And>c. all_succeed (Kc c)" and "\<And>c. delivers (Ks c) inbox"
    and "\<And>c. all_succeed (Kc' c)" and "\<And>c. delivers (Ks' c) inbox'"
    and "\<And>c. c < 7 \<Longrightarrow> map fst (inbox (world (ss c))) = messages (did (sc c) (client 0 c))"
    and "\<And>c. c < 10 \<Longrightarrow> map fst (inbox' (world (ss' c))) =
      messages (filter (\<lambda>a. \<not> expendable (values_pr (sn_cases_pr ! c) ! 0) a) (did (sc' c) (client_pr 0 c)))"
  shows "(\<exists>sh. sctp_tests suite (conformance_bodies client server client_pr server_pr) True True
        [Opt_e ''testcase/conformance/strreset''] ''run'' (started [''sctp-tests'']) = Some (0, sh) \<and>
      reported (events sh) = map (\<lambda>c. Verdict c PASS) [0, 1, 2, 3, 4, 5, 6]) \<and>
    (\<exists>sh. sctp_tests suite (conformance_bodies client server client_pr server_pr) True True
        [Opt_e ''testcase/conformance/prsctp''] ''run'' (started [''sctp-tests'']) = Some (0, sh) \<and>
      reported (events sh) = map (\<lambda>c. Verdict c PASS) [0, 1, 2, 3, 4, 5, 6, 7, 8, 9])"
proof -
  let ?B = "conformance_bodies client server client_pr server_pr"
  have sr: "do_test_strreset client server = Some (map (\<lambda>c. Verdict c PASS) [0, 1, 2, 3, 4, 5, 6])"
    unfolding client_def server_def
    by (rule do_test_strreset_passes [of Kc Ks inbox ss sc, OF assms(5,6) assms(9) [unfolded client_def]])
  have pr: "do_test_prsctp client_pr server_pr = Some (map (\<lambda>c. Verdict c PASS) [0, 1, 2, 3, 4, 5, 6, 7, 8, 9])"
    unfolding client_pr_def server_pr_def
    by (rule do_test_prsctp_passes [of Kc' Ks' inbox' ss' sc', OF assms(7,8) assms(10) [unfolded client_pr_def]])
  have returns: "?B p f \<noteq> None" for p f by (simp add: conformance_bodies_def sr pr)
  have "\<exists>sh. sctp_tests suite ?B True True [Opt_e ''testcase/conformance/strreset''] ''run'' (started suite_root) = Some (0, sh) \<and>
      reported (events sh) = map (\<lambda>c. Verdict c PASS) [0, 1, 2, 3, 4, 5, 6]"
    using run_one_test [of ?B "''testcase/conformance/strreset''", OF returns _ conformance_dirs(1,2)] brings_15
    by (simp add: conformance_bodies_def sr)
  moreover have "\<exists>sh. sctp_tests suite ?B True True [Opt_e ''testcase/conformance/prsctp''] ''run'' (started suite_root) = Some (0, sh) \<and>
      reported (events sh) = map (\<lambda>c. Verdict c PASS) [0, 1, 2, 3, 4, 5, 6, 7, 8, 9]"
    using run_one_test [of ?B "''testcase/conformance/prsctp''", OF returns _ conformance_dirs(3,4)] brings_16
    by (simp add: conformance_bodies_def pr)
  ultimately show ?thesis by blast
qed

theorem conformance_runs_pass_witness:
  "(\<exists>sh. sctp_tests suite
      (conformance_bodies
        (\<lambda>e c. main_sr quiet_kernel (args ''./strreset'' ''192.0.0.2'' c ''-s'') \<lparr>mem = zero_context, world = (), trace = []\<rparr>)
        (\<lambda>e c. main_sr mailbox (args ''./strreset'' ''192.0.0.2'' c ''-l'')
          \<lparr>mem = zero_context, world = map (\<lambda>v. (v, 0)) (messages (client_script_sr c)), trace = []\<rparr>)
        (\<lambda>e c. main_pr quiet_kernel [True] (args ''./sctp_pr'' ''192.0.0.2'' c ''-s'') \<lparr>mem = zero_context, world = (), trace = []\<rparr>)
        (\<lambda>e c. main_pr mailbox [True] (args ''./sctp_pr'' ''192.0.0.2'' c ''-l'')
          \<lparr>mem = zero_context, world = map (\<lambda>v. (v, 0)) (surviving_pr c [True]), trace = []\<rparr>))
      True True [Opt_e ''testcase/conformance/prsctp''] ''run'' (started [''sctp-tests'']) = Some (0, sh) \<and>
    reported (events sh) = map (\<lambda>c. Verdict c PASS) [0, 1, 2, 3, 4, 5, 6, 7, 8, 9])"
proof -
  let ?s = "\<lparr>mem = zero_context, world = (), trace = []\<rparr>"
  have fst_map: "map fst (map (\<lambda>v. (v, 0::cushort)) xs) = xs" for xs :: "cint list"
    by (induction xs) simp_all
  have sr: "map fst (world \<lparr>mem = zero_context, world = map (\<lambda>v. (v, 0::cushort)) (messages (client_script_sr c)), trace = []\<rparr>) =
      messages (did ?s (main_sr quiet_kernel (args ''./strreset'' ''192.0.0.2'' c ''-s'') ?s))" if "c < 7" for c
    unfolding client_sr(2) [OF quiet_kernel_all_succeed that] by (simp only: machine.select_convs fst_map)
  have pr: "map fst (world \<lparr>mem = zero_context, world = map (\<lambda>v. (v, 0::cushort)) (surviving_pr c [True]), trace = []\<rparr>) =
      messages (filter (\<lambda>a. \<not> expendable (values_pr (sn_cases_pr ! c) ! 0) a)
        (did ?s (main_pr quiet_kernel [True] (args ''./sctp_pr'' ''192.0.0.2'' c ''-s'') ?s)))" if "c < 10" for c
  proof -
    have "c < 11" using that by simp
    show ?thesis
      unfolding client_pr(2) [OF quiet_kernel_all_succeed \<open>c < 11\<close>]
      by (simp only: machine.select_convs fst_map surviving_pr_def)
  qed
  show ?thesis
    by (rule conformance_runs_pass [of "\<lambda>c. quiet_kernel" "\<lambda>c. mailbox" "\<lambda>ms. ms" "\<lambda>c. quiet_kernel" "\<lambda>c. mailbox" "\<lambda>ms. ms"
          "\<lambda>c. \<lparr>mem = zero_context, world = map (\<lambda>v. (v, 0)) (messages (client_script_sr c)), trace = []\<rparr>" "\<lambda>c. ?s" "''192.0.0.2''"
          "\<lambda>c. \<lparr>mem = zero_context, world = map (\<lambda>v. (v, 0)) (surviving_pr c [True]), trace = []\<rparr>" "\<lambda>c. ?s" "\<lambda>c. [True]",
          OF quiet_kernel_all_succeed mailbox_delivers quiet_kernel_all_succeed mailbox_delivers sr pr, THEN conjunct2])
qed

end
