(* ===== verification/Dry_Event.thy ===== *)
theory Dry_Event
  imports C_Logic
begin

text \<open>
  \<open>testcase/regression/dryevents/sctp-dry-event.c\<close>: a client that sends one message and waits for
  an answer, and a server that answers every message, with or without a subscription to the event
  that the sender has run dry. The programs keep no memory of their own but the two sockets, which
  are values here; the contents of the messages are not modelled, their lengths are.
\<close>

type_synonym ('w, 'a) dry = "(unit, 'w, 'a) prog"

section \<open>Constants of the system's headers\<close>

definition EAGAIN :: cint where "EAGAIN = 11"
definition MSG_NOTIFICATION :: cint where "MSG_NOTIFICATION = 0x8000"
definition MSG_NOSIGNAL :: cint where "MSG_NOSIGNAL = 0x4000"

text \<open>The bytes of a \<open>struct sockaddr_in\<close>, its port and its address being stored as they are given.\<close>

definition sockaddr_in :: "cushort \<Rightarrow> 32 word \<Rightarrow> bytes" where
  "sockaddr_in port addr = le16 (ucast AF_INET) @ le16 port @ le32 addr @ replicate 8 0"

section \<open>Sockets\<close>

text \<open>\<open>if (rc < 0) { perror(\<dots>); return rc; }\<close> around a call, and then the rest.\<close>

definition try_call :: "'w kernel \<Rightarrow> call \<Rightarrow> string \<Rightarrow> (cint \<Rightarrow> ('w, cint) dry) \<Rightarrow> ('w, cint) dry" where
  "try_call K c msg rest =
     seq (sys K c) (\<lambda>r.
       if negative (r_ret r) then seq (run K (Perror msg)) (\<lambda>_. return (r_ret r)) else rest (r_ret r))"

text \<open>\<open>rc = f(\<dots>); if (rc < 0) return rc;\<close>\<close>

definition or_return :: "('w, cint) dry \<Rightarrow> (cint \<Rightarrow> ('w, cint) dry) \<Rightarrow> ('w, cint) dry" where
  "or_return m rest = seq m (\<lambda>rc. if negative rc then return rc else rest rc)"

definition make_nonblock :: "'w kernel \<Rightarrow> cint \<Rightarrow> ('w, cint) dry" where
  "make_nonblock K fd = try_call K (Set_nonblocking fd) ''ioctl(FIONBIO)'' (\<lambda>_. return 0)"

definition make_nodelay :: "'w kernel \<Rightarrow> cint \<Rightarrow> ('w, cint) dry" where
  "make_nodelay K fd =
     try_call K (Setsockopt fd SCTP_NODELAY (Int_value 1)) ''setsockoopt(NODELAY)'' (\<lambda>_. return 0)"

definition enable_events :: "'w kernel \<Rightarrow> cint \<Rightarrow> ('w, cint) dry" where
  "enable_events K fd =
     try_call K (Setsockopt fd SCTP_EVENTS (Event_subscribe True True)) ''setsockopt(EVENTS)''
       (\<lambda>_. return 0)"

definition create_sctp_socket :: "'w kernel \<Rightarrow> ('w, cint) dry" where
  "create_sctp_socket K =
     try_call K (Socket AF_INET SOCK_STREAM IPPROTO_SCTP) ''socket'' (\<lambda>fd.
       or_return (make_nodelay K fd) (\<lambda>_. return fd))"

definition create_sctp_socket_server :: "'w kernel \<Rightarrow> cushort \<Rightarrow> ('w, cint) dry" where
  "create_sctp_socket_server K port =
     or_return (create_sctp_socket K) (\<lambda>fd.
       try_call K (Bind fd (sockaddr_in (htons port) 0)) ''bind'' (\<lambda>_.
         try_call K (Listen fd 100) ''listen'' (\<lambda>_. return fd)))"

definition create_sctp_socket_client :: "'w kernel \<Rightarrow> 32 word \<Rightarrow> cushort \<Rightarrow> ('w, cint) dry" where
  "create_sctp_socket_client K srv_ip port =
     or_return (create_sctp_socket K) (\<lambda>fd.
       try_call K (Bind fd (sockaddr_in 3333 (htonl 0x7F000002))) ''bind'' (\<lambda>_.
         try_call K (Connect fd (sockaddr_in (htons port) (htonl srv_ip))) ''connect'' (\<lambda>_. return fd)))"

section \<open>Messages\<close>

text \<open>
  The buffer has 1024 bytes and all of them may be filled; \<open>buf[rc] = 0\<close> is then past its end. The
  reply holds the payload protocol id in \<open>r_val\<close>.
\<close>

definition read_data :: "'w kernel \<Rightarrow> cint \<Rightarrow> ('w, cint) dry" where
  "read_data K fd =
     seq (sys K (Recvmsg fd 1024)) (\<lambda>r.
       if negative (r_ret r) then
         if r_errno r = EAGAIN then return 0
         else seq (run K (Perror ''sctp_recvmsg'')) (\<lambda>_. return (r_ret r))
       else if r_ret r = 0 then
         seq (run K (Printf ''sctp_recvmsg: short read'' [])) (\<lambda>_. return (-1))
       else if r_flags r AND MSG_NOTIFICATION \<noteq> 0 then return 0
       else if 1024 \<le> unat (r_ret r) then crash Out_of_bounds
       else
         seq (run K (Printf ''Received %u bytes on PPID %u / Stream %u: %s''
           [to_long (r_ret r), ucast (htonl (r_val r)), ucast (r_stream r)])) (\<lambda>_. return 1))"

definition send_data :: "'w kernel \<Rightarrow> cint \<Rightarrow> ('w, cint) dry" where
  \<comment> \<open>the string sent has 24 characters; a return value of 0 is reported, but is no error\<close>
  "send_data K fd =
     seq (sys K (Sendmsg fd 24 [] (htonl 23) MSG_NOSIGNAL 0 0 0)) (\<lambda>r.
       if sint (r_ret r) \<le> 0 then seq (run K (Perror ''sctp_send'')) (\<lambda>_. return (r_ret r))
       else return 0)"

section \<open>The server\<close>

text \<open>
  One round of the inner loop: \<open>Inl\<close> to wait again, \<open>Inr\<close> after a \<open>break\<close>. When \<open>select\<close> gives a positive
  number, the one descriptor it was given is set.
\<close>

definition serve_round :: "'w kernel \<Rightarrow> cint \<Rightarrow> unit \<Rightarrow> ('w, unit + unit) dry" where
  "serve_round K fd u =
     seq (sys K (Select fd)) (\<lambda>r.
       if r_ret r = 0 then return (Inl ())
       else if negative (r_ret r) then seq (run K (Perror ''select'')) (\<lambda>_. return (Inr ()))
       else
         seq (read_data K fd) (\<lambda>rc.
           if negative rc then return (Inr ())
           else if rc = 1 then
             seq (run K (Printf ''Sending Response'' [])) (\<lambda>_.
               seq (send_data K fd) (\<lambda>rc'. if negative rc' then return (Inr ()) else return (Inl ())))
           else return (Inl ())))"

text \<open>One round of the outer loop: a connection from \<open>accept\<close> to \<open>close\<close>.\<close>

definition serve_connection :: "'w kernel \<Rightarrow> cint \<Rightarrow> bool \<Rightarrow> unit \<Rightarrow> ('w, unit + cint) dry" where
  "serve_connection K srv_fd enable_dry_events u =
     seq (sys K (Accept srv_fd)) (\<lambda>r.
       if negative (r_ret r) then return (Inr (r_ret r))
       else
         (let fd = r_ret r in
          seq (if enable_dry_events then enable_events K fd else return 0) (\<lambda>rc.
            if negative rc then return (Inr rc)
            else seq (make_nodelay K fd) (\<lambda>rc.
              if negative rc then return (Inr rc)
              else seq (make_nonblock K fd) (\<lambda>rc.
                if negative rc then return (Inr rc)
                else seq (iter (serve_round K fd) ()) (\<lambda>_.
                  seq (run K (Close fd)) (\<lambda>_. return (Inl ()))))))))"

definition server_mainloop :: "'w kernel \<Rightarrow> cint \<Rightarrow> bool \<Rightarrow> ('w, cint) dry" where
  "server_mainloop K srv_fd enable_dry_events = iter (serve_connection K srv_fd enable_dry_events) ()"

section \<open>Entry\<close>

definition print_usage_and_exit :: "'w kernel \<Rightarrow> cint \<Rightarrow> ('w, 'a) dry" where
  "print_usage_and_exit K rc =
     seq (run K (Printf ''You can call this program the following ways:'' [])) (\<lambda>_. exit_with rc)"

text \<open>\<open>while (read_data(fd) == 0) { }\<close>\<close>

definition wait_for_answer :: "'w kernel \<Rightarrow> cint \<Rightarrow> unit \<Rightarrow> ('w, unit + unit) dry" where
  "wait_for_answer K fd u =
     seq (read_data K fd) (\<lambda>rc. if rc = 0 then return (Inl ()) else return (Inr ()))"

text \<open>The functions end without a \<open>return\<close>: \<open>main\<close> then gives 0.\<close>

definition main_server_dry :: "'w kernel \<Rightarrow> bool \<Rightarrow> ('w, cint) dry" where
  "main_server_dry K enable_dry =
     seq (run K (Printf (if enable_dry then ''Running SCTP Server WITH DRY EVENTS''
         else ''Running SCTP Server'') [])) (\<lambda>_.
       seq (create_sctp_socket_server K 2905) (\<lambda>fd.
         if negative fd then
           seq (run K (Perror ''Error creating server socket'')) (\<lambda>_. exit_with 1)
         else seq (server_mainloop K fd enable_dry) (\<lambda>_. return 0)))"

definition main_client_dry :: "'w kernel \<Rightarrow> ('w, cint) dry" where
  "main_client_dry K =
     seq (run K (Printf ''Connecting SCTP Client'' [])) (\<lambda>_.
       seq (create_sctp_socket_client K 0x7f000001 2905) (\<lambda>fd.
         if negative fd then
           seq (run K (Perror ''Error creating client socket'')) (\<lambda>_. exit_with 1)
         else
           seq (run K (Printf ''Connected, sending data...'' [])) (\<lambda>_.
             seq (send_data K fd) (\<lambda>rc.
               if negative rc then exit_with 1
               else
                 seq (run K (Printf ''Waiting for response...'' [])) (\<lambda>_.
                   seq (iter (wait_for_answer K fd) ()) (\<lambda>_.
                     seq (run K (Close fd)) (\<lambda>_. return 0)))))))"

definition main_dry :: "'w kernel \<Rightarrow> string list \<Rightarrow> ('w, cint) dry" where
  "main_dry K argv =
     (if length argv \<le> 1 then print_usage_and_exit K 0
      else if argv ! 1 = ''server'' then
        if 2 < length argv then
          if argv ! 2 = ''dry'' then main_server_dry K True else print_usage_and_exit K 1
        else main_server_dry K False
      else if argv ! 1 = ''client'' then main_client_dry K
      else print_usage_and_exit K 1)"

end
