(* ===== verification/Dry_Props.thy ===== *)
theory Dry_Props
  imports Dry_Event C_Wp
begin

text \<open>
  What the programs of the dry event test do: the server is a state machine on the calls it makes
  (\<open>srv_step\<close>), in which every data message is answered once; it stops only when a call that sets up a
  socket or a connection fails, and does not return at all when none does; the addresses the two programs use
  are those they are called with, but for one port; a message that fills the buffer overflows it; and the
  client's status does not say whether an answer came.
\<close>

section \<open>The server as a state machine\<close>

datatype srv = Listening | Configuring cint | Ready cint | Readable cint | Answering cint
  | Failed cint | Stopped

definition notification :: "reply \<Rightarrow> bool" where
  "notification r \<longleftrightarrow> r_flags r AND MSG_NOTIFICATION \<noteq> 0"

inductive srv_step :: "srv \<Rightarrow> call \<times> reply \<Rightarrow> srv \<Rightarrow> bool" where
  report: "srv_step q (Printf c vs, r) q"
| report_error: "srv_step q (Perror c, r) q"
| accepted: "\<not> negative (r_ret r) \<Longrightarrow> srv_step Listening (Accept l, r) (Configuring (r_ret r))"
| not_accepted: "negative (r_ret r) \<Longrightarrow> srv_step Listening (Accept l, r) Stopped"
| configured: "\<not> negative (r_ret r) \<Longrightarrow>
    srv_step (Configuring fd) (Setsockopt fd opt v, r) (Configuring fd)"
| unblocked: "\<not> negative (r_ret r) \<Longrightarrow> srv_step (Configuring fd) (Set_nonblocking fd, r) (Ready fd)"
| not_configured: "negative (r_ret r) \<Longrightarrow> srv_step (Configuring fd) (Setsockopt fd opt v, r) Stopped"
| not_unblocked: "negative (r_ret r) \<Longrightarrow> srv_step (Configuring fd) (Set_nonblocking fd, r) Stopped"
| interrupted: "r_ret r = 0 \<Longrightarrow> srv_step (Ready fd) (Select fd, r) (Ready fd)"
| readable: "0 < sint (r_ret r) \<Longrightarrow> srv_step (Ready fd) (Select fd, r) (Readable fd)"
| not_selected: "negative (r_ret r) \<Longrightarrow> srv_step (Ready fd) (Select fd, r) (Failed fd)"
| received: "0 < sint (r_ret r) \<Longrightarrow> unat (r_ret r) < 1024 \<Longrightarrow> \<not> notification r \<Longrightarrow>
    srv_step (Readable fd) (Recvmsg fd 1024, r) (Answering fd)"
| notified: "0 < sint (r_ret r) \<Longrightarrow> notification r \<Longrightarrow>
    srv_step (Readable fd) (Recvmsg fd 1024, r) (Ready fd)"
| nothing: "negative (r_ret r) \<Longrightarrow> r_errno r = EAGAIN \<Longrightarrow>
    srv_step (Readable fd) (Recvmsg fd 1024, r) (Ready fd)"
| not_received: "negative (r_ret r) \<Longrightarrow> r_errno r \<noteq> EAGAIN \<Longrightarrow>
    srv_step (Readable fd) (Recvmsg fd 1024, r) (Failed fd)"
| ended: "r_ret r = 0 \<Longrightarrow> srv_step (Readable fd) (Recvmsg fd 1024, r) (Failed fd)"
| answered: "\<not> negative (r_ret r) \<Longrightarrow>
    srv_step (Answering fd) (Sendmsg fd 24 [] (htonl 23) MSG_NOSIGNAL 0 0 0, r) (Ready fd)"
| not_answered: "negative (r_ret r) \<Longrightarrow>
    srv_step (Answering fd) (Sendmsg fd 24 [] (htonl 23) MSG_NOSIGNAL 0 0 0, r) (Failed fd)"
| closed: "srv_step (Failed fd) (Close fd, r) Listening"

inductive srv_run :: "srv \<Rightarrow> (call \<times> reply) list \<Rightarrow> srv \<Rightarrow> bool" where
  no_call: "srv_run q [] q"
| one_more: "srv_run q tr q' \<Longrightarrow> srv_step q' e q'' \<Longrightarrow> srv_run q (tr @ [e]) q''"

lemma srv_run_single: "srv_step q e q' \<Longrightarrow> srv_run q [e] q'"
  using one_more [OF no_call] by simp

lemma srv_run_append: "srv_run q' tr' q'' \<Longrightarrow> srv_run q tr q' \<Longrightarrow> srv_run q (tr @ tr') q''"
proof (induction rule: srv_run.induct)
  case (no_call q)
  then show ?case by simp
next
  case (one_more q tr' q' e q'')
  from srv_run.one_more [OF one_more.IH [OF one_more.prems] one_more.hyps(2)] show ?case by simp
qed

lemma srv_run_Cons: "srv_step q e q' \<Longrightarrow> srv_run q' tr q'' \<Longrightarrow> srv_run q (e # tr) q''"
  using srv_run_append [OF _ srv_run_single] by fastforce

section \<open>The code follows it\<close>

lemma signs: "negative x \<or> x = 0 \<or> 0 < sint (x :: cint)"
  by (metis linorder_less_linear signed_0 signed_word_eqI)

lemma srv_run_reported:
  "srv_step q e q' \<Longrightarrow> srv_run q [e, (Printf c vs, r)] q'"
  "srv_step q e q' \<Longrightarrow> srv_run q [e, (Perror c, r)] q'"
  by (auto intro: srv_run_Cons srv_run_single srv_step.intros)

lemmas srv_intros = srv_run_reported srv_run_single srv_step.intros

lemma read_data_run:
  assumes "read_data K fd s = Some (Done rc, t)"
  shows "\<exists>tr. trace t = trace s @ tr \<and>
    (negative rc \<and> srv_run (Readable fd) tr (Failed fd) \<or>
     rc = 0 \<and> srv_run (Readable fd) tr (Ready fd) \<or>
     rc = 1 \<and> srv_run (Readable fd) tr (Answering fd))"
proof -
  let ?r = "fst (K (Recvmsg fd 1024) (world s))"
  let ?e = "(Recvmsg fd 1024, ?r)"
  consider (bad) "negative (r_ret ?r)" "r_errno ?r \<noteq> EAGAIN" | (again) "negative (r_ret ?r)" "r_errno ?r = EAGAIN"
    | (short) "r_ret ?r = 0" | (event) "0 < sint (r_ret ?r)" "notification ?r"
    | (data) "0 < sint (r_ret ?r)" "\<not> notification ?r"
    using signs by blast
  then show ?thesis
  proof cases
    case bad
    with assms have "rc = r_ret ?r"
      "trace t = trace s @ [?e, (Perror ''sctp_recvmsg'', fst (K (Perror ''sctp_recvmsg'')
        (snd (K (Recvmsg fd 1024) (world s)))))]"
      by (auto simp: read_data_def run_simps)
    moreover have step: "srv_step (Readable fd) ?e (Failed fd)"
      using bad by (intro srv_step.not_received)
    ultimately show ?thesis
      using bad srv_run_single [OF step] srv_run_reported [OF step] by auto
  next
    case again
    with assms have "rc = 0" "trace t = trace s @ [?e]"
      by (auto simp: read_data_def run_simps)
    moreover have step: "srv_step (Readable fd) ?e (Ready fd)"
      using again by (intro srv_step.nothing)
    ultimately show ?thesis
      using again srv_run_single [OF step] srv_run_reported [OF step] by auto
  next
    case short
    with assms have "rc = -1"
      "\<exists>r. trace t = trace s @ [?e, (Printf ''sctp_recvmsg: short read'' [], r)]"
      by (auto simp: read_data_def run_simps)
    moreover have step: "srv_step (Readable fd) ?e (Failed fd)"
      using short by (intro srv_step.ended)
    ultimately show ?thesis
      using short srv_run_single [OF step] srv_run_reported [OF step] by auto
  next
    case event
    then have "r_ret ?r \<noteq> 0" by auto
    with event assms have "rc = 0" "trace t = trace s @ [?e]"
      by (auto simp: read_data_def run_simps notification_def)
    moreover have step: "srv_step (Readable fd) ?e (Ready fd)"
      using event by (intro srv_step.notified)
    ultimately show ?thesis
      using event srv_run_single [OF step] srv_run_reported [OF step] by auto
  next
    case data
    then have "r_ret ?r \<noteq> 0" by auto
    with data assms have "rc = 1" "unat (r_ret ?r) < 1024"
      "\<exists>c vs r. trace t = trace s @ [?e, (Printf c vs, r)]"
      by (auto simp: read_data_def run_simps notification_def split: if_splits)
    moreover have step: "srv_step (Readable fd) ?e (Answering fd)"
      using data calculation by (auto intro: srv_step.received)
    ultimately show ?thesis
      using data srv_run_single [OF step] srv_run_reported [OF step] by auto
  qed
qed

lemma send_data_run:
  assumes "send_data K fd s = Some (Done rc, t)"
  shows "\<exists>tr. trace t = trace s @ tr \<and>
    srv_run (Answering fd) tr (if negative rc then Failed fd else Ready fd)"
proof -
  let ?c = "Sendmsg fd 24 [] (htonl 23) MSG_NOSIGNAL 0 0 0"
  let ?r = "fst (K ?c (world s))"
  from assms have rc: "negative rc \<longleftrightarrow> negative (r_ret ?r)"
    and tr: "trace t = trace s @ [(?c, ?r)] \<or> (\<exists>x. trace t = trace s @ [(?c, ?r), (Perror ''sctp_send'', x)])"
    by (auto simp: send_data_def run_simps split: if_splits)
  have step: "srv_step (Answering fd) (?c, ?r) (if negative rc then Failed fd else Ready fd)"
    using rc by (auto intro: srv_step.intros)
  from tr show ?thesis
    using srv_run_single [OF step] srv_run_reported(2) [OF step] by auto
qed

lemma serve_round_run:
  assumes "serve_round K fd u s = Some (Done x, t)"
  shows "\<exists>tr. trace t = trace s @ tr \<and>
    srv_run (Ready fd) tr (case x of Inl _ \<Rightarrow> Ready fd | Inr _ \<Rightarrow> Failed fd)"
proof -
  let ?r = "fst (K (Select fd) (world s))"
  let ?e = "(Select fd, ?r)"
  consider (zero) "r_ret ?r = 0" | (bad) "negative (r_ret ?r)" | (some) "0 < sint (r_ret ?r)"
    using signs by blast
  then show ?thesis
  proof cases
    case zero
    with assms have "x = Inl ()" "trace t = trace s @ [?e]"
      by (auto simp: serve_round_def run_simps)
    moreover have "srv_step (Ready fd) ?e (Ready fd)" using zero by (intro srv_step.interrupted)
    ultimately show ?thesis using srv_run_single by auto
  next
    case bad
    then have "r_ret ?r \<noteq> 0" by auto
    with bad assms have "x = Inr ()" "\<exists>r. trace t = trace s @ [?e, (Perror ''select'', r)]"
      by (auto simp: serve_round_def run_simps)
    moreover have "srv_step (Ready fd) ?e (Failed fd)" using bad by (intro srv_step.not_selected)
    ultimately show ?thesis using srv_run_reported(2) by auto
  next
    case some
    then have "r_ret ?r \<noteq> 0" "\<not> negative (r_ret ?r)" by auto
    with assms obtain rc v where rd: "read_data K fd (s\<lparr>world := snd (K (Select fd) (world s)),
        trace := trace s @ [?e]\<rparr>) = Some (Done rc, v)"
      and rest: "(if negative rc then return (Inr ())
        else if rc = 1 then
          seq (run K (Printf ''Sending Response'' [])) (\<lambda>_.
            seq (send_data K fd) (\<lambda>rc'. if negative rc' then return (Inr ()) else return (Inl ())))
        else return (Inl ())) v = Some (Done x, t)"
      unfolding serve_round_def by (auto simp: sys_run elim!: seq_DoneE)
    from read_data_run [OF rd] obtain tr where tr: "trace v = trace s @ ?e # tr"
      "negative rc \<and> srv_run (Readable fd) tr (Failed fd) \<or> rc = 0 \<and> srv_run (Readable fd) tr (Ready fd) \<or>
       rc = 1 \<and> srv_run (Readable fd) tr (Answering fd)" by auto
    note ready = srv_run_Cons [OF srv_step.readable [OF some]]
    show ?thesis
    proof (cases "rc = 1")
      case True
      with rest obtain w rc' where snd: "send_data K fd (v\<lparr>world := w, trace := trace v @
          [(Printf ''Sending Response'' [], fst (K (Printf ''Sending Response'' []) (world v)))]\<rparr>) = Some (Done rc', t)"
        and x: "x = (if negative rc' then Inr () else Inl ())"
        by (auto simp: run_run return_run elim!: seq_DoneE split: if_splits)
      from send_data_run [OF snd] obtain tr' where
        tr': "trace t = trace v @ (Printf ''Sending Response'' [], fst (K (Printf ''Sending Response'' []) (world v))) # tr'"
        "srv_run (Answering fd) tr' (if negative rc' then Failed fd else Ready fd)" by auto
      from True tr(2) have "srv_run (Readable fd) tr (Answering fd)" by auto
      from srv_run_append [OF srv_run_Cons [OF srv_step.report tr'(2)] ready [OF this]] tr(1) tr'(1) x
      show ?thesis by (intro exI) (auto split: if_splits)
    next
      case False
      with rest tr have "t = v" "x = (if negative rc then Inr () else Inl ())"
        by (auto simp: return_run split: if_splits)
      with False tr ready show ?thesis by (intro exI [of _ "?e # tr"]) auto
    qed
  qed
qed

lemma serve_rounds_run:
  assumes "iter (serve_round K fd) () s = Some (Done u, t)"
  shows "\<exists>tr. trace t = trace s @ tr \<and> srv_run (Ready fd) tr (Failed fd)"
  by (rule iter_rounds [where R = srv_run, OF assms])
    (use serve_round_run [of K fd] srv_run_append in \<open>fastforce+\<close>)

text \<open>The calls that set a connection up, each of which gives 0 or a negative number.\<close>

lemma try_call_0_run:
  assumes "try_call K c msg (\<lambda>_. return 0) s = Some (Done rc, t)"
    and ok: "\<And>r. \<not> negative (r_ret r) \<Longrightarrow> srv_step q (c, r) q'"
    and bad: "\<And>r. negative (r_ret r) \<Longrightarrow> srv_step q (c, r) Stopped"
  shows "\<exists>tr. trace t = trace s @ tr \<and> srv_run q tr (if negative rc then Stopped else q')"
proof -
  let ?r = "fst (K c (world s))"
  show ?thesis
  proof (cases "negative (r_ret ?r)")
    case True
    with assms(1) have "rc = r_ret ?r" "\<exists>r. trace t = trace s @ [(c, ?r), (Perror msg, r)]"
      by (auto simp: try_call_def run_simps)
    with srv_run_reported(2) [OF bad [OF True]] True show ?thesis by auto
  next
    case False
    with assms(1) have "rc = 0" "trace t = trace s @ [(c, ?r)]"
      by (auto simp: try_call_def run_simps)
    with srv_run_single [OF ok [OF False]] show ?thesis by auto
  qed
qed

lemma configure_run:
  "enable_events K fd s = Some (Done rc, t) \<Longrightarrow>
     \<exists>tr. trace t = trace s @ tr \<and> srv_run (Configuring fd) tr (if negative rc then Stopped else Configuring fd)"
  "make_nodelay K fd s = Some (Done rc, t) \<Longrightarrow>
     \<exists>tr. trace t = trace s @ tr \<and> srv_run (Configuring fd) tr (if negative rc then Stopped else Configuring fd)"
  "make_nonblock K fd s = Some (Done rc, t) \<Longrightarrow>
     \<exists>tr. trace t = trace s @ tr \<and> srv_run (Configuring fd) tr (if negative rc then Stopped else Ready fd)"
  unfolding enable_events_def make_nodelay_def make_nonblock_def
  by (erule try_call_0_run; auto intro: srv_step.intros)+

text \<open>A step that gives a negative number to stop with, or goes on.\<close>

lemma or_stop_run:
  assumes "seq m (\<lambda>rc. if negative rc then return (Inr rc) else f rc) s = Some (Done x, t)"
    and m: "\<And>rc u. m s = Some (Done rc, u) \<Longrightarrow>
      \<exists>tr. trace u = trace s @ tr \<and> srv_run q tr (if negative rc then Stopped else q')"
    and f: "\<And>rc u. f rc u = Some (Done x, t) \<Longrightarrow>
      \<exists>tr. trace t = trace u @ tr \<and> srv_run q' tr (case x of Inl _ \<Rightarrow> Listening | Inr _ \<Rightarrow> Stopped)"
  shows "\<exists>tr. trace t = trace s @ tr \<and> srv_run q tr (case x of Inl _ \<Rightarrow> Listening | Inr _ \<Rightarrow> Stopped)"
proof -
  from assms(1) obtain rc u where mu: "m s = Some (Done rc, u)"
    and rest: "(if negative rc then return (Inr rc) else f rc) u = Some (Done x, t)"
    by (rule seq_DoneE)
  from m [OF mu] obtain tr where tr: "trace u = trace s @ tr"
    "srv_run q tr (if negative rc then Stopped else q')" by blast
  show ?thesis
  proof (cases "negative rc")
    case True
    with rest have "x = Inr rc" "t = u" by (auto simp: return_run)
    with tr True show ?thesis by auto
  next
    case False
    with rest have "f rc u = Some (Done x, t)" by simp
    from f [OF this] obtain tr' where "trace t = trace u @ tr'"
      "srv_run q' tr' (case x of Inl _ \<Rightarrow> Listening | Inr _ \<Rightarrow> Stopped)" by blast
    with tr False srv_run_append show ?thesis by (intro exI [of _ "tr @ tr'"]) auto
  qed
qed

lemma serve_connection_run:
  assumes "serve_connection K srv_fd dry u s = Some (Done x, t)"
  shows "\<exists>tr. trace t = trace s @ tr \<and> srv_run Listening tr (case x of Inl _ \<Rightarrow> Listening | Inr _ \<Rightarrow> Stopped)"
proof -
  let ?r = "fst (K (Accept srv_fd) (world s))"
  let ?e = "(Accept srv_fd, ?r)"
  let ?fd = "r_ret ?r"
  let ?s1 = "s\<lparr>world := snd (K (Accept srv_fd) (world s)), trace := trace s @ [?e]\<rparr>"
  let ?goal = "\<lambda>q s. \<exists>tr. trace t = trace s @ tr \<and> srv_run q tr (case x of Inl _ \<Rightarrow> Listening | Inr _ \<Rightarrow> Stopped)"
  show ?thesis
  proof (cases "negative (r_ret ?r)")
    case True
    with assms have "x = Inr (r_ret ?r)" "trace t = trace s @ [?e]"
      by (auto simp: serve_connection_def run_simps)
    with srv_run_single [OF srv_step.not_accepted [OF True]] show ?thesis by auto
  next
    case False
    have last: "?goal (Ready ?fd) v"
      if last_run: "seq (iter (serve_round K ?fd) ()) (\<lambda>_. seq (run K (Close ?fd)) (\<lambda>_. return (Inl ()))) v =
        Some (Done x, t)" for v
    proof -
      from last_run obtain w where w: "iter (serve_round K ?fd) () v = Some (Done (), w)"
        and x: "x = Inl ()" "trace t = trace w @ [(Close ?fd, fst (K (Close ?fd) (world w)))]"
        by (auto simp: run_run return_run elim!: seq_DoneE)
      from serve_rounds_run [OF w] obtain tr where "trace w = trace v @ tr" "srv_run (Ready ?fd) tr (Failed ?fd)"
        by blast
      with x srv_run.one_more [OF _ srv_step.closed] show ?thesis
        by (intro exI [of _ "tr @ [(Close ?fd, fst (K (Close ?fd) (world w)))]"]) auto
    qed
    from assms False have body: "seq (if dry then enable_events K ?fd else return 0) (\<lambda>rc.
        if negative rc then return (Inr rc)
        else seq (make_nodelay K ?fd) (\<lambda>rc.
          if negative rc then return (Inr rc)
          else seq (make_nonblock K ?fd) (\<lambda>rc.
            if negative rc then return (Inr rc)
            else seq (iter (serve_round K ?fd) ()) (\<lambda>_.
              seq (run K (Close ?fd)) (\<lambda>_. return (Inl ())))))) ?s1 = Some (Done x, t)"
      by (simp add: serve_connection_def Let_def seq_Done [OF sys_run])
    have first: "\<exists>tr. trace v = trace ?s1 @ tr \<and>
        srv_run (Configuring ?fd) tr (if negative rc then Stopped else Configuring ?fd)"
      if "(if dry then enable_events K ?fd else return 0) ?s1 = Some (Done rc, v)" for rc v
      using that configure_run(1) [of K ?fd ?s1 rc v] srv_run.no_call [of "Configuring ?fd"]
      by (cases dry) (auto simp: return_run)
    have "?goal (Configuring ?fd) ?s1"
      by (rule or_stop_run [OF body first], assumption, erule or_stop_run, erule configure_run,
          erule or_stop_run, erule configure_run, erule last)
    then obtain tr where "trace t = trace ?s1 @ tr"
      "srv_run (Configuring ?fd) tr (case x of Inl _ \<Rightarrow> Listening | Inr _ \<Rightarrow> Stopped)" by blast
    with srv_run_Cons [OF srv_step.accepted [OF False]] show ?thesis
      by (intro exI [of _ "?e # tr"]) auto
  qed
qed

lemma server_loop_run:
  assumes "server_mainloop K srv_fd dry s = Some (Done rc, t)"
  shows "\<exists>tr. trace t = trace s @ tr \<and> srv_run Listening tr Stopped"
  using assms unfolding server_mainloop_def
  by (rule iter_rounds [where R = srv_run])
    (use serve_connection_run [of K srv_fd dry] srv_run_append in \<open>fastforce+\<close>)

section \<open>Every message is answered\<close>

definition reply_dry :: "cint \<Rightarrow> reply" where
  "reply_dry v = \<lparr>r_ret = v, r_errno = 0, r_val = 0, r_stream = 0, r_flags = 0, r_addr = [],
     r_family = AF_INET, r_time = 0\<rparr>"

fun is_data :: "call \<times> reply \<Rightarrow> bool" where
  "is_data (Recvmsg fd n, r) \<longleftrightarrow> 0 < sint (r_ret r) \<and> \<not> notification r"
| "is_data _ \<longleftrightarrow> False"

fun is_answer :: "call \<times> reply \<Rightarrow> bool" where
  "is_answer (Sendmsg fd len to ppid fl sid ttl ctx, r) \<longleftrightarrow> True"
| "is_answer _ \<longleftrightarrow> False"

fun owes :: "srv \<Rightarrow> nat" where
  "owes (Answering fd) = 1"
| "owes _ = 0"

abbreviation count :: "('a \<Rightarrow> bool) \<Rightarrow> 'a list \<Rightarrow> nat" where
  "count P xs \<equiv> length (filter P xs)"

lemma srv_step_balance:
  "srv_step q e q' \<Longrightarrow> owes q + (if is_data e then 1 else 0) = owes q' + (if is_answer e then 1 else 0)"
  by (induction rule: srv_step.induct) auto

lemma srv_run_balance:
  "srv_run q tr q' \<Longrightarrow> owes q + count is_data tr = owes q' + count is_answer tr"
proof (induction rule: srv_run.induct)
  case (one_more q tr q' e q'')
  with srv_step_balance [OF one_more.hyps(2)] show ?case by (auto split: if_splits)
qed simp

text \<open>A kernel that gives the replies it is told to, and then failures.\<close>

fun scripted :: "reply list kernel" where
  "scripted c [] = (reply_dry (-1), [])"
| "scripted c (r # rs) = (r, rs)"

text \<open>
  C13: whenever the server's loop ends, all that it did is a run of the state machine, from waiting
  for a connection to having stopped; in particular it has sent exactly as many messages as it
  received data messages, one right after each, whatever notifications, interruptions and errors
  came in between.
\<close>

theorem dry_server_answers_each_message:
  assumes "server_mainloop K srv_fd dry s = Some (Done rc, t)"
  shows "\<exists>tr. trace t = trace s @ tr \<and> srv_run Listening tr Stopped \<and>
    count is_answer tr = count is_data tr"
proof -
  from server_loop_run [OF assms] obtain tr where tr: "trace t = trace s @ tr" "srv_run Listening tr Stopped"
    by blast
  with srv_run_balance [OF tr(2)] show ?thesis by auto
qed

theorem dry_server_answers_each_message_witness:
  "\<exists>t tr. server_mainloop scripted 3 False \<lparr>mem = (), world = map reply_dry
      [5, 0, 0, 1, 10, 0, 0, 24, 1, 0, 0, 0], trace = []\<rparr> = Some (Done (-1), t) \<and> trace t = [] @ tr \<and>
    srv_run Listening tr Stopped \<and> count is_answer tr = count is_data tr \<and> count is_data tr = 1"
proof -
  let ?s = "\<lparr>mem = (), world = map reply_dry [5, 0, 0, 1, 10, 0, 0, 24, 1, 0, 0, 0], trace = []\<rparr>"
  have "\<exists>t. server_mainloop scripted 3 False ?s = Some (Done (-1), t) \<and> count is_data (trace t) = 1"
    by (simp add: server_mainloop_def iter.simps serve_connection_def serve_round_def Let_def run_simps
        reply_dry_def make_nodelay_def make_nonblock_def try_call_def read_data_def send_data_def
        MSG_NOTIFICATION_def notification_def)
  then obtain t where run: "server_mainloop scripted 3 False ?s = Some (Done (-1), t)"
    and n: "count is_data (trace t) = 1" by blast
  from dry_server_answers_each_message [OF run] run n show ?thesis by auto
qed

lemma fault_somewhere:
  assumes "\<And>fd s. \<exists>t. body fd x s = Some (Fault f, t)"
  shows "\<exists>g. \<forall>fd s. iter (body fd) x s = Some (Fault f, g fd s)"
proof -
  from assms obtain g where "\<And>fd s. body fd x s = Some (Fault f, g fd s)" by metis
  then have "iter (body fd) x s = Some (Fault f, g fd s)" for fd s
    by (subst iter.simps) simp
  then show ?thesis by blast
qed

text \<open>
  C38: a message that fills the buffer makes both programs, client and server, write one byte past its end.
\<close>

theorem dry_full_buffer_overflows:
  assumes "all_succeed K" and "\<And>fd w. r_ret (fst (K (Recvmsg fd 1024) w)) = 1024"
    and "\<And>fd w. \<not> notification (fst (K (Recvmsg fd 1024) w))"
  shows "(\<exists>t. main_dry K [prog, ''client''] s = Some (Fault Out_of_bounds, t)) \<and>
    (\<exists>t. main_dry K [prog, ''server''] s = Some (Fault Out_of_bounds, t))"
proof -
  note ok = all_succeed_replies [OF assms(1)]
  have sel: "\<not> negative (r_ret (fst (K (Select fd) w)))" "r_ret (fst (K (Select fd) w)) \<noteq> 0" for fd w
    using ok(9) [of fd w] by auto
  have read: "read_data K fd s = Some (Fault Out_of_bounds, s\<lparr>world := snd (K (Recvmsg fd 1024) (world s)),
      trace := trace s @ [(Recvmsg fd 1024, fst (K (Recvmsg fd 1024) (world s)))]\<rparr>)" for fd s
    using assms(2) [of fd "world s"] assms(3) [of fd "world s"] by (simp add: read_data_def run_simps notification_def)
  have wait: "\<exists>g. \<forall>fd s. iter (wait_for_answer K fd) () s = Some (Fault Out_of_bounds, g fd s)"
    by (rule fault_somewhere) (simp add: wait_for_answer_def seq_run read)
  have round: "\<exists>g. \<forall>fd s. iter (serve_round K fd) () s = Some (Fault Out_of_bounds, g fd s)"
    by (rule fault_somewhere) (simp add: serve_round_def run_simps sel read)
  then obtain g where g: "\<And>fd s. iter (serve_round K fd) () s = Some (Fault Out_of_bounds, g fd s)"
    by blast
  have conn: "\<exists>g. \<forall>fd s. iter (serve_connection K fd False) () s = Some (Fault Out_of_bounds, g fd s)"
    by (rule fault_somewhere)
      (simp add: serve_connection_def Let_def run_simps ok make_nodelay_def make_nonblock_def try_call_def g)
  have "\<exists>t. main_dry K [prog, ''client''] s = Some (Fault Out_of_bounds, t)"
    using wait by (auto simp add: main_dry_def main_client_dry_def run_simps create_sctp_socket_client_def
        create_sctp_socket_def or_return_def try_call_def make_nodelay_def send_data_def ok)
  moreover have "\<exists>t. main_dry K [prog, ''server''] s = Some (Fault Out_of_bounds, t)"
    using conn by (auto simp add: main_dry_def main_server_dry_def run_simps create_sctp_socket_server_def
        create_sctp_socket_def or_return_def try_call_def make_nodelay_def ok server_mainloop_def)
  ultimately show ?thesis by blast
qed

definition long_messages :: "unit kernel" where
  "long_messages c w =
     (case c of Recvmsg fd n \<Rightarrow> (reply_dry 1024, w) | _ \<Rightarrow> quiet_kernel c w)"

lemma long_messages_all_succeed: "all_succeed long_messages"
  using quiet_kernel_all_succeed unfolding all_succeed_def
  by (auto simp: long_messages_def reply_dry_def split: call.split)

theorem dry_full_buffer_overflows_witness:
  "(\<exists>t. main_dry long_messages [''sctp-dry-event'', ''client''] \<lparr>mem = (), world = (), trace = []\<rparr> =
      Some (Fault Out_of_bounds, t)) \<and>
    (\<exists>t. main_dry long_messages [''sctp-dry-event'', ''server''] \<lparr>mem = (), world = (), trace = []\<rparr> =
      Some (Fault Out_of_bounds, t))"
  by (rule dry_full_buffer_overflows [OF long_messages_all_succeed])
    (simp_all add: long_messages_def reply_dry_def notification_def MSG_NOTIFICATION_def)

section \<open>The client\<close>

text \<open>The port and the address of a \<open>struct sockaddr_in\<close>, both in network order in memory.\<close>

definition port_of :: "bytes \<Rightarrow> nat" where
  "port_of a = 256 * unat (a ! 2) + unat (a ! 3)"

definition address_of :: "bytes \<Rightarrow> nat list" where
  "address_of a = map unat [a ! 4, a ! 5, a ! 6, a ! 7]"

definition host_of :: "bytes \<Rightarrow> nat" where
  "host_of a = foldl (\<lambda>v b. 256 * v + b) 0 (address_of a)"

lemma sockaddr_in_read_back:
  "length (sockaddr_in (htons p) (htonl a)) = 16 \<and>
   port_of (sockaddr_in (htons p) (htonl a)) = unat p \<and>
   host_of (sockaddr_in (htons p) (htonl a)) = unat a"
proof -
  have port: "ucast (htons p) = (ucast (drop_bit 8 p) :: 8 word)" "ucast (drop_bit 8 (htons p)) = (ucast p :: 8 word)"
    by (rule bit_word_eqI; auto simp: htons_def bit_simps)+
  have masks: "(0xFF00 :: 32 word) = push_bit 8 (mask 8)" "(0xFF0000 :: 32 word) = push_bit 16 (mask 8)"
    by (simp_all add: mask_eq_exp_minus_1 push_bit_eq_mult)
  have host: "ucast (htonl a) = (ucast (drop_bit 24 a) :: 8 word)"
    "ucast (drop_bit 8 (htonl a)) = (ucast (drop_bit 16 a) :: 8 word)"
    "ucast (drop_bit 16 (htonl a)) = (ucast (drop_bit 8 a) :: 8 word)"
    "ucast (drop_bit 24 (htonl a)) = (ucast a :: 8 word)"
    by (rule bit_word_eqI; auto simp: htonl_def masks bit_simps)+
  have two: "256 * (n div 256 mod 256) + n mod 256 = n" if "n < 65536" for n :: nat
  proof -
    have "n div 256 mod 256 = n div 256" using that by simp
    then show ?thesis by (simp only: mult_div_mod_eq)
  qed
  have four: "256 * (256 * (256 * (n div 16777216 mod 256) + n div 65536 mod 256) + n div 256 mod 256) + n mod 256 = n"
    if "n < 4294967296" for n :: nat
  proof -
    have "n div 16777216 mod 256 = n div 256 div 256 div 256" "n div 65536 = n div 256 div 256"
      using that by (simp_all add: div_mult2_eq [symmetric] less_mult_imp_div_less)
    then show ?thesis by (simp only: mult_div_mod_eq)
  qed
  have byte: "unat (ucast x :: 8 word) = unat x mod 256" for x :: "'a::len word"
    by (simp add: unsigned_ucast_eq take_bit_eq_mod)
  have "port_of (sockaddr_in (htons p) (htonl a)) = unat p"
    using two [of "unat p"] unsigned_less [of p, where 'a = nat]
    by (simp add: port_of_def sockaddr_in_def le16_def le32_def port byte)
      (simp add: drop_bit_eq_div unat_div)
  moreover have "host_of (sockaddr_in (htons p) (htonl a)) = unat a"
    using four [of "unat a"] unsigned_less [of a, where 'a = nat]
    by (simp add: host_of_def address_of_def sockaddr_in_def le16_def le32_def host byte)
      (simp add: drop_bit_eq_div unat_div)
  moreover have "length (sockaddr_in (htons p) (htonl a)) = 16"
    by (simp add: sockaddr_in_def le16_def le32_def)
  ultimately show ?thesis by blast
qed

text \<open>The calls of a program that has made a socket of each kind.\<close>

lemma create_server_run:
  assumes "create_sctp_socket_server K port s = Some (Done fd, t)" and "\<not> negative fd"
  shows "\<exists>r1 r2 r3 r4. trace t = trace s @
    [(Socket AF_INET SOCK_STREAM IPPROTO_SCTP, r1), (Setsockopt fd SCTP_NODELAY (Int_value 1), r2),
     (Bind fd (sockaddr_in (htons port) 0), r3), (Listen fd 100, r4)]"
  using assms
  by (auto simp: create_sctp_socket_server_def create_sctp_socket_def make_nodelay_def or_return_def
      try_call_def run_simps split: if_splits)

lemma create_client_run:
  assumes "create_sctp_socket_client K ip port s = Some (Done fd, t)" and "\<not> negative fd"
  shows "\<exists>r1 r2 r3 r4. trace t = trace s @
    [(Socket AF_INET SOCK_STREAM IPPROTO_SCTP, r1), (Setsockopt fd SCTP_NODELAY (Int_value 1), r2),
     (Bind fd (sockaddr_in 3333 (htonl 0x7F000002)), r3),
     (Connect fd (sockaddr_in (htons port) (htonl ip)), r4)]"
  using assms
  by (auto simp: create_sctp_socket_client_def create_sctp_socket_def make_nodelay_def or_return_def
      try_call_def run_simps split: if_splits)

lemma htonl_0: "htonl 0 = 0"
  by (simp add: htonl_def)

text \<open>
  C33: where a server and a client have got their sockets, whatever the two kernels, the server has bound
  its one, before it listens, to every address of the machine and the port it was called with, and the client
  has connected its one to the host and the port it was called with, as whoever reads the 16 bytes in network
  order finds them: with the same port the two meet. The client's one, however, is bound to port 1293 of 127.0.0.2, and
  not to the port 3333 the code names, whose bytes it does not swap.
\<close>

theorem dry_addresses_meet:
  assumes "create_sctp_socket_server K port s = Some (Done fd, t)" and "\<not> negative fd"
    and "create_sctp_socket_client K' ip port' s' = Some (Done fd', t')" and "\<not> negative fd'"
  shows "(\<exists>a r1 r2 r3 r4. trace t = trace s @
       [(Socket AF_INET SOCK_STREAM IPPROTO_SCTP, r1), (Setsockopt fd SCTP_NODELAY (Int_value 1), r2),
        (Bind fd a, r3), (Listen fd 100, r4)] \<and>
       length a = 16 \<and> port_of a = unat port \<and> host_of a = 0) \<and>
    (\<exists>a b r1 r2 r3 r4. trace t' = trace s' @
       [(Socket AF_INET SOCK_STREAM IPPROTO_SCTP, r1), (Setsockopt fd' SCTP_NODELAY (Int_value 1), r2),
        (Bind fd' a, r3), (Connect fd' b, r4)] \<and>
       length b = 16 \<and> port_of b = unat port' \<and> host_of b = unat ip \<and>
       port_of a = 1293 \<and> address_of a = [127, 0, 0, 2])"
proof -
  have "port_of (sockaddr_in 3333 (htonl 0x7F000002)) = 1293 \<and>
      address_of (sockaddr_in 3333 (htonl 0x7F000002)) = [127, 0, 0, 2]"
    by (simp add: port_of_def address_of_def sockaddr_in_def le16_def le32_def htonl_def)
  moreover note sockaddr_in_read_back [of port' ip]
  moreover have "length (sockaddr_in (htons port) 0) = 16 \<and> port_of (sockaddr_in (htons port) 0) = unat port \<and>
      host_of (sockaddr_in (htons port) 0) = 0"
    using sockaddr_in_read_back [of port 0] by (simp add: htonl_0)
  moreover note create_server_run [OF assms(1,2)] create_client_run [OF assms(3,4)]
  ultimately show ?thesis by blast
qed

theorem dry_addresses_meet_witness:
  "\<exists>t t' a b r r'. create_sctp_socket_server scripted 2905
      \<lparr>mem = (), world = map reply_dry [3, 0, 0, 0], trace = []\<rparr> = Some (Done 3, t) \<and>
    create_sctp_socket_client scripted 0x7f000001 2905
      \<lparr>mem = (), world = map reply_dry [4, 0, 0, 0], trace = []\<rparr> = Some (Done 4, t') \<and>
    trace t ! 2 = (Bind 3 a, r) \<and> trace t' ! 3 = (Connect 4 b, r') \<and>
    port_of a = 2905 \<and> port_of b = 2905 \<and> host_of b = 0x7f000001"
proof -
  let ?s = "\<lambda>fd. \<lparr>mem = (), world = map reply_dry [fd, 0, 0, 0], trace = []\<rparr>"
  have "\<exists>t. create_sctp_socket_server scripted 2905 (?s 3) = Some (Done 3, t)"
    by (simp add: create_sctp_socket_server_def create_sctp_socket_def make_nodelay_def or_return_def
        try_call_def run_simps reply_dry_def)
  then obtain t where srv: "create_sctp_socket_server scripted 2905 (?s 3) = Some (Done 3, t)" by blast
  have "\<exists>t. create_sctp_socket_client scripted 0x7f000001 2905 (?s 4) = Some (Done 4, t)"
    by (simp add: create_sctp_socket_client_def create_sctp_socket_def make_nodelay_def or_return_def
        try_call_def run_simps reply_dry_def)
  then obtain t' where cli: "create_sctp_socket_client scripted 0x7f000001 2905 (?s 4) = Some (Done 4, t')"
    by blast
  from dry_addresses_meet [OF srv _ cli] obtain a r1 r2 r3 r4 a' b x1 x2 x3 x4 where
    "trace t = [(Socket AF_INET SOCK_STREAM IPPROTO_SCTP, r1), (Setsockopt 3 SCTP_NODELAY (Int_value 1), r2),
        (Bind 3 a, r3), (Listen 3 100, r4)]" "port_of a = unat (2905 :: cushort)"
    "trace t' = [(Socket AF_INET SOCK_STREAM IPPROTO_SCTP, x1), (Setsockopt 4 SCTP_NODELAY (Int_value 1), x2),
        (Bind 4 a', x3), (Connect 4 b, x4)]" "port_of b = unat (2905 :: cushort)"
    "host_of b = unat (0x7f000001 :: 32 word)"
    by auto
  with srv cli show ?thesis
    by (intro exI [of _ t] exI [of _ t'] exI [of _ a] exI [of _ b] exI [of _ r3] exI [of _ x4])
      (simp add: nth_Cons')
qed

text \<open>
  The client's status does not tell whether an answer came: when the wait ends because
  receiving failed (here with a reset connection), it still returns 0.
\<close>

definition reset_by_peer :: reply where
  "reset_by_peer = (reply_dry (-1))\<lparr>r_errno := 104\<rparr>"

lemma dry_client_succeeds_without_answer:
  "\<exists>t. main_dry scripted [''sctp-dry-event'', ''client'']
      \<lparr>mem = (), world = map reply_dry [0, 3, 0, 0, 0, 0, 24, 0] @ [reset_by_peer], trace = []\<rparr> =
      Some (Done 0, t) \<and> count is_data (trace t) = 0 \<and> (Recvmsg 3 1024, reset_by_peer) \<in> set (trace t)"
  by (simp add: main_dry_def main_client_dry_def iter.simps wait_for_answer_def run_simps
      create_sctp_socket_client_def create_sctp_socket_def make_nodelay_def or_return_def try_call_def
      read_data_def send_data_def reset_by_peer_def reply_dry_def EAGAIN_def)

section \<open>When the server stops\<close>

text \<open>The last call that is not a report.\<close>

fun reports_only :: "call \<Rightarrow> bool" where
  "reports_only (Printf c vs) \<longleftrightarrow> True"
| "reports_only (Perror c) \<longleftrightarrow> True"
| "reports_only _ \<longleftrightarrow> False"

definition last_call :: "(call \<times> reply) list \<Rightarrow> call \<times> reply" where
  "last_call tr = last (filter (\<lambda>e. \<not> reports_only (fst e)) tr)"

text \<open>What the last call was when the server could not start, when its loop was left, and when it went wrong.\<close>

fun start_call :: "call \<Rightarrow> bool" where
  "start_call (Socket d u p) \<longleftrightarrow> True"
| "start_call (Setsockopt fd opt v) \<longleftrightarrow> opt = SCTP_NODELAY"
| "start_call (Bind fd a) \<longleftrightarrow> True"
| "start_call (Listen fd n) \<longleftrightarrow> True"
| "start_call _ \<longleftrightarrow> False"

fun connection_call :: "call \<Rightarrow> bool" where
  "connection_call (Accept fd) \<longleftrightarrow> True"
| "connection_call (Setsockopt fd opt v) \<longleftrightarrow> True"
| "connection_call (Set_nonblocking fd) \<longleftrightarrow> True"
| "connection_call _ \<longleftrightarrow> False"

fun overlong :: "call \<times> reply \<Rightarrow> bool" where
  "overlong (Recvmsg fd n, r) \<longleftrightarrow> n = 1024 \<and> \<not> negative (r_ret r) \<and> 1024 \<le> unat (r_ret r) \<and>
     \<not> notification r"
| "overlong _ \<longleftrightarrow> False"

fun stopped_by :: "cint result \<Rightarrow> call \<times> reply \<Rightarrow> bool" where
  "stopped_by (Exit e) (c, r) \<longleftrightarrow> e = 1 \<and> start_call c \<and> negative (r_ret r)"
| "stopped_by (Done v) (c, r) \<longleftrightarrow> v = 0 \<and> connection_call c \<and> negative (r_ret r)"
| "stopped_by (Fault f) e \<longleftrightarrow> f = Out_of_bounds \<and> overlong e"

text \<open>A call with a reply that the kernel gives to it in some state.\<close>

definition replied :: "'w kernel \<Rightarrow> call \<times> reply \<Rightarrow> bool" where
  "replied K e \<longleftrightarrow> (\<exists>w. snd e = fst (K (fst e) w))"

lemma replied_call [simp]: "replied K (c, fst (K c w))"
  by (auto simp: replied_def)

abbreviation too_long :: "'w kernel \<Rightarrow> (call \<times> reply) list \<Rightarrow> bool" where
  "too_long K tr \<equiv> overlong (last_call tr) \<and> replied K (last_call tr)"

text \<open>The parts of the server, each with what the last call was when it is left.\<close>

lemma serve_round_left:
  "whenever (serve_round K fd u) (\<lambda>r t. case r of
     Done _ \<Rightarrow> True | Exit _ \<Rightarrow> False | Fault f \<Rightarrow> f = Out_of_bounds \<and> too_long K (trace t)) s"
  by (simp add: serve_round_def read_data_def send_data_def whenever_simps notification_def
      last_call_def)

lemma serve_rounds_left:
  "whenever (iter (serve_round K fd) u) (\<lambda>r t. case r of
     Done _ \<Rightarrow> True | Exit _ \<Rightarrow> False | Fault f \<Rightarrow> f = Out_of_bounds \<and> too_long K (trace t)) s"
  by (rule whenever_iter [where I = "\<lambda>_ _. True"])
    (auto intro: whenever_mono [OF serve_round_left] split: result.splits sum.splits)

lemma serve_connection_left:
  "whenever (serve_connection K srv_fd dry u) (\<lambda>r t. case r of
     Done (Inl _) \<Rightarrow> True
   | Done (Inr v) \<Rightarrow> stopped_by (Done 0) (last_call (trace t)) \<and> replied K (last_call (trace t))
   | Exit _ \<Rightarrow> False
   | Fault f \<Rightarrow> f = Out_of_bounds \<and> too_long K (trace t)) s"
  (is "whenever _ ?Q _")
proof -
  define rest :: "cint \<Rightarrow> ('a, unit + cint) dry" where
    "rest fd = seq (iter (serve_round K fd) ()) (\<lambda>_. seq (run K (Close fd)) (\<lambda>_. return (Inl ())))" for fd
  have rest: "whenever (rest fd) ?Q u" for fd u
    unfolding rest_def whenever_seq [of "iter body x" for body x]
    by (rule whenever_mono [OF serve_rounds_left]) (auto simp: whenever_simps split: result.splits)
  show ?thesis
    unfolding serve_connection_def rest_def [symmetric] enable_events_def make_nodelay_def make_nonblock_def
      try_call_def Let_def
    by (simp add: whenever_simps rest last_call_def)
qed

lemma server_mainloop_left:
  "whenever (server_mainloop K srv_fd dry) (\<lambda>r t. case r of
     Done v \<Rightarrow> stopped_by (Done 0) (last_call (trace t)) \<and> replied K (last_call (trace t)) | Exit _ \<Rightarrow> False
   | Fault f \<Rightarrow> f = Out_of_bounds \<and> too_long K (trace t)) s"
  unfolding server_mainloop_def
  by (rule whenever_iter [where I = "\<lambda>_ _. True"], simp, rule whenever_mono [OF serve_connection_left])
    (auto split: result.splits sum.splits)

lemma create_server_left:
  "whenever (create_sctp_socket_server K port) (\<lambda>r t. case r of
     Done fd \<Rightarrow> negative fd \<longrightarrow> stopped_by (Exit 1) (last_call (trace t)) \<and> replied K (last_call (trace t)) | _ \<Rightarrow> False) s"
  by (simp add: create_sctp_socket_server_def create_sctp_socket_def make_nodelay_def or_return_def
      try_call_def whenever_simps last_call_def)

lemma last_call_report: "reports_only c \<Longrightarrow> last_call (tr @ [(c, r)]) = last_call tr"
  by (simp add: last_call_def)

lemma stopped_by_Fault: "stopped_by (Fault f) e \<longleftrightarrow> f = Out_of_bounds \<and> overlong e"
  by (cases e) simp

lemma main_server_left:
  "whenever (main_server_dry K dry) (\<lambda>r t. stopped_by r (last_call (trace t)) \<and> replied K (last_call (trace t))) s"
proof -
  have loop: "whenever (seq (server_mainloop K fd dry) (\<lambda>_. return 0))
      (\<lambda>r t. stopped_by r (last_call (trace t)) \<and> replied K (last_call (trace t))) u" for fd u
    unfolding whenever_seq
    by (rule whenever_mono [OF server_mainloop_left])
      (auto simp: whenever_simps stopped_by_Fault split: result.splits)
  have "whenever (seq (create_sctp_socket_server K 2905) (\<lambda>fd.
      if negative fd then seq (run K (Perror ''Error creating server socket'')) (\<lambda>_. exit_with 1)
      else seq (server_mainloop K fd dry) (\<lambda>_. return 0)))
      (\<lambda>r t. stopped_by r (last_call (trace t)) \<and> replied K (last_call (trace t))) u" for u
    unfolding whenever_seq [of "create_sctp_socket_server K p" for p]
    by (rule whenever_mono [OF create_server_left])
      (auto simp: whenever_seq [of "run K c" for c] whenever_run whenever_exit last_call_report loop
        split: result.splits)
  then show ?thesis
    unfolding main_server_dry_def whenever_seq [of "run K c" for c] whenever_run by simp
qed

lemma main_dry_left:
  assumes "opts = [] \<or> hd opts = ''dry''"
  shows "whenever (main_dry K (prog # ''server'' # opts))
    (\<lambda>r t. stopped_by r (last_call (trace t)) \<and> replied K (last_call (trace t))) s"
proof -
  have "main_dry K (prog # ''server'' # opts) = main_server_dry K (opts \<noteq> [])"
    using assms by (cases opts) (auto simp: main_dry_def)
  with main_server_left [of K "opts \<noteq> []" s] show ?thesis by simp
qed

text \<open>
  C14: the server does not stop by itself. Whatever the kernel does, when the program that was started as the
  server ends, with dry events or without, then either it could not start, and gives 1 after a failed call of
  those that set its socket up; or it left its loop, and gives 0 after a failed \<open>accept\<close> or a failed call that
  sets up the connection it got; or a message filled its buffer. No failure to receive, to answer or to wait,
  and no end of a connection, makes it leave the loop.
\<close>

theorem dry_server_stops_only_on_failure:
  assumes "main_dry K (prog # ''server'' # opts) s = Some (r, t)"
    and "opts = [] \<or> hd opts = ''dry''"
  shows "stopped_by r (last_call (trace t)) \<and> replied K (last_call (trace t))"
  using main_dry_left [OF assms(2)] assms(1) unfolding whenever_def by blast

theorem dry_server_stops_only_on_failure_witness:
  "\<exists>t. main_dry scripted [''sctp-dry-event'', ''server'']
      \<lparr>mem = (), world = map reply_dry [0, 3, 0, 0, 0, 5, 0, 0, 1, -1, 0, 0], trace = []\<rparr> = Some (Done 0, t) \<and>
    stopped_by (Done 0) (last_call (trace t)) \<and> fst (last_call (trace t)) = Accept 3"
proof -
  let ?s = "\<lparr>mem = (), world = map reply_dry [0, 3, 0, 0, 0, 5, 0, 0, 1, -1, 0, 0], trace = []\<rparr>"
  have "\<exists>t. main_dry scripted [''sctp-dry-event'', ''server''] ?s = Some (Done 0, t) \<and>
      fst (last_call (trace t)) = Accept 3"
    by (simp add: main_dry_def main_server_dry_def create_sctp_socket_server_def create_sctp_socket_def
        or_return_def server_mainloop_def iter.simps serve_connection_def serve_round_def Let_def run_simps
        reply_dry_def make_nodelay_def make_nonblock_def try_call_def read_data_def send_data_def
        EAGAIN_def last_call_def)
  then obtain t where run: "main_dry scripted [''sctp-dry-event'', ''server''] ?s = Some (Done 0, t)"
    and last: "fst (last_call (trace t)) = Accept 3" by blast
  from dry_server_stops_only_on_failure [OF run] run last show ?thesis by auto
qed

text \<open>
  C40: on a kernel on which the calls that set up sockets and connections succeed and no message fills the
  buffer, the server never returns, whatever its peers do: clients may come and go, connections break, reads and answers
  fail. This is why the test's script has to kill it.
\<close>

theorem dry_server_never_returns:
  assumes "\<And>c w. start_call c \<or> connection_call c \<Longrightarrow> \<not> negative (r_ret (fst (K c w)))"
    and "\<And>fd w. negative (r_ret (fst (K (Recvmsg fd 1024) w))) \<or> unat (r_ret (fst (K (Recvmsg fd 1024) w))) < 1024"
    and "opts = [] \<or> hd opts = ''dry''"
  shows "main_dry K (prog # ''server'' # opts) s = None"
proof (rule ccontr)
  assume "main_dry K (prog # ''server'' # opts) s \<noteq> None"
  then obtain r t where "main_dry K (prog # ''server'' # opts) s = Some (r, t)" by auto
  with main_dry_left [OF assms(3)] have stop: "stopped_by r (last_call (trace t))" "replied K (last_call (trace t))"
    unfolding whenever_def by blast+
  obtain c x where e: "last_call (trace t) = (c, x)" by (cases "last_call (trace t)")
  with stop(2) obtain w where x: "x = fst (K c w)" by (auto simp: replied_def)
  show False
  proof (cases r)
    case (Fault f)
    with stop(1) e have "overlong (c, x)" by (auto simp: stopped_by_Fault)
    then obtain fd where "c = Recvmsg fd 1024" "\<not> negative (r_ret x)" "1024 \<le> unat (r_ret x)"
      by (cases c) auto
    with assms(2) [of fd w] x show False by auto
  qed (use stop(1) e x assms(1) [of c w] in auto)
qed

theorem dry_server_never_returns_witness:
  "main_dry quiet_kernel [''sctp-dry-event'', ''server'', ''dry''] \<lparr>mem = (), world = (), trace = []\<rparr> = None"
  by (rule dry_server_never_returns) (simp_all add: quiet_kernel_def split: call.split)

end
