(* ===== verification/Dry_Connections.thy ===== *)
theory Dry_Connections
  imports Dry_Props
begin

text \<open>
  The connections of the dry event server: at any time at most one is open, every call on a descriptor is on
  the one that is open, and it is closed before the next is accepted.
\<close>

section \<open>Runs and their prefixes\<close>

inductive_cases srv_runE: "srv_run q (tr @ [e]) q'"

inductive_simps srv_run_Nil: "srv_run q [] q'"

lemma srv_run_split: "srv_run q (tr @ tr') q'' \<Longrightarrow> \<exists>q'. srv_run q tr q' \<and> srv_run q' tr' q''"
proof (induction tr' arbitrary: q'' rule: rev_induct)
  case Nil
  then show ?case using no_call by auto
next
  case (snoc e tr')
  from snoc.prems have "srv_run q ((tr @ tr') @ [e]) q''" by simp
  then obtain q1 where "srv_run q (tr @ tr') q1" "srv_step q1 e q''"
    by (cases rule: srv_runE) auto
  with snoc.IH one_more show ?case by blast
qed

section \<open>The open connection\<close>

text \<open>The descriptors that \<open>accept\<close> gave, and the descriptor a call is on.\<close>

fun accepted :: "(call \<times> reply) list \<Rightarrow> cint list" where
  "accepted [] = []"
| "accepted ((Accept l, r) # tr) = (if negative (r_ret r) then accepted tr else r_ret r # accepted tr)"
| "accepted (_ # tr) = accepted tr"

lemma accepted_append [simp]: "accepted (tr @ tr') = accepted tr @ accepted tr'"
  by (induction tr rule: accepted.induct) auto

fun call_fd :: "call \<Rightarrow> cint option" where
  "call_fd (Setsockopt fd opt v) = Some fd"
| "call_fd (Set_nonblocking fd) = Some fd"
| "call_fd (Select fd) = Some fd"
| "call_fd (Recvmsg fd n) = Some fd"
| "call_fd (Sendmsg fd len to ppid fl sid ttl ctx) = Some fd"
| "call_fd (Close fd) = Some fd"
| "call_fd _ = None"

text \<open>The connection a state is about; one that could not be set up stays open when the server stops.\<close>

fun connection :: "srv \<Rightarrow> cint list" where
  "connection Listening = []"
| "connection Stopped = []"
| "connection (Configuring fd) = [fd]"
| "connection (Ready fd) = [fd]"
| "connection (Readable fd) = [fd]"
| "connection (Answering fd) = [fd]"
| "connection (Failed fd) = [fd]"

lemma srv_run_connection:
  assumes "srv_run Listening tr q"
  shows "\<exists>l. accepted tr = closed tr @ l \<and> length l \<le> 1 \<and> (q \<noteq> Stopped \<longrightarrow> l = connection q)"
  using assms
proof (induction Listening tr q rule: srv_run.induct)
  case no_call
  then show ?case by simp
next
  case (one_more tr q e q')
  from one_more(3) one_more(2) show ?case by (cases rule: srv_step.cases) auto
qed

lemma srv_step_fd: "srv_step q (c, r) q' \<Longrightarrow> call_fd c = Some fd \<Longrightarrow> connection q = [fd] \<and> q \<noteq> Stopped"
  by (cases rule: srv_step.cases) auto

text \<open>
  C18: the descriptors of the dry event server, whenever its loop ends: after any number of its calls at most one
  connection has been accepted and not been closed, and a call on a descriptor is on that connection; so
  none is used after it has been closed, and none is accepted while another is open.
\<close>

theorem dry_server_one_connection:
  assumes "server_mainloop K srv_fd dry s = Some (Done rc, t)"
  shows "\<exists>tr. trace t = trace s @ tr \<and>
    (\<forall>before e. prefix (before @ [e]) tr \<longrightarrow>
       (\<exists>l. accepted before = closed before @ l \<and> length l \<le> 1 \<and>
          (\<forall>fd. call_fd (fst e) = Some fd \<longrightarrow> l = [fd]) \<and>
          (\<forall>lfd. fst e = Accept lfd \<longrightarrow> l = [])))"
proof -
  from server_loop_run [OF assms] obtain tr where tr: "trace t = trace s @ tr" "srv_run Listening tr Stopped"
    by blast
  have "\<exists>l. accepted before = closed before @ l \<and> length l \<le> 1 \<and>
      (\<forall>fd. call_fd (fst e) = Some fd \<longrightarrow> l = [fd]) \<and> (\<forall>lfd. fst e = Accept lfd \<longrightarrow> l = [])"
    if "prefix (before @ [e]) tr" for before e
  proof -
    from that obtain rest where "tr = (before @ [e]) @ rest" by (auto elim: prefixE)
    with tr(2) obtain q' where "srv_run Listening (before @ [e]) q'"
      using srv_run_split by blast
    then obtain q where q: "srv_run Listening before q" "srv_step q e q'"
      by (cases rule: srv_runE) auto
    moreover have "q = Listening" if "fst e = Accept lfd" for lfd
      using q(2) that by (cases rule: srv_step.cases) auto
    ultimately show ?thesis
      using srv_run_connection [OF q(1)] srv_step_fd [of q "fst e" "snd e" q'] by (cases "q = Stopped") fastforce+
  qed
  with tr(1) show ?thesis by blast
qed

theorem dry_server_one_connection_witness:
  "\<exists>t. server_mainloop scripted 3 False \<lparr>mem = (), world = map reply_dry
      [5, 0, 0, 1, 10, 0, 0, 24, 1, 0, 0, 0], trace = []\<rparr> = Some (Done (-1), t) \<and>
    fst (trace t ! 3) = Select 5 \<and> accepted (take 3 (trace t)) = closed (take 3 (trace t)) @ [5]"
proof -
  let ?s = "\<lparr>mem = (), world = map reply_dry [5, 0, 0, 1, 10, 0, 0, 24, 1, 0, 0, 0], trace = []\<rparr>"
  have "\<exists>t. server_mainloop scripted 3 False ?s = Some (Done (-1), t) \<and>
      3 < length (trace t) \<and> fst (trace t ! 3) = Select 5"
    by (simp add: server_mainloop_def iter.simps serve_connection_def serve_round_def Let_def run_simps
        reply_dry_def make_nodelay_def make_nonblock_def try_call_def read_data_def send_data_def
        MSG_NOTIFICATION_def notification_def)
  then obtain t where run: "server_mainloop scripted 3 False ?s = Some (Done (-1), t)"
    and long: "3 < length (trace t)" and select: "fst (trace t ! 3) = Select 5" by blast
  have "prefix (take 3 (trace t) @ [trace t ! 3]) (trace t)"
    unfolding take_Suc_conv_app_nth [OF long, symmetric] by (rule take_is_prefix)
  with dry_server_one_connection [OF run] select
  have "accepted (take 3 (trace t)) = closed (take 3 (trace t)) @ [5]" by fastforce
  with run select show ?thesis by blast
qed

end
