(* ===== verification/Hashtable_Sockets.thy ===== *)
theory Hashtable_Sockets
  imports Hashtable_Props C_Wp
begin

text \<open>
  The sockets of the hash table test: the table keeps its shape and holds what was opened, in the order in which
  it was opened, and a run that returns 0 closes each of its sockets once.
\<close>

section \<open>The table and the sockets\<close>

text \<open>
  The table is 50 by 50. Its first \<open>n\<close> cells, counted row by row in rows of \<open>cnt\<close>, hold the sockets opened
  after the measured one; the first \<open>m\<close> of them are closed.
\<close>

definition wf_table :: "cint list list \<Rightarrow> bool" where
  "wf_table tab \<longleftrightarrow> length tab = 50 \<and> (\<forall>row \<in> set tab. length row = 50)"

lemma wf_table_update:
  assumes "wf_table tab" and "i < 50" and "j < 50"
  shows "wf_table (tab[i := (tab ! i)[j := fd]])"
    and "tab[i := (tab ! i)[j := fd]] ! i' ! j' = (if i' = i \<and> j' = j then fd else tab ! i' ! j')"
  using assms by (auto simp: wf_table_def nth_list_update dest!: subsetD [OF set_update_subset_insert])

definition cells :: "nat \<Rightarrow> nat \<Rightarrow> cint list list \<Rightarrow> cint list" where
  "cells cnt n tab = map (\<lambda>k. tab ! (k div cnt) ! (k mod cnt)) [0..<n]"

definition holds_sockets :: "nat \<Rightarrow> cint \<Rightarrow> nat \<Rightarrow> nat \<Rightarrow> (ht_memory, 'w) machine \<Rightarrow> bool" where
  "holds_sockets cnt fd n m s \<longleftrightarrow> wf_table (ht_fds (mem s)) \<and>
     opened (trace s) = fd # cells cnt n (ht_fds (mem s)) \<and>
     closed (trace s) = take m (cells cnt n (ht_fds (mem s)))"

lemma cells_Suc: "cells cnt (Suc n) tab = cells cnt n tab @ [tab ! (n div cnt) ! (n mod cnt)]"
  by (simp add: cells_def)

lemma cells_update:
  assumes "wf_table tab" and "i < 50" and "j < 50" and "j < cnt" and "n = i * cnt + j"
  shows "cells cnt n (tab[i := (tab ! i)[j := fd]]) = cells cnt n tab"
proof -
  have "\<not> (k div cnt = i \<and> k mod cnt = j)" if "k < n" for k
    using that div_mult_mod_eq [of k cnt] assms(5) by auto
  then show ?thesis
    unfolding cells_def wf_table_update(2) [OF assms(1-3)] by (intro map_cong) (simp_all del: de_Morgan_conj)
qed

lemma creates:
  assumes "holds_sockets cnt fd (i * cnt + j) 0 s" and "j < cnt"
  shows "wp (create_assoc K family port addr (Suc i) (Suc j))
    (\<lambda>_. holds_sockets cnt fd (i * cnt + Suc j) 0) s"
  using assms
  by (auto simp: create_assoc_def wp_simps Let_def sprintf_addr_def store_fd_def holds_sockets_def cells_Suc
      cells_update wf_table_update)

lemma creates_all:
  assumes "holds_sockets cnt fd 0 0 s"
  shows "wp (create_assocs K family port addr cnt) (\<lambda>_. holds_sockets cnt fd (cnt * cnt) 0) s"
  unfolding create_assocs_def by (rule wp_square, rule assms, rule creates)

lemma closes:
  assumes "i < cnt" and "j < cnt" and "holds_sockets cnt fd (cnt * cnt) (i * cnt + j) s"
  shows "wp (seq (load_fd (Suc i - 1) (Suc j - 1)) (\<lambda>fd. run K (Close fd)))
    (\<lambda>_. holds_sockets cnt fd (cnt * cnt) (i * cnt + Suc j)) s"
proof -
  have "i * cnt + j < cnt * cnt"
    using mult_le_mono1 [of "Suc i" cnt cnt] assms(1,2) by simp
  then have "take (Suc (i * cnt + j)) (cells cnt (cnt * cnt) tab) =
      take (i * cnt + j) (cells cnt (cnt * cnt) tab) @ [tab ! i ! j]" for tab
    using assms(2) by (simp add: take_Suc_conv_app_nth cells_def)
  then show ?thesis
    using assms(3) by (auto simp: load_fd_def wp_simps holds_sockets_def)
qed

lemma closes_all:
  assumes "holds_sockets cnt fd (cnt * cnt) 0 s"
  shows "wp (close_all K cnt) (\<lambda>_. holds_sockets cnt fd (cnt * cnt) (cnt * cnt)) s"
  unfolding close_all_def by (rule wp_square, rule assms, rule closes)

lemma sends_all:
  assumes "holds_sockets cnt fd n 0 s"
  shows "wp (repeat_loop LOOPS (send_byte K fd' addr)) (\<lambda>_. holds_sockets cnt fd n 0) s"
  using assms by (rule wp_repeat) (auto simp: send_byte_def wp_simps Let_def holds_sockets_def)

text \<open>What a run leaves that returns \<open>v\<close>.\<close>

definition all_closed :: "nat \<Rightarrow> cint \<Rightarrow> (ht_memory, 'w) machine \<Rightarrow> bool" where
  "all_closed cnt v t \<longleftrightarrow> wf_table (ht_fds (mem t)) \<and>
     length (opened (trace t)) = cnt * cnt + 1 \<and>
     closed (trace t) = (if v = 0 then rotate1 (opened (trace t)) else [])"

lemma measures:
  assumes "holds_sockets cnt fd (cnt * cnt) 0 s"
  shows "wp (measure_ht K fd addr cnt) (all_closed cnt) s"
proof -
  have one_more: "holds_sockets cnt fd n m (t\<lparr>world := w, trace := trace t @ tr\<rparr>) \<longleftrightarrow> holds_sockets cnt fd n m t"
    if "opened tr = []" "closed tr = []" for n m and t :: "(ht_memory, 'b) machine" and w tr
    using that by (simp add: holds_sockets_def)
  have close: "wp (close_all K cnt) Q t"
    if "holds_sockets cnt fd (cnt * cnt) 0 t" "\<And>u. holds_sockets cnt fd (cnt * cnt) (cnt * cnt) u \<Longrightarrow> Q () u" for Q t
    by (rule wp_mono [OF closes_all [OF that(1)]]) (simp add: that(2))
  have send: "wp (repeat_loop LOOPS (send_byte K fd addr)) Q t"
    if "holds_sockets cnt fd (cnt * cnt) 0 t" "\<And>u. holds_sockets cnt fd (cnt * cnt) 0 u \<Longrightarrow> Q () u" for Q t
    by (rule wp_mono [OF sends_all [OF that(1)]]) (simp add: that(2))
  have late: "all_closed cnt 1 t" if "holds_sockets cnt fd (cnt * cnt) 0 t" for t :: "(ht_memory, 'b) machine"
    using that by (simp add: all_closed_def holds_sockets_def cells_def)
  show ?thesis
    unfolding measure_ht_def wp_simps
    by (rule send)
      (auto simp: one_more assms late wp_simps simp del: block.simps intro!: close,
       simp add: all_closed_def holds_sockets_def cells_def)
qed

text \<open>
  C31: the sockets: whatever the kernel does, a run from the start that returns 0 has opened a socket for the
  measurement and one for each association, and has closed each of them once, the measured one last; a run that
  returns 1 has closed none. The table keeps its 50 rows of 50.
\<close>

theorem hashtable_closes_its_sockets:
  assumes "main_ht K argv \<lparr>mem = start_ht, world = w, trace = []\<rparr> = Some (Done v, t)"
    and "cnt = nat (sint (atoi (argv ! 4)))"
  shows "wf_table (ht_fds (mem t)) \<and> length (opened (trace t)) = cnt * cnt + 1 \<and>
    closed (trace t) = (if v = 0 then rotate1 (opened (trace t)) else [])"
proof -
  have create: "wp (create_assocs K family port addr cnt) Q s"
    if "holds_sockets cnt fd 0 0 s" "\<And>u. holds_sockets cnt fd (cnt * cnt) 0 u \<Longrightarrow> Q () u"
    for family port addr Q s fd
    by (rule wp_mono [OF creates_all [OF that(1)]]) (simp add: that(2))
  have "wp (main_ht K argv) (all_closed cnt) \<lparr>mem = start_ht, world = w, trace = []\<rparr>"
    unfolding main_ht_def Let_def assms(2) [symmetric]
    by (auto simp: wp_simps Let_def sprintf_addr_def intro!: create measures)
      (simp_all add: holds_sockets_def cells_def wf_table_def start_ht_def)
  with assms(1) show ?thesis unfolding wp_def all_closed_def by blast
qed

theorem hashtable_closes_its_sockets_witness:
  "\<exists>v t. main_ht quiet_kernel [''client'', ''10.0.0.1'', ''5000'', ''6000'', ''50'']
      \<lparr>mem = start_ht, world = (), trace = []\<rparr> = Some (Done v, t) \<and>
    length (opened (trace t)) = 2501 \<and>
    closed (trace t) = (if v = 0 then rotate1 (opened (trace t)) else [])"
proof -
  let ?argv = "[''client'', ''10.0.0.1'', ''5000'', ''6000'', ''50'']"
  let ?s = "\<lparr>mem = start_ht, world = (), trace = []\<rparr>"
  have fifty: "nat (sint (atoi (?argv ! 4))) = 50" by (simp add: atoi_eval)
  obtain r t tr where run: "main_ht quiet_kernel ?argv ?s = Some (r, t)"
    and r: "case r of Done v \<Rightarrow> acts tr = script_ht 50 v
      | Exit e \<Rightarrow> e = -1 \<and> (\<exists>v. prefix (acts tr) (script_ht 50 v)) \<and> broke quiet_kernel tr
      | Fault _ \<Rightarrow> False" and tr: "trace t = trace ?s @ tr"
    using ends_main [OF quiet_kernel_one_family _ fifty] unfolding ends_def by force
  from r obtain v where "r = Done v"
    using all_succeed_broke [OF quiet_kernel_all_succeed] by (cases r) auto
  with run hashtable_closes_its_sockets [OF _ fifty [symmetric], of quiet_kernel "()" v t] show ?thesis
    by auto
qed

end
