(* ===== verification/Spec2Isabelle.thy ===== *)
theory Spec2Isabelle
  imports Whole_Runs Dry_Connections Hashtable_Sockets
begin

text \<open>
  A verification development of the C programs of sctp-tests, a test suite for the SCTP code of the Linux
  kernel.

  The programs. Three conformance tests under \<open>testcase/conformance\<close>, each one program that is run as a server
  (\<open>-l\<close>) and as a client (\<open>-s\<close>) of a numbered case: \<open>strreset/strreset.c\<close> (resets of streams and associations,
  RFC 6525), \<open>prsctp/sctp_pr.c\<close> (partial reliability, RFC 3758 and RFC 7496) and \<open>ndatasched/sctp_ndata.c\<close>
  (stream schedulers, RFC 8260). They share a skeleton of sockets, of a context and of a protocol in which the
  length of a message is a command; the client queues messages of its case, mostly behind a firewall rule,
  and the server's exit status is the verdict on what arrives. Then two regression tests,
  \<open>dryevents/sctp-dry-event.c\<close> (a client and a server) and \<open>peeloffbusy/client.c\<close> (two threads), and a
  performance test, \<open>sctphashtable/client.c\<close>. A shell script \<open>test.sh\<close> beside each compiles and starts it and logs
  PASS when the status is 0, so what the status depends on is what the theorems are about.

  Theories and sources.
    \<^item> \<open>C_Prelude\<close>: C integers as words (LP64, little endian), \<open>atoi\<close>, \<open>htons\<close>, \<open>htonl\<close>, generic lemmas.
    \<^item> \<open>C_Machine\<close>: the calls the programs make (\<open>call\<close>), the replies, programs as functions on a state made of
      memory, kernel state and trace; undefined behaviour is the value \<open>Fault\<close>, \<open>exit\<close> the value \<open>Exit\<close>, a loop
      without end the value \<open>None\<close>; threads are lists of atomic statements under a schedule.
    \<^item> \<open>C_Logic\<close>: the judgement \<open>emits K P R m L\<close> (on kernel \<open>K\<close>, from memories in \<open>P\<close>, the program ends, does the
      actions \<open>L\<close> in order, or a prefix of them when a call failed, and keeps \<open>R\<close>); kernels on which no call fails.
    \<^item> \<open>C_Scripts\<close>: the same with a set of action lists, \<open>performs\<close>, for programs that use \<open>rand\<close>.
    \<^item> \<open>C_Wp\<close>: weakest preconditions \<open>wp p Q s\<close>, for what is said of the memory and the descriptors and not only of
      the actions; loops with invariants; \<open>whenever p Q s\<close> is the same for every outcome, exits and faults included.
    \<^item> \<open>Sn_Socket\<close>: what the three conformance programs have in common: \<open>struct sn_context\<close> and every function
      from \<open>sn_get_asoc_id\<close> to \<open>main\<close> that differs at most in a constant; \<open>sn_serve\<close> and \<open>serve_step\<close> are the
      loop of \<open>do_server\<close> and its body.
    \<^item> \<open>Cmd_Server\<close>: the interface of that loop: the locale \<open>cmd_server\<close> (an iteration takes one message and
      keeps the verdict as a fold over what it learned) and \<open>live_server\<close> (it makes progress on a kernel that
      delivers); \<open>Sn_Socket\<close> derives both from the contract of a check (\<open>sn_server\<close>, \<open>live_sn_server\<close>), and the
      three programs interpret these with their own checks (\<open>sr\<close>, \<open>pr\<close>, \<open>nd\<close>).
    \<^item> \<open>Strreset\<close>, \<open>Prsctp\<close>, \<open>Ndata\<close>: the case tables, tests, checks and \<open>main\<close> of the three programs, with
      \<open>Strreset_Props\<close>, \<open>Prsctp_Props\<close>, \<open>Ndata_Props\<close> (client), \<open>Ndata_Verdict\<close> (server and schedulers),
      \<open>Ndata_Traffic\<close> (messages, firewall), \<open>Ndata_Session\<close> (whole sessions of the server: when it reports the
      throughput, and too many messages) and \<open>Ndata_Fuzz\<close> (the random test that loses its case number).
    \<^item> \<open>Dry_Event\<close>, \<open>Hashtable\<close>, \<open>Peeloff\<close>: the other three programs, with \<open>Dry_Props\<close>, \<open>Hashtable_Props\<close>,
      \<open>Dry_Connections\<close>, \<open>Hashtable_Sockets\<close> and \<open>Peeloff_Props\<close>.
    \<^item> \<open>Suites\<close>: \<open>do_test\<close> of the scripts \<open>test.sh\<close> (which cases are run, what becomes of a status), on processes that
      are runs of the programs above, and what the log says after a whole script.
    \<^item> \<open>Driver\<close>: the test driver, the shell script \<open>sctp-tests\<close>, with \<open>libst/logging.sh\<close>: finding the cases of a plan,
      sourcing scripts and topologies, running their functions, logging, options and commands, on a shell of variables,
      functions and directories and a disk of files; \<open>Driver_Props\<close>: a plan as a function of its files;
      \<open>Driver_Log\<close>: what the tests log reaches the log;
      \<open>Upstream_Plan\<close>: the plan of the repository with its files, and what a run of it does.
    \<^item> \<open>Whole_Runs\<close>: driver, scripts and programs together: from what arrives at the servers of a conformance test to
      the log of a run of it.
    \<^item> This theory: what holds between the client and the server of one program, and case numbers that none of the three has.
  A definition has the name of the C function it models, with a suffix \<open>_sr\<close>, \<open>_pr\<close>, \<open>_nd\<close>, \<open>_ht\<close> or \<open>_pl\<close> where the
  programs use one name; \<open>sn_c\<close> is the member \<open>c\<close> (\<open>sched\<close> in \<open>sctp_ndata.c\<close>), \<open>sn_cb0\<close> to \<open>sn_cb3\<close> the array \<open>cb\<close>,
  whose index 4, used by \<open>sctp_pr.c\<close>, is the 8 bytes behind it.

  What the lemmas show. For clients: the exact script of messages, options, firewall commands and pauses for
  every case, kernel, schedule and random sequence, and that it is done to its end when no call fails. For
  servers: that a server that returns has seen a whole session, that it does return on a kernel that delivers
  one, and its status as a function of the lengths or streams that arrived; these functions are compared
  with what the tests are meant to tell: the counts a client sends, the order of a scheduler written from
  RFC 8260, the messages partial reliability keeps. For the dry event test: the server as a state machine,
  at most one connection open at a time, what makes it stop (only a failed call that sets up a socket or a
  connection, so that the test has to kill it), the addresses the two programs meet at. For the hash table test: its addresses, the traffic
  of a run, the bound and the shape of its table, and that the sockets it closes are those it opened. For the
  peel-off test: the verdict and the firewall under every schedule. For the scripts: which lines the log of a whole
  script has, from what the servers of its cases were delivered. For the driver: which functions of which files
  run in a plan, when cases are independent of each other, and what a run of the repository's plan sets up.
  Undefined behaviour and other departures from what the code means are theorems too.

  The kernel, the shell behind \<open>system\<close>, \<open>getaddrinfo\<close>, time and \<open>rand\<close> are one parameter of every program, a
  function from a call and a state of any type to a reply and a state. Client scripts, verdicts and firewall
  theorems hold for all kernels. Where a theorem needs more it says so: \<open>all_succeed\<close> (the return values the
  manual pages give for success), \<open>delivers\<close> (receiving takes the next message of an inbox, the other calls
  succeed and leave it alone), \<open>short_addresses\<close> and \<open>one_family\<close> (addresses of the family asked for),
  \<open>clock_runs\<close> (the time is not 0). Each has a concrete kernel for which it holds: \<open>quiet_kernel\<close>, \<open>mailbox\<close>,
  \<open>clocked\<close>, \<open>scripted\<close> and others.

  Bounds. There is no fuel: loops that may run for ever are \<open>iter\<close>, a partial function, and returning is proved
  or is a hypothesis of the theorem. The constants are those of the code: buffers of 10240, 1024 and 64 bytes,
  tables of 19 and 21 cases and of 50 by 50 sockets, at most nine streams in an expected order, 100 attempts
  to send. Sums are kept at the 64 bits of \<open>long\<close> and products at the 32 bits of \<open>int\<close>.

  Not modelled: the contents of messages and most texts of the usage messages; \<open>memset\<close> of addresses, \<open>malloc\<close>
  and \<open>freeaddrinfo\<close>, which succeed without effect here; option lengths; a \<open>pthread_create\<close> that fails; data races
  within one statement; \<open>printf\<close> of a \<open>long\<close> with a format for an \<open>int\<close> (\<open>check_total_sr\<close>, \<open>print_expected_pr\<close>), taken to
  print its value and to do no harm; signals but for \<open>SIGPIPE\<close>; the SCTP implementation itself. Of the shell code the
  driver and \<open>do_test\<close> of five test scripts are modelled, the latter without the \<open>sysctl\<close> calls that configure the kernel; the scripts of the two
  stress tests and of the hash table test (which runs its program under \<open>timeout\<close>), \<open>do_setup\<close> and \<open>do_clean\<close>, the
  packages that \<open>libst\<close> installs and the bodies of the network topologies do their work by commands of the system (compilers, \<open>ip\<close>,
  \<open>iptables\<close>, \<open>ssh\<close>, \<open>timeout\<close>): there is nothing of them to compute with. The files \<open>suite\<close> of the plan are those the
  plan names and what they source, with the permissions of these files alone (\<open>dryevents/test.sh\<close> is in no plan). In the driver the bodies
  are a parameter, the lines they log, and are taken to leave its variables and directory alone; \<open>getopt\<close>, the interactive
  shell and word splitting beyond blanks are not modelled either.
\<close>

section \<open>A client and its server\<close>

text \<open>
  C8: strreset.c against itself: a client of any of the seven cases, on a kernel on which no call fails, returns 0;
  and a server of the case, on a kernel that delivers exactly the messages that the client has sent, returns 0.
\<close>

theorem strreset_end_to_end:
  assumes "n < 7" and "atoi c = of_nat n" and "all_succeed Kc" and "delivers Ks inbox"
  shows "\<exists>tc trc. main_sr Kc [prog, ip, port, c, ''-s''] sc = Some (Done 0, tc) \<and>
    trace tc = trace sc @ trc \<and>
    (map fst (inbox (world ss)) = messages (acts trc) \<longrightarrow>
       (\<exists>ts. main_sr Ks [prog, ip, port, c, ''-l''] ss = Some (Done 0, ts)))"
proof -
  obtain tc trc where client: "main_sr Kc [prog, ip, port, c, ''-s''] sc = Some (Done 0, tc)"
    "trace tc = trace sc @ trc" and script: "acts trc = client_script_sr n"
    using main_sr_client_completes [OF assms(3,1,2)] by blast
  have "\<exists>ts. main_sr Ks [prog, ip, port, c, ''-l''] ss = Some (Done 0, ts)"
    if "map fst (inbox (world ss)) = messages (acts trc)"
    using main_sr_on_values [OF assms(4,1,2), of ss "count_sr n" prog ip port] that
    by (simp add: script client_script_traffic(1) [OF assms(1)])
  with client show ?thesis by blast
qed

theorem strreset_end_to_end_witness:
  "(\<exists>tc. main_sr quiet_kernel [''strreset'', ''10.0.0.1'', ''8888'', ''6'', ''-s'']
      \<lparr>mem = zero_context, world = (), trace = []\<rparr> = Some (Done 0, tc)) \<and>
    (\<exists>ts. main_sr mailbox [''strreset'', ''10.0.0.1'', ''8888'', ''6'', ''-l'']
      \<lparr>mem = zero_context, world = (11, 0) # replicate 14 (100, 1) @ [(12, 0)], trace = []\<rparr> = Some (Done 0, ts))"
proof -
  let ?sc = "\<lparr>mem = zero_context, world = (), trace = []\<rparr>"
  let ?ss = "\<lparr>mem = zero_context, world = (11, 0) # replicate 14 (100, 1) @ [(12, 0)], trace = []\<rparr>"
  obtain tc trc where run: "main_sr quiet_kernel [''strreset'', ''10.0.0.1'', ''8888'', ''6'', ''-s''] ?sc = Some (Done 0, tc)"
    "trace tc = trace ?sc @ trc" and server: "map fst (world ?ss) = messages (acts trc) \<longrightarrow>
      (\<exists>ts. main_sr mailbox [''strreset'', ''10.0.0.1'', ''8888'', ''6'', ''-l''] ?ss = Some (Done 0, ts))"
    using strreset_end_to_end [of 6 "''6''" quiet_kernel mailbox "\<lambda>ms. ms" "''strreset''" "''10.0.0.1''" "''8888''" ?sc ?ss]
      mailbox_delivers by (auto simp: atoi_eval)
  have "acts trc = client_script_sr 6"
    by (rule main_sr_client_acts [OF quiet_kernel_all_succeed _ _ run]) (simp_all add: atoi_eval)
  then have "map fst (world ?ss) = messages (acts trc)"
    by (simp add: client_script_traffic(1) sn_cmds count_sr_eval value_sr_def case_sr_simps map_replicate)
  with run server show ?thesis by blast
qed

text \<open>
  C3: sctp_ndata.c against itself: the client of a conformance case, on a kernel on which no call fails, returns 0;
  and whatever at most nine streams its messages arrive on between the two commands, the server passes
  exactly when they are the first ones that a sender with the client's scheduler transmits of what the client
  queued. So the right order passes and any other order of the nine fails; but a run that loses the
  last messages, or all of them, passes.
\<close>

theorem ndata_passes_iff_scheduled:
  assumes "n \<in> {0, 1, 7, 13}" and "atoi c = of_nat n" and "all_succeed Kc" and "delivers Ks inbox"
    and "length sids \<le> 9"
    and "inbox (world ss) = (SN_CMD_SET_STRRESET, 0) # map (Pair 1024) sids @ [(SN_CMD_CLOSE_ASOC, 0)]"
  shows "\<exists>tc trc ts. main_nd Kc [prog, ip, port, c, ''-s''] sc = Some (Done 0, tc) \<and>
    trace tc = trace sc @ trc \<and>
    main_nd Ks [prog, ip, port, c, ''-l''] ss =
      Some (Done (if prefix sids (transmission_order (acts trc)) then 0 else 1), ts)"
proof -
  have "n < 21" using assms(1) by auto
  from main_nd_client_completes [OF assms(3) this assms(2), of prog ip port sc]
  obtain tc trc where client: "main_nd Kc [prog, ip, port, c, ''-s''] sc = Some (Done 0, tc)"
    "trace tc = trace sc @ trc" and script: "acts trc \<in> client_scripts_nd n" by blast
  from main_nd_on_streams [OF assms(4,1,2) script assms(5,6), of prog ip port] client
  show ?thesis by blast
qed

theorem ndata_passes_iff_scheduled_witness:
  "\<exists>tc trc ts. main_nd quiet_kernel [''sctp_ndata'', ''10.0.0.1'', ''8888'', ''7'', ''-s'']
      \<lparr>mem = zero_context, world = (), trace = []\<rparr> = Some (Done 0, tc) \<and> trace tc = [] @ trc \<and>
    main_nd mailbox [''sctp_ndata'', ''10.0.0.1'', ''8888'', ''7'', ''-l'']
      \<lparr>mem = zero_context, world = [(11, 0), (1024, 1), (1024, 2), (12, 0)], trace = []\<rparr> =
      Some (Done (if prefix [1, 2] (transmission_order (acts trc)) then 0 else 1), ts)"
  using ndata_passes_iff_scheduled [of 7 "''7''" quiet_kernel mailbox "\<lambda>ms. ms" "[1, 2]"
      "\<lparr>mem = zero_context, world = [(11, 0), (1024, 1), (1024, 2), (12, 0)], trace = []\<rparr>"
      "''sctp_ndata''" "''10.0.0.1''" "''8888''" "\<lparr>mem = zero_context, world = (), trace = []\<rparr>"]
    mailbox_delivers
  by (simp add: atoi_eval sn_cmds)

text \<open>
  C11: sctp_pr.c against itself: the client of any case, on a kernel on which no call fails and under any schedule
  of its threads, returns 0; and the server passes when what arrives is what is left of the client's messages
  without those its policy lets it abandon.
\<close>

theorem prsctp_passes_with_policies:
  assumes "n < 11" and "atoi c = of_nat n" and "all_succeed Kc" and "delivers Ks inbox"
  shows "\<exists>tc trc. main_pr Kc sched [prog, ip, port, c, ''-s''] sc = Some (Done 0, tc) \<and>
    trace tc = trace sc @ trc \<and>
    (map fst (inbox (world ss)) =
       messages (filter (\<lambda>a. \<not> expendable (values_pr (sn_cases_pr ! n) ! 0) a) (acts trc)) \<longrightarrow>
       (\<exists>ts. main_pr Ks sched [prog, ip, port, c, ''-l''] ss = Some (Done 0, ts)))"
proof -
  obtain tc trc where client: "main_pr Kc sched [prog, ip, port, c, ''-s''] sc = Some (Done 0, tc)"
    "trace tc = trace sc @ trc" and script: "acts trc = client_script_pr n sched"
    using main_pr_client_completes [OF assms(3,1,2)] by blast
  have "\<exists>ts. main_pr Ks sched [prog, ip, port, c, ''-l''] ss = Some (Done 0, ts)"
    if "map fst (inbox (world ss)) =
      messages (filter (\<lambda>a. \<not> expendable (values_pr (sn_cases_pr ! n) ! 0) a) (acts trc))"
    using main_pr_on_surviving [OF assms(4,1,2), of ss sched sched prog ip port] that
    by (simp add: script surviving_pr_def)
  with client show ?thesis by blast
qed

theorem prsctp_passes_with_policies_witness:
  "(\<exists>tc. main_pr quiet_kernel [True] [''sctp_pr'', ''10.0.0.1'', ''8888'', ''9'', ''-s'']
      \<lparr>mem = zero_context, world = (), trace = []\<rparr> = Some (Done 0, tc)) \<and>
    (\<exists>ts. main_pr mailbox [True] [''sctp_pr'', ''10.0.0.1'', ''8888'', ''9'', ''-l''] \<lparr>mem = zero_context,
      world = [(1, 1), (1, 1), (1000, 1), (1000, 1), (12, 0)], trace = []\<rparr> = Some (Done 0, ts))"
proof -
  let ?sc = "\<lparr>mem = zero_context, world = (), trace = []\<rparr>"
  let ?ss = "\<lparr>mem = zero_context, world = [(1, 1), (1, 1), (1000, 1), (1000, 1), (12, 0)], trace = []\<rparr>"
  obtain tc trc where
    run: "main_pr quiet_kernel [True] [''sctp_pr'', ''10.0.0.1'', ''8888'', ''9'', ''-s''] ?sc = Some (Done 0, tc)"
      "trace tc = trace ?sc @ trc"
    and server: "map fst (world ?ss) =
        messages (filter (\<lambda>a. \<not> expendable (values_pr (sn_cases_pr ! 9) ! 0) a) (acts trc)) \<longrightarrow>
      (\<exists>ts. main_pr mailbox [True] [''sctp_pr'', ''10.0.0.1'', ''8888'', ''9'', ''-l''] ?ss = Some (Done 0, ts))"
    using prsctp_passes_with_policies [of 9 "''9''" quiet_kernel mailbox "\<lambda>ms. ms" "[True]" "''sctp_pr''"
      "''10.0.0.1''" "''8888''" ?sc ?ss] mailbox_delivers by (auto simp: atoi_eval)
  have "acts trc = client_script_pr 9 [True]"
    by (rule main_pr_client_acts [OF quiet_kernel_all_succeed _ _ run]) (simp_all add: atoi_eval)
  then have "map fst (world ?ss) =
      messages (filter (\<lambda>a. \<not> expendable (values_pr (sn_cases_pr ! 9) ! 0) a) (acts trc))"
    using messages_client_pr(2) [of 9 "[True]"] by (simp add: surviving_pr_def surviving_lengths_def sn_cmds)
  with run server show ?thesis by blast
qed

text \<open>
  C12: what the cases of sctp_pr.c can tell: when nothing is abandoned and every message of the client arrives, as on a
  kernel without partial reliability, only the five cases with a counting check fail; the other six, whose
  check looks at the last message alone, pass all the same.
\<close>

theorem prsctp_detects_full_reliability:
  assumes "n < 11" and "atoi c = of_nat n" and "all_succeed Kc" and "delivers Ks inbox"
  shows "\<exists>tc trc. main_pr Kc sched [prog, ip, port, c, ''-s''] sc = Some (Done 0, tc) \<and>
    trace tc = trace sc @ trc \<and>
    (map fst (inbox (world ss)) = messages (acts trc) \<longrightarrow>
       (\<exists>ts. main_pr Ks sched [prog, ip, port, c, ''-l''] ss =
          Some (Done (if n \<in> {2, 5, 8, 9, 10} then 1 else 0), ts)))"
proof -
  obtain tc trc where client: "main_pr Kc sched [prog, ip, port, c, ''-s''] sc = Some (Done 0, tc)"
    "trace tc = trace sc @ trc" and script: "acts trc = client_script_pr n sched"
    using main_pr_client_completes [OF assms(3,1,2)] by blast
  have "\<exists>ts. main_pr Ks sched [prog, ip, port, c, ''-l''] ss =
      Some (Done (if n \<in> {2, 5, 8, 9, 10} then 1 else 0), ts)"
    if "map fst (inbox (world ss)) = messages (acts trc)"
    by (rule main_pr_on_offered [OF assms(4,1,2)]) (simp add: that script)
  with client show ?thesis by blast
qed

theorem prsctp_detects_full_reliability_witness:
  "(\<exists>tc. main_pr quiet_kernel [] [''sctp_pr'', ''10.0.0.1'', ''8888'', ''2'', ''-s'']
      \<lparr>mem = zero_context, world = (), trace = []\<rparr> = Some (Done 0, tc)) \<and>
    (\<exists>ts. main_pr mailbox [] [''sctp_pr'', ''10.0.0.1'', ''8888'', ''2'', ''-l''] \<lparr>mem = zero_context,
      world = [(100, 1), (100, 1), (100, 1), (12, 0)], trace = []\<rparr> = Some (Done 1, ts))"
proof -
  let ?sc = "\<lparr>mem = zero_context, world = (), trace = []\<rparr>"
  let ?ss = "\<lparr>mem = zero_context, world = [(100, 1), (100, 1), (100, 1), (12, 0)], trace = []\<rparr>"
  obtain tc trc where
    run: "main_pr quiet_kernel [] [''sctp_pr'', ''10.0.0.1'', ''8888'', ''2'', ''-s''] ?sc = Some (Done 0, tc)"
      "trace tc = trace ?sc @ trc"
    and server: "map fst (world ?ss) = messages (acts trc) \<longrightarrow>
      (\<exists>ts. main_pr mailbox [] [''sctp_pr'', ''10.0.0.1'', ''8888'', ''2'', ''-l''] ?ss = Some (Done 1, ts))"
    using prsctp_detects_full_reliability [of 2 "''2''" quiet_kernel mailbox "\<lambda>ms. ms" "[]" "''sctp_pr''"
      "''10.0.0.1''" "''8888''" ?sc ?ss] mailbox_delivers by (auto simp: atoi_eval)
  have "acts trc = client_script_pr 2 []"
    by (rule main_pr_client_acts [OF quiet_kernel_all_succeed _ _ run]) (simp_all add: atoi_eval)
  then have "map fst (world ?ss) = messages (acts trc)"
    using messages_client_pr(1) [of 2 "[]"] by (simp add: offered_lengths_def sn_cmds)
  with run server show ?thesis by blast
qed

section \<open>Cases there are not\<close>

text \<open>
  C37: the case number is not looked at: a client given a number outside its table reads past the table, and one
  given the number of an entry that the table leaves empty calls a null pointer, after connecting in both cases.
\<close>

theorem sn_missing_cases:
  assumes "all_succeed K" and "k = sint (atoi c)"
  shows "(\<not> (0 \<le> k \<and> k < 7) \<longrightarrow> (\<exists>t. main_sr K [prog, ip, port, c, ''-s''] s =
      Some (Fault (if 0 \<le> k \<and> k < 19 then Null_call else Out_of_bounds), t))) \<and>
    (\<not> (0 \<le> k \<and> k < 11) \<longrightarrow> (\<exists>t. main_pr K sched [prog, ip, port, c, ''-s''] s =
      Some (Fault (if 0 \<le> k \<and> k < 19 then Null_call else Out_of_bounds), t))) \<and>
    (\<not> (0 \<le> k \<and> k < 21) \<longrightarrow> (\<exists>t. main_nd K [prog, ip, port, c, ''-s''] s =
      Some (Fault Out_of_bounds, t)))"
  using main_sr_no_case [OF assms(1), of c prog ip port s] main_pr_no_case [OF assms(1), of c sched prog ip port s]
    main_nd_no_case [OF assms(1), of c prog ip port s]
  unfolding assms(2) by (auto simp: not_le not_less)

theorem sn_missing_cases_witness:
  "(\<exists>t. main_sr quiet_kernel [''strreset'', ''10.0.0.1'', ''8888'', ''7'', ''-s'']
      \<lparr>mem = zero_context, world = (), trace = []\<rparr> = Some (Fault Null_call, t))"
  using sn_missing_cases [of quiet_kernel 7 "''7''" "''strreset''" "''10.0.0.1''" "''8888''"
      "\<lparr>mem = zero_context, world = (), trace = []\<rparr>"]
  by (simp add: atoi_eval)

end
